(* ===== verification/Prelude.thy ===== *)
theory Prelude
  imports Main "HOL-Library.Word" "HOL-Library.Multiset"
begin

text \<open>
  Shared vocabulary of the development: the integer and byte types of the Rust
  sources, results that separate a returned error from a panic, the \<open>std::io\<close>
  operations the codecs use, timers as deadlines, and the generic interfaces
  (a self-delimiting byte codec, a transition system with an invariant) whose
  lemmas the components share.
\<close>

section \<open>Machine types\<close>

type_synonym byte = "8 word"
type_synonym bytes = "8 word list"
type_synonym u16 = "16 word"
type_synonym u64 = "64 word"

text \<open>\<open>usize\<close> is 64 bits wide on the supported targets; lengths and indices are
  kept as \<open>nat\<close> and carry the bound where an encoding depends on it.\<close>

abbreviation usize_bound :: nat where
  "usize_bound \<equiv> 2 ^ 64"

text \<open>No Rust allocation is larger than \<open>isize::MAX\<close> bytes: a \<open>Vec\<close> that exists is
  below this bound, and asking for more panics.\<close>

abbreviation isize_bound :: nat where
  "isize_bound \<equiv> 2 ^ 63"

text \<open>Facts that put a record, a handler or a codec into normal form for the simplifier.\<close>

named_theorems codec_simps "reading back what an encoder wrote"
named_theorems step_simps "unfolding rules of the handlers and their helpers"

section \<open>Errors and panics\<close>

text \<open>A Rust call returns a value, returns an error or panics. \<open>Inl\<close> carries the
  two failures apart, so that no property can confuse an \<open>Err\<close> with an abort.\<close>

datatype 'e fault = Panic string | Fail 'e

type_synonym ('e, 'a) res = "'e fault + 'a"

text \<open>\<open>anyhow::Error\<close> is its message.\<close>

type_synonym anyhow = string

definition bindR :: "'e + 'a \<Rightarrow> ('a \<Rightarrow> 'e + 'b) \<Rightarrow> 'e + 'b" where
  "bindR m f = (case m of Inl e \<Rightarrow> Inl e | Inr x \<Rightarrow> f x)"

lemma bindR_simps [simp]:
  "bindR (Inl e) f = Inl e"
  "bindR (Inr x) f = f x"
  by (simp_all add: bindR_def)

lemma bindR_eq_Inr [simp]:
  "bindR m f = Inr y \<longleftrightarrow> (\<exists>x. m = Inr x \<and> f x = Inr y)"
  by (cases m) auto

lemma bindR_eq_Inl:
  "bindR m f = Inl e \<longleftrightarrow> m = Inl e \<or> (\<exists>x. m = Inr x \<and> f x = Inl e)"
  by (cases m) auto

lemma bindR_cong [fundef_cong]:
  "m = m' \<Longrightarrow> (\<And>x. m' = Inr x \<Longrightarrow> f x = f' x) \<Longrightarrow> bindR m f = bindR m' f'"
  by (cases m') auto

text \<open>\<open>map_err\<close> and the conversion of an \<open>Option\<close> into a result.\<close>

definition map_errR :: "('e \<Rightarrow> 'f) \<Rightarrow> 'e + 'a \<Rightarrow> 'f + 'a" where
  "map_errR g m = (case m of Inl e \<Rightarrow> Inl (g e) | Inr x \<Rightarrow> Inr x)"

lemma map_errR_simps [simp]:
  "map_errR g (Inl e) = Inl (g e)"
  "map_errR g (Inr x) = Inr x"
  "map_errR g m = Inr y \<longleftrightarrow> m = Inr y"
  by (simp_all add: map_errR_def split: sum.splits)

definition ok_or :: "'e \<Rightarrow> 'a option \<Rightarrow> 'e + 'a" where
  "ok_or e m = (case m of None \<Rightarrow> Inl e | Some x \<Rightarrow> Inr x)"

lemma ok_or_simps [simp]:
  "ok_or e None = Inl e"
  "ok_or e (Some x) = Inr x"
  "ok_or e m = Inr y \<longleftrightarrow> m = Some y"
  by (simp_all add: ok_or_def split: option.splits)

text \<open>\<open>x + 1\<close> and \<open>x - 1\<close> on an unsigned integer panic when they leave its range.\<close>

definition checked_inc :: "'w :: len word \<Rightarrow> ('e, 'w word) res" where
  "checked_inc x = (if x = - 1 then Inl (Panic ''attempt to add with overflow'') else Inr (x + 1))"

definition checked_dec :: "'w :: len word \<Rightarrow> ('e, 'w word) res" where
  "checked_dec x = (if x = 0 then Inl (Panic ''attempt to subtract with overflow'') else Inr (x - 1))"

lemma checked_inc_Inr [simp]: "checked_inc x = Inr y \<longleftrightarrow> x \<noteq> - 1 \<and> y = x + 1"
  by (auto simp: checked_inc_def)

lemma checked_dec_Inr [simp]: "checked_dec x = Inr y \<longleftrightarrow> x \<noteq> 0 \<and> y = x - 1"
  by (auto simp: checked_dec_def)

lemma unat_checked_inc: "x \<noteq> - 1 \<Longrightarrow> unat (x + 1) = Suc (unat x)"
  by (metis add.commute add.right_neutral add_left_cancel diff_add_cancel eq_neg_iff_add_eq_0 unatSuc)

section \<open>Input streams\<close>

datatype io_kind =
    UnexpectedEof | InvalidInput | InvalidData | NotFound | AlreadyExists | IsADirectory | OtherIo

text \<open>\<open>Read::read_exact\<close>: the buffer is filled or the stream ends early.\<close>

definition read_exact :: "nat \<Rightarrow> bytes \<Rightarrow> io_kind + bytes \<times> bytes" where
  "read_exact n bs = (if length bs < n then Inl UnexpectedEof else Inr (take n bs, drop n bs))"

lemma read_exact_append [codec_simps]:
  "length xs = n \<Longrightarrow> read_exact n (xs @ ys) = Inr (xs, ys)"
  by (simp add: read_exact_def)

lemma read_exact_Inr:
  "read_exact n bs = Inr (xs, ys) \<longleftrightarrow> bs = xs @ ys \<and> length xs = n"
  by (auto simp: read_exact_def)

lemma read_exact_short:
  "length bs < n \<Longrightarrow> read_exact n bs = Inl UnexpectedEof"
  by (simp add: read_exact_def)

text \<open>\<open>vec![0; n]\<close> followed by \<open>read_exact\<close>: the allocation comes first.\<close>

definition read_vec :: "nat \<Rightarrow> bytes \<Rightarrow> (io_kind, bytes \<times> bytes) res" where
  "read_vec n io =
     (if isize_bound \<le> n then Inl (Panic ''capacity overflow'')
      else map_errR Fail (read_exact n io))"

lemma read_vec_append [codec_simps]:
  "length xs = n \<Longrightarrow> n < isize_bound \<Longrightarrow> read_vec n (xs @ r) = Inr (xs, r)"
  by (simp add: read_vec_def read_exact_append)

lemma read_vec_Inr:
  "read_vec n io = Inr (xs, r) \<longleftrightarrow> io = xs @ r \<and> length xs = n \<and> n < isize_bound"
  by (simp add: read_vec_def read_exact_Inr conj_commute)

lemma read_vec_panic_iff:
  "read_vec n io = Inl (Panic s) \<longleftrightarrow> isize_bound \<le> n \<and> s = ''capacity overflow''"
  by (auto simp: read_vec_def read_exact_def)

text \<open>A counted loop \<open>for _ in 0..n\<close> that reads one item per turn.\<close>

fun read_many :: "(bytes \<Rightarrow> 'e + 'a \<times> bytes) \<Rightarrow> nat \<Rightarrow> bytes \<Rightarrow> 'e + 'a list \<times> bytes" where
  "read_many rd 0 io = Inr ([], io)"
| "read_many rd (Suc n) io =
     bindR (rd io) (\<lambda>(x, io'). bindR (read_many rd n io') (\<lambda>(xs, io''). Inr (x # xs, io'')))"

section \<open>A self-delimiting codec\<close>

text \<open>
  The contract between an encoder and its reader: what was written is read back and
  the rest of the stream is left untouched. Everything the wire formats need about
  sequences of items follows once, here.
\<close>

locale byte_codec =
  fixes put :: "'a \<Rightarrow> bytes"
    and get :: "bytes \<Rightarrow> 'e + 'a \<times> bytes"
    and valid :: "'a \<Rightarrow> bool"
  assumes get_put: "valid a \<Longrightarrow> get (put a @ r) = Inr (a, r)"
begin

lemma put_prefix_free:
  assumes "valid a" and "valid b" and "put a @ r = put b @ s"
  shows "a = b \<and> r = s"
proof -
  have "Inr (a, r) = get (put a @ r)" using get_put [OF assms(1)] by simp
  also have "\<dots> = get (put b @ s)" by (simp only: assms(3))
  also have "\<dots> = Inr (b, s)" using assms(2) by (rule get_put)
  finally show ?thesis by simp
qed

lemma get_put_list:
  "(\<And>x. x \<in> set xs \<Longrightarrow> valid x) \<Longrightarrow>
   read_many get (length xs) (concat (map put xs) @ r) = Inr (xs, r)"
  by (induction xs) (simp_all add: get_put)

end

section \<open>Transition systems\<close>

text \<open>
  A component that reacts to events keeps an invariant when its initial states have
  it and every step preserves it. The lemma over runs is proved once for all of them.
\<close>

fun run :: "('s \<Rightarrow> 'e \<Rightarrow> 's) \<Rightarrow> 's \<Rightarrow> 'e list \<Rightarrow> 's" where
  "run step s [] = s"
| "run step s (e # es) = run step (step s e) es"

lemma run_append: "run step s (xs @ ys) = run step (run step s xs) ys"
  by (induction xs arbitrary: s) simp_all

locale invariant_system =
  fixes step :: "'s \<Rightarrow> 'e \<Rightarrow> 's"
    and inv :: "'s \<Rightarrow> bool"
  assumes step_inv: "inv s \<Longrightarrow> inv (step s e)"
begin

lemma run_inv: "inv s \<Longrightarrow> inv (run step s es)"
  by (induction es arbitrary: s) (simp_all add: step_inv)

end

text \<open>The same with a quantity that no step decreases.\<close>

locale monotone_system =
  fixes step :: "'s \<Rightarrow> 'e \<Rightarrow> 's"
    and measure_of :: "'s \<Rightarrow> 'q :: preorder"
  assumes step_mono: "measure_of s \<le> measure_of (step s e)"
begin

lemma run_mono: "measure_of s \<le> measure_of (run step s es)"
proof (induction es arbitrary: s)
  case Nil
  show ?case by simp
next
  case (Cons e es)
  have "measure_of s \<le> measure_of (step s e)" by (rule step_mono)
  also have "\<dots> \<le> measure_of (run step (step s e) es)" by (rule Cons.IH)
  finally show ?case by simp
qed

end

section \<open>Timers\<close>

text \<open>
  An \<open>Instant\<close> is a number of milliseconds. A pending sleep is the instant at which
  it completes, so polling it compares with the current instant.
\<close>

type_synonym instant = nat

definition sleep :: "instant \<Rightarrow> nat \<Rightarrow> instant" where
  "sleep now ms = now + ms"

definition fired :: "instant \<Rightarrow> instant \<Rightarrow> bool" where
  "fired now deadline \<longleftrightarrow> deadline \<le> now"

abbreviation from_secs :: "nat \<Rightarrow> nat" where
  "from_secs s \<equiv> 1000 * s"

section \<open>Paths\<close>

text \<open>\<open>Path::join\<close> on Unix: an absolute right-hand side replaces the base.\<close>

definition path_join :: "string \<Rightarrow> string \<Rightarrow> string" where
  "path_join base s =
     (if s \<noteq> [] \<and> hd s = CHR ''/'' then s
      else if base = [] \<or> last base = CHR ''/'' then base @ s
      else base @ ''/'' @ s)"

lemma path_join_inj:
  assumes "path_join base s = path_join base t"
    and "s = [] \<or> hd s \<noteq> CHR ''/''" and "t = [] \<or> hd t \<noteq> CHR ''/''"
  shows "s = t"
  using assms by (auto simp: path_join_def split: if_splits)

section \<open>List facts used by several components\<close>

lemma member_length_concat: "b \<in> set bs \<Longrightarrow> length b \<le> length (concat bs)"
  by (induction bs) auto

lemma chunk_less_concat:
  assumes "x \<noteq> []" and "z \<noteq> []" and "b \<in> set (x # y # z # rest)"
  shows "length b < length (concat (x # y # z # rest))"
proof -
  have pos: "0 < length x" "0 < length z" using assms(1,2) by simp_all
  have "length b = length x \<or> length b = length y \<or> length b = length z \<or>
      length b \<le> length (concat rest)"
    using assms(3) member_length_concat [of b rest] by auto
  moreover have "length (concat (x # y # z # rest)) =
      length x + length y + length z + length (concat rest)" by simp
  ultimately show ?thesis using pos by linarith
qed

lemma filter_neq_remove1:
  "distinct xs \<Longrightarrow> filter (\<lambda>x. x \<noteq> a) xs = remove1 a xs"
  by (induction xs) (auto simp: filter_id_conv)

lemma length_filter_neq:
  assumes "distinct xs" and "a \<in> set xs"
  shows "length (filter (\<lambda>x. x \<noteq> a) xs) = length xs - 1"
  using assms by (simp add: filter_neq_remove1 length_remove1)

lemma concat_eq_lengths:
  assumes "concat xs = concat ys" and "map length xs = map length ys"
  shows "xs = ys"
proof -
  have "length xs = length ys" using assms(2) by (metis length_map)
  from this assms show ?thesis by (induction xs ys rule: list_induct2) simp_all
qed

definition opt_list :: "'a option \<Rightarrow> 'a list" where
  "opt_list m = (case m of None \<Rightarrow> [] | Some x \<Rightarrow> [x])"

lemma opt_list_simps [simp]: "opt_list None = []" "opt_list (Some x) = [x]"
  by (simp_all add: opt_list_def)

text \<open>\<open>Iterator::position\<close>: the first index whose element satisfies the test.\<close>

fun position :: "('a \<Rightarrow> bool) \<Rightarrow> 'a list \<Rightarrow> nat option" where
  "position p [] = None"
| "position p (x # xs) = (if p x then Some 0 else map_option Suc (position p xs))"

lemma position_None_iff: "position p xs = None \<longleftrightarrow> (\<forall>x \<in> set xs. \<not> p x)"
  by (induction xs) auto

lemma position_Some:
  "position p xs = Some i \<Longrightarrow> i < length xs \<and> p (xs ! i) \<and> (\<forall>j < i. \<not> p (xs ! j))"
  by (induction xs arbitrary: i) (auto simp: less_Suc_eq_0_disj split: if_splits)

lemma position_nth_distinct:
  "distinct xs \<Longrightarrow> i < length xs \<Longrightarrow> position (\<lambda>x. x = xs ! i) xs = Some i"
proof (induction xs arbitrary: i)
  case Nil
  then show ?case by simp
next
  case (Cons x xs)
  then show ?case by (cases i) auto
qed

lemma position_eq_Some_iff:
  assumes "distinct xs"
  shows "position (\<lambda>x. x = a) xs = Some i \<longleftrightarrow> i < length xs \<and> xs ! i = a"
proof
  assume "position (\<lambda>x. x = a) xs = Some i"
  then show "i < length xs \<and> xs ! i = a" by (auto dest: position_Some)
next
  assume "i < length xs \<and> xs ! i = a"
  with assms show "position (\<lambda>x. x = a) xs = Some i"
    using position_nth_distinct [of xs i] by auto
qed

end
