(* ===== verification/Varint.thy ===== *)
theory Varint
  imports Prelude
begin

text \<open>
  The \<open>unsigned_varint\<close> crate as a parameter: its encoder and its reader are fields
  of a record that the codecs of the program take as an argument, and
  \<open>varint_laws\<close> collects what the crate documents and the program relies on.
  \<open>leb128\<close> is a concrete instance, which shows that the laws can hold.
\<close>

datatype varint_read_error = VarIo io_kind | VarDecode

record varint_ops =
  vi_encode :: "nat \<Rightarrow> bytes"
  vi_read :: "nat \<Rightarrow> bytes \<Rightarrow> varint_read_error + nat \<times> bytes"

text \<open>The widths the program reads: \<open>u8\<close>, \<open>u64\<close> and \<open>usize\<close>.\<close>

definition varint_width :: "nat \<Rightarrow> bool" where
  "varint_width w \<longleftrightarrow> w = 8 \<or> w = 64"

definition varint_laws :: "varint_ops \<Rightarrow> bool" where
  "varint_laws V \<longleftrightarrow>
     (\<forall>w n r. varint_width w \<longrightarrow> n < 2 ^ w \<longrightarrow> vi_read V w (vi_encode V n @ r) = Inr (n, r)) \<and>
     (\<forall>w. varint_width w \<longrightarrow> vi_read V w [] = Inl (VarIo UnexpectedEof)) \<and>
     (\<forall>w bs n r. varint_width w \<longrightarrow> vi_read V w bs = Inr (n, r) \<longrightarrow>
        n < 2 ^ w \<and> (\<exists>p. p \<noteq> [] \<and> bs = p @ r) \<and> (\<forall>x. vi_read V w (bs @ x) = Inr (n, r @ x)))"

lemma varint_width_cases [simp]: "varint_width 8" "varint_width 64"
  by (simp_all add: varint_width_def)

section \<open>The contract as a locale\<close>

locale varint_env =
  fixes V :: varint_ops
  assumes laws: "varint_laws V"
begin

lemma read_encode [simp]:
  "varint_width w \<Longrightarrow> n < 2 ^ w \<Longrightarrow> vi_read V w (vi_encode V n @ r) = Inr (n, r)"
  using laws by (simp add: varint_laws_def)

lemma read_encode_width [simp]:
  "n < 256 \<Longrightarrow> vi_read V 8 (vi_encode V n @ r) = Inr (n, r)"
  "n < 18446744073709551616 \<Longrightarrow> vi_read V 64 (vi_encode V n @ r) = Inr (n, r)"
  using read_encode [of 8 n r] read_encode [of 64 n r] by simp_all

lemma read_empty [simp]:
  "varint_width w \<Longrightarrow> vi_read V w [] = Inl (VarIo UnexpectedEof)"
  using laws by (simp add: varint_laws_def)

lemma read_bound: "varint_width w \<Longrightarrow> vi_read V w bs = Inr (n, r) \<Longrightarrow> n < 2 ^ w"
  using laws unfolding varint_laws_def by blast

lemma read_consumes:
  "varint_width w \<Longrightarrow> vi_read V w bs = Inr (n, r) \<Longrightarrow> \<exists>p. p \<noteq> [] \<and> bs = p @ r"
  using laws unfolding varint_laws_def by blast

lemma read_stable:
  "varint_width w \<Longrightarrow> vi_read V w bs = Inr (n, r) \<Longrightarrow> vi_read V w (bs @ x) = Inr (n, r @ x)"
  using laws unfolding varint_laws_def by blast

lemma encode_nonempty:
  assumes "n < 2 ^ 64"
  shows "vi_encode V n \<noteq> []"
proof
  assume "vi_encode V n = []"
  then have "vi_read V 64 [] = Inr (n, [])" using read_encode [of 64 n "[]"] assms by simp
  then show False by simp
qed

lemma encode_prefix_free:
  assumes "n < 2 ^ 64" and "m < 2 ^ 64" and "vi_encode V n @ r = vi_encode V m @ s"
  shows "n = m \<and> r = s"
proof -
  have "Inr (n, r) = vi_read V 64 (vi_encode V n @ r)" using assms(1) by simp
  also have "\<dots> = vi_read V 64 (vi_encode V m @ s)" by (simp only: assms(3))
  also have "\<dots> = Inr (m, s)" using assms(2) by simp
  finally show ?thesis by simp
qed

end

text \<open>Every width is a codec in the sense of the prelude.\<close>

sublocale varint_env \<subseteq> byte_codec "vi_encode V" "vi_read V 64" "\<lambda>n. n < 2 ^ 64"
  by unfold_locales simp

section \<open>LEB128, the format the crate implements\<close>

fun leb_encode :: "nat \<Rightarrow> bytes" where
  "leb_encode n =
     (if n < 128 then [of_nat n] else of_nat (128 + n mod 128) # leb_encode (n div 128))"

declare leb_encode.simps [simp del]

lemma leb_encode_small: "n < 128 \<Longrightarrow> leb_encode n = [of_nat n]"
  by (simp add: leb_encode.simps)

text \<open>\<open>k\<close> bounds the number of bytes of a value, as the crate's fixed buffers do.\<close>

fun leb_go :: "nat \<Rightarrow> bool \<Rightarrow> bytes \<Rightarrow> varint_read_error + nat \<times> bytes" where
  "leb_go k first [] = Inl (VarIo UnexpectedEof)"
| "leb_go 0 first (b # bs) = Inl VarDecode"
| "leb_go (Suc k) first (b # bs) =
     (if unat b < 128
      then if unat b = 0 \<and> \<not> first then Inl VarDecode else Inr (unat b, bs)
      else bindR (leb_go k False bs) (\<lambda>(n, r). Inr (unat b mod 128 + 128 * n, r)))"

definition leb_read :: "nat \<Rightarrow> bytes \<Rightarrow> varint_read_error + nat \<times> bytes" where
  "leb_read w bs =
     bindR (leb_go ((w + 6) div 7) True bs)
       (\<lambda>(n, r). if n < 2 ^ w then Inr (n, r) else Inl VarDecode)"

definition leb128 :: varint_ops where
  "leb128 = \<lparr>vi_encode = leb_encode, vi_read = leb_read\<rparr>"

lemma leb128_encode_small: "n < 128 \<Longrightarrow> vi_encode leb128 n = [of_nat n]"
  by (simp add: leb128_def leb_encode_small)

lemma unat_byte: "n < 256 \<Longrightarrow> unat (of_nat n :: byte) = n"
  by (simp add: unat_of_nat)

lemma leb_go_encode:
  "n < 128 ^ k \<Longrightarrow> 0 < n \<or> first \<Longrightarrow> 0 < k \<Longrightarrow> leb_go k first (leb_encode n @ r) = Inr (n, r)"
proof (induction n arbitrary: k first rule: leb_encode.induct)
  case (1 n)
  then obtain j where k: "k = Suc j" by (cases k) auto
  show ?case
  proof (cases "n < 128")
    case True
    with 1(3) k show ?thesis
      by (subst leb_encode.simps) (auto simp: unat_byte)
  next
    case False
    have "n div 128 < 128 ^ j" using 1(2) k by (simp add: less_mult_imp_div_less mult.commute)
    moreover have "0 < n div 128" using False by (simp add: div_greater_zero_iff)
    moreover have "0 < j" using calculation by (cases j) auto
    ultimately have IH: "leb_go j False (leb_encode (n div 128) @ r) = Inr (n div 128, r)"
      using False 1(1) by blast
    have "unat (of_nat (128 + n mod 128) :: byte) = 128 + n mod 128"
      by (rule unat_byte) (use mod_less_divisor [of 128 n] in simp)
    with False k IH show ?thesis
      by (subst leb_encode.simps) simp
  qed
qed

lemma leb_read_encode:
  assumes "varint_width w" and "n < 2 ^ w"
  shows "leb_read w (leb_encode n @ r) = Inr (n, r)"
proof -
  have "n < 128 ^ ((w + 6) div 7)"
  proof -
    have "(2::nat) ^ w \<le> 2 ^ (7 * ((w + 6) div 7))"
      by (rule power_increasing) (use assms(1) in \<open>auto simp: varint_width_def\<close>)
    also have "\<dots> = 128 ^ ((w + 6) div 7)" by (simp add: power_mult)
    finally show ?thesis using assms(2) by simp
  qed
  moreover have "0 < (w + 6) div 7" using assms(1) by (auto simp: varint_width_def)
  ultimately have "leb_go ((w + 6) div 7) True (leb_encode n @ r) = Inr (n, r)"
    by (simp add: leb_go_encode)
  with assms(2) show ?thesis by (simp add: leb_read_def)
qed

lemma leb_go_consumes:
  "leb_go k first bs = Inr (n, r) \<Longrightarrow> \<exists>p. p \<noteq> [] \<and> bs = p @ r"
proof (induction k first bs arbitrary: n rule: leb_go.induct)
  case (3 k first b bs)
  show ?case
  proof (cases "unat b < 128")
    case True
    with 3(2) have "b # bs = [b] @ r" by (auto split: if_splits)
    then show ?thesis by blast
  next
    case False
    with 3(2) obtain m where "leb_go k False bs = Inr (m, r)" by auto
    with 3(1) False obtain p where "bs = p @ r" by blast
    then have "b # bs = (b # p) @ r" by simp
    then show ?thesis by blast
  qed
qed simp_all

lemma leb_go_stable:
  "leb_go k first bs = Inr (n, r) \<Longrightarrow> leb_go k first (bs @ x) = Inr (n, r @ x)"
  by (induction k first bs arbitrary: n rule: leb_go.induct) (auto split: if_splits)

lemma leb_read_Inr:
  assumes "leb_read w bs = Inr (n, r)"
  shows "n < 2 ^ w \<and> (\<exists>p. p \<noteq> [] \<and> bs = p @ r) \<and> (\<forall>x. leb_read w (bs @ x) = Inr (n, r @ x))"
proof -
  from assms have go: "leb_go ((w + 6) div 7) True bs = Inr (n, r)" and n: "n < 2 ^ w"
    by (auto simp: leb_read_def split: if_splits)
  have "leb_read w (bs @ x) = Inr (n, r @ x)" for x
    using leb_go_stable [OF go, of x] n by (simp add: leb_read_def)
  then show ?thesis using leb_go_consumes [OF go] n by blast
qed

lemma leb128_laws: "varint_laws leb128"
  unfolding varint_laws_def
proof (intro conjI allI impI)
  fix w n :: nat and r assume "varint_width w" "n < 2 ^ w"
  then show "vi_read leb128 w (vi_encode leb128 n @ r) = Inr (n, r)"
    by (simp add: leb128_def leb_read_encode)
next
  fix w show "vi_read leb128 w [] = Inl (VarIo UnexpectedEof)"
    by (simp add: leb128_def leb_read_def)
next
  fix w bs n r assume "vi_read leb128 w bs = Inr (n, r)"
  then have *: "leb_read w bs = Inr (n, r)" by (simp add: leb128_def)
  then show "n < 2 ^ w" using leb_read_Inr by blast
  from * show "\<exists>p. p \<noteq> [] \<and> bs = p @ r" using leb_read_Inr by blast
  fix x from * show "vi_read leb128 w (bs @ x) = Inr (n, r @ x)"
    using leb_read_Inr by (simp add: leb128_def)
qed

interpretation leb128: varint_env leb128
  by unfold_locales (rule leb128_laws)

end
