(* ===== verification/Wire.thy ===== *)
theory Wire
  imports Varint
begin

text \<open>
  The request-response layer's data and its wire format, from
  \<open>network/src/request_responses.rs\<close>: message contexts, incoming requests and
  responses, and the four codec functions of \<open>GenericCodec\<close>. A writer returns the
  bytes it puts on the substream; a reader consumes a prefix of the stream and
  returns an \<open>io::Error\<close> kind, a panic or the value and the rest.
\<close>

section \<open>Messages\<close>

datatype message_type = Coordination | Computation

type_synonym session_id = bytes

definition NO_SESSION_ID :: session_id where
  "NO_SESSION_ID = replicate 16 0"

record message_context =
  message_type :: message_type
  protocol_id :: u64
  session_id :: session_id
  message_id :: u64

record wire_message =
  wm_context :: message_context
  wm_payload :: bytes
  wm_is_broadcast :: bool

datatype outbound_failure =
  DialFailure | OutTimeout | OutConnectionClosed | OutUnsupportedProtocols | OutIo io_kind

datatype request_failure =
  NotConnected | UnknownProtocol | Refused | Obsolete | Network outbound_failure

text \<open>A response channel is the identity of its oneshot; sending on it is an effect
  that names the channel and the response.\<close>

type_synonym oneshot = nat

record outgoing_response =
  or_result :: "unit + bytes"
  or_sent_feedback :: "oneshot option"

record 'p incoming_request =
  ir_context :: message_context
  ir_peer :: 'p
  ir_peer_id :: 'p
  ir_is_broadcast :: bool
  ir_peer_index :: u16
  ir_payload :: bytes
  ir_pending_response :: oneshot

section \<open>The codec\<close>

record generic_codec =
  max_request_size :: u64
  max_response_size :: u64

definition message_type_as_u8 :: "message_type \<Rightarrow> nat" where
  "message_type_as_u8 t = (case t of Coordination \<Rightarrow> 0 | Computation \<Rightarrow> 1)"

definition read_varint :: "varint_ops \<Rightarrow> nat \<Rightarrow> bytes \<Rightarrow> (io_kind, nat \<times> bytes) res" where
  "read_varint V w io = map_errR (\<lambda>_. Fail InvalidInput) (vi_read V w io)"

definition read_bytes :: "nat \<Rightarrow> bytes \<Rightarrow> (io_kind, bytes \<times> bytes) res" where
  "read_bytes n io = map_errR Fail (read_exact n io)"

definition decode_message_type :: "nat \<Rightarrow> (io_kind, message_type) res" where
  "decode_message_type t =
     (if t = 0 then Inr Coordination
      else if t = 1 then Inr Computation
      else Inl (Panic ''unknown messages type''))"

definition read_request ::
    "varint_ops \<Rightarrow> generic_codec \<Rightarrow> bytes \<Rightarrow> (io_kind, wire_message \<times> bytes) res" where
  "read_request V c io0 =
     bindR (read_varint V 8 io0) (\<lambda>(t, io1).
     bindR (decode_message_type t) (\<lambda>mt.
     bindR (read_varint V 8 io1) (\<lambda>(bc, io2).
     bindR (read_varint V 64 io2) (\<lambda>(pid, io3).
     bindR (read_bytes 16 io3) (\<lambda>(sid, io4).
     bindR (read_varint V 64 io4) (\<lambda>(mid, io5).
     bindR (read_varint V 64 io5) (\<lambda>(len, io6).
       if unat (max_request_size c) < len then Inl (Fail InvalidInput)
       else bindR (read_vec len io6) (\<lambda>(buffer, io7).
         Inr (\<lparr>wm_context = \<lparr>message_type = mt, protocol_id = of_nat pid,
                             session_id = sid, message_id = of_nat mid\<rparr>,
               wm_payload = buffer, wm_is_broadcast = (bc \<noteq> 0)\<rparr>, io7)))))))))"

definition write_request :: "varint_ops \<Rightarrow> wire_message \<Rightarrow> bytes" where
  "write_request V req =
     vi_encode V (message_type_as_u8 (message_type (wm_context req))) @
     vi_encode V (if wm_is_broadcast req then 1 else 0) @
     vi_encode V (unat (protocol_id (wm_context req))) @
     session_id (wm_context req) @
     vi_encode V (unat (message_id (wm_context req))) @
     vi_encode V (length (wm_payload req)) @
     wm_payload req"

definition read_response ::
    "varint_ops \<Rightarrow> generic_codec \<Rightarrow> bytes \<Rightarrow> (io_kind, unit + bytes) res" where
  "read_response V c io =
     (case vi_read V 64 io of
        Inl (VarIo UnexpectedEof) \<Rightarrow> Inr (Inl ())
      | Inl _ \<Rightarrow> Inl (Fail InvalidInput)
      | Inr (len, io') \<Rightarrow>
          if unat (max_response_size c) < len then Inl (Fail InvalidInput)
          else bindR (read_vec len io') (\<lambda>(buffer, _). Inr (Inr buffer)))"

definition write_response :: "varint_ops \<Rightarrow> unit + bytes \<Rightarrow> bytes" where
  "write_response V r = (case r of Inl _ \<Rightarrow> [] | Inr b \<Rightarrow> vi_encode V (length b) @ b)"

text \<open>The session id is a \<open>[u8; 16]\<close> and a payload is a \<open>Vec\<close> that exists.\<close>

definition wf_wire_message :: "wire_message \<Rightarrow> bool" where
  "wf_wire_message m \<longleftrightarrow>
     length (session_id (wm_context m)) = 16 \<and> length (wm_payload m) < isize_bound"

section \<open>Reading back\<close>

lemma read_varint_Inr [simp]:
  "read_varint V w io = Inr x \<longleftrightarrow> vi_read V w io = Inr x"
  by (simp add: read_varint_def)

lemma read_bytes_Inr:
  "read_bytes n io = Inr (xs, r) \<longleftrightarrow> io = xs @ r \<and> length xs = n"
  by (simp add: read_bytes_def read_exact_Inr)

lemma read_varint_not_panic [simp]: "read_varint V w io \<noteq> Inl (Panic s)"
  by (simp add: read_varint_def map_errR_def split: sum.splits)

lemma read_bytes_not_panic [simp]: "read_bytes n io \<noteq> Inl (Panic s)"
  by (simp add: read_bytes_def map_errR_def split: sum.splits)

lemma decode_message_type_as_u8 [simp]:
  "decode_message_type (message_type_as_u8 t) = Inr t"
  by (simp add: decode_message_type_def message_type_as_u8_def split: message_type.splits)

lemma message_type_as_u8_bound [simp]: "message_type_as_u8 t < 256"
  by (simp add: message_type_as_u8_def split: message_type.splits)

lemma unat_u64_bound [simp]: "unat (x :: u64) < 18446744073709551616"
  using unsigned_less [of x, where 'a = nat] by simp

context varint_env
begin

lemma read_varint_encode [codec_simps]:
  "n < 256 \<Longrightarrow> read_varint V 8 (vi_encode V n @ r) = Inr (n, r)"
  "n < usize_bound \<Longrightarrow> read_varint V 64 (vi_encode V n @ r) = Inr (n, r)"
  by simp_all

lemma read_bytes_append [codec_simps]:
  "length xs = n \<Longrightarrow> read_bytes n (xs @ r) = Inr (xs, r)"
  by (simp add: read_bytes_Inr)

lemma read_write_request:
  assumes "wf_wire_message m"
  shows "read_request V c (write_request V m @ r) =
    (if length (wm_payload m) \<le> unat (max_request_size c)
     then Inr (m, r) else Inl (Fail InvalidInput))"
  using assms
  by (cases m, cases "wm_context m")
     (simp add: read_request_def write_request_def wf_wire_message_def codec_simps)

lemma read_request_stable:
  assumes "read_request V c bs = Inr (m, r)"
  shows "read_request V c (bs @ x) = Inr (m, r @ x)"
proof -
  from assms obtain t i1 mt bc i2 pid sid i4 mid i5 pl where
    v: "vi_read V 8 bs = Inr (t, i1)" "vi_read V 8 i1 = Inr (bc, i2)"
       "vi_read V 64 i2 = Inr (pid, sid @ i4)" "vi_read V 64 i4 = Inr (mid, i5)"
       "vi_read V 64 i5 = Inr (length pl, pl @ r)"
    and rest: "decode_message_type t = Inr mt" "length sid = 16"
       "\<not> unat (max_request_size c) < length pl" "length pl < isize_bound"
       "m = \<lparr>wm_context = \<lparr>message_type = mt, protocol_id = of_nat pid, session_id = sid,
             message_id = of_nat mid\<rparr>, wm_payload = pl, wm_is_broadcast = (bc \<noteq> 0)\<rparr>"
    by (auto simp: read_request_def read_bytes_Inr read_vec_Inr split: if_splits)
  note ext = v [THEN read_stable [rotated], of x]
  show ?thesis
    using rest ext by (simp add: read_request_def read_varint_def codec_simps del: bindR_eq_Inr)
qed

lemma read_write_response:
  assumes "length b < isize_bound"
  shows "read_response V c (write_response V (Inr b) @ r) =
    (if length b \<le> unat (max_response_size c) then Inr (Inr b) else Inl (Fail InvalidInput))"
  using assms by (simp add: read_response_def write_response_def codec_simps)

end

section \<open>The request codec with the limits of a room protocol\<close>

text \<open>\<open>ProtocolConfig::new\<close> sets the limits every room is registered with.\<close>

definition default_codec :: generic_codec where
  "default_codec = \<lparr>max_request_size = 8 * 1024 * 1024, max_response_size = 10 * 1024\<rparr>"

locale wire_env = varint_env +
  fixes c :: generic_codec

sublocale wire_env \<subseteq> request: byte_codec "write_request V" "read_request V c"
    "\<lambda>m. wf_wire_message m \<and> length (wm_payload m) \<le> unat (max_request_size c)"
  by unfold_locales (simp add: read_write_request)

interpretation room_wire: wire_env leb128 default_codec
  by unfold_locales

section \<open>Properties\<close>

text \<open>
  C1: a request that fits the limit is read back exactly as it was written, whatever
  follows it on the substream.
\<close>

theorem request_roundtrip:
  assumes "varint_laws V" and "wf_wire_message m"
    and "length (wm_payload m) \<le> unat (max_request_size c)"
  shows "read_request V c (write_request V m @ r) = Inr (m, r)"
proof -
  from assms(1) have "varint_env V" by (simp add: varint_env_def)
  from varint_env.read_write_request [OF this assms(2)] assms(3) show ?thesis by simp
qed

definition sample_request :: wire_message where
  "sample_request =
     \<lparr>wm_context = \<lparr>message_type = Computation, protocol_id = 1,
                    session_id = replicate 16 7, message_id = 300\<rparr>,
      wm_payload = [1, 2, 3], wm_is_broadcast = True\<rparr>"

lemma wf_sample_request: "wf_wire_message sample_request"
  by (simp add: wf_wire_message_def sample_request_def)

theorem request_roundtrip_witness:
  "read_request leb128 default_codec (write_request leb128 sample_request @ [9]) =
     Inr (sample_request, [9])"
proof (rule request_roundtrip [OF leb128_laws wf_sample_request])
  show "length (wm_payload sample_request) \<le> unat (max_request_size default_codec)"
    by (simp add: sample_request_def default_codec_def)
qed

text \<open>
  A request that was cut short on the wire is never taken for a message: no strict
  prefix of an encoded request decodes.
\<close>

lemma truncated_request_rejected:
  assumes "varint_laws V" and "wf_wire_message m"
    and "length (wm_payload m) \<le> unat (max_request_size c)"
    and "k < length (write_request V m)"
  shows "\<exists>e. read_request V c (take k (write_request V m)) = Inl e"
proof (rule ccontr)
  assume "\<nexists>e. read_request V c (take k (write_request V m)) = Inl e"
  then obtain m' r where a: "read_request V c (take k (write_request V m)) = Inr (m', r)"
    by (cases "read_request V c (take k (write_request V m))") auto
  from assms(1) have env: "varint_env V" by (simp add: varint_env_def)
  let ?b = "write_request V m"
  from varint_env.read_request_stable [OF env a, of "drop k ?b"]
  have "read_request V c ?b = Inr (m', r @ drop k ?b)" by simp
  moreover have "read_request V c (?b @ []) = Inr (m, [])"
    using varint_env.read_write_request [OF env assms(2), of c "[]"] assms(3) by simp
  ultimately have "drop k ?b = []" by simp
  with assms(4) show False by simp
qed

text \<open>
  C27: what the reader returns is a value of its type: whatever bytes arrive, a request that is
  accepted has a session id of 16 bytes and a payload within the limit and the size of an
  allocation, its kind is the one the first value names, and it is one that the writer can
  put on the wire again and the reader takes back.
\<close>

theorem read_request_typed:
  assumes "varint_laws V" and "read_request V c io = Inr (m, rest)"
  shows "wf_wire_message m \<and> length (wm_payload m) \<le> unat (max_request_size c) \<and>
    (\<exists>io'. vi_read V 8 io = Inr (message_type_as_u8 (message_type (wm_context m)), io')) \<and>
    read_request V c (write_request V m @ x) = Inr (m, x)"
proof -
  from assms(2) have wf: "wf_wire_message m" "length (wm_payload m) \<le> unat (max_request_size c)"
    "\<exists>io'. vi_read V 8 io = Inr (message_type_as_u8 (message_type (wm_context m)), io')"
    by (auto simp: read_request_def read_bytes_Inr read_vec_Inr wf_wire_message_def
        decode_message_type_def message_type_as_u8_def split: if_splits)
  from assms(1) have "varint_env V" by (simp add: varint_env_def)
  from varint_env.read_write_request [OF this wf(1)] wf show ?thesis by simp
qed

text \<open>The sample request followed by one more byte.\<close>

theorem read_request_typed_witness:
  "wf_wire_message sample_request \<and>
   read_request leb128 default_codec (write_request leb128 sample_request @ [1]) = Inr (sample_request, [1])"
proof -
  have "read_request leb128 default_codec (write_request leb128 sample_request @ [9]) =
      Inr (sample_request, [9])"
    by (subst varint_env.read_write_request)
      (simp_all add: varint_env_def leb128_laws wf_sample_request, simp add: sample_request_def default_codec_def)
  from read_request_typed [OF leb128_laws this, of "[1]"] show ?thesis by blast
qed

text \<open>
  A request whose announced payload exceeds the limit of the protocol is refused with
  \<open>InvalidInput\<close> before the payload is read.
\<close>

lemma oversized_request_rejected:
  assumes "varint_laws V" and "wf_wire_message m"
    and "unat (max_request_size c) < length (wm_payload m)"
  shows "read_request V c (write_request V m @ r) = Inl (Fail InvalidInput)"
proof -
  from assms(1) have "varint_env V" by (simp add: varint_env_def)
  from varint_env.read_write_request [OF this assms(2)] assms(3) show ?thesis by simp
qed

text \<open>
  C30: with a request limit below the allocation limit, reading a request panics exactly
  when the stream opens with a message-type value other than 0 and 1; every other
  malformed input is an ordinary error. A remote peer chooses that byte, so it decides
  whether the reader panics.
\<close>

theorem read_request_panics_iff:
  assumes "unat (max_request_size c) < isize_bound"
  shows "(\<exists>s. read_request V c io = Inl (Panic s)) \<longleftrightarrow>
   (\<exists>t rest. vi_read V 8 io = Inr (t, rest) \<and> 2 \<le> t)"
proof
  assume "\<exists>s. read_request V c io = Inl (Panic s)"
  with assms show "\<exists>t rest. vi_read V 8 io = Inr (t, rest) \<and> 2 \<le> t"
    by (auto simp: read_request_def bindR_eq_Inl decode_message_type_def read_vec_panic_iff
        split: if_splits)
next
  assume "\<exists>t rest. vi_read V 8 io = Inr (t, rest) \<and> 2 \<le> t"
  then show "\<exists>s. read_request V c io = Inl (Panic s)"
    by (auto simp: read_request_def read_varint_def decode_message_type_def)
qed

theorem read_request_panics_iff_witness:
  "\<exists>s. read_request leb128 default_codec [2, 0, 0] = Inl (Panic s)"
proof -
  have "vi_read leb128 8 [2, 0, 0] = Inr (2, [0, 0])"
    using leb128.read_encode_width(1) [of 2 "[0, 0]"] by (simp add: leb128_def leb_encode.simps)
  then show ?thesis
    using read_request_panics_iff [of default_codec leb128 "[2, 0, 0]"]
    by (simp add: default_codec_def)
qed

text \<open>
  Responses survive the wire: a payload within the limit is read back, a refused
  request (\<open>Err(())\<close>) writes nothing and is read back as a refusal, and a payload over
  the limit is an error.
\<close>

lemma response_roundtrip:
  assumes "varint_laws V" and "length b < isize_bound"
  shows "read_response V c (write_response V (Inl ())) = Inr (Inl ()) \<and>
    read_response V c (write_response V (Inr b)) =
      (if length b \<le> unat (max_response_size c) then Inr (Inr b) else Inl (Fail InvalidInput))"
proof
  from assms(1) have env: "varint_env V" by (simp add: varint_env_def)
  show "read_response V c (write_response V (Inl ())) = Inr (Inl ())"
    using varint_env.read_empty [OF env, of 64] by (simp add: read_response_def write_response_def)
  show "read_response V c (write_response V (Inr b)) =
      (if length b \<le> unat (max_response_size c) then Inr (Inr b) else Inl (Fail InvalidInput))"
    using varint_env.read_write_response [OF env assms(2), of c "[]"] by simp
qed

end
