(* ===== verification/Peerset.thy ===== *)
theory Peerset
  imports Wire "HOL-Library.List_Lexorder"
begin

text \<open>
  \<open>service/src/peerset.rs\<close>: the ordered set of peers of one session, its byte format
  and its indices. \<open>libp2p::PeerId\<close> is a type parameter with its conversions as a
  record of operations; \<open>std::io::BufWriter\<close> is modelled as the standard library
  defines it, because \<open>to_bytes\<close> returns the writer's buffer. The channel to the
  peerset cache is served by the running session, so \<open>recover_from_cache\<close> takes the
  answer of the storage as an argument.
\<close>

section \<open>Peer identities\<close>

record 'p peer_id_ops =
  pid_to_bytes :: "'p \<Rightarrow> bytes"
  pid_from_bytes :: "bytes \<Rightarrow> 'p option"
  pid_to_base58 :: "'p \<Rightarrow> string"
  pid_from_str :: "string \<Rightarrow> 'p option"

definition peer_id_laws :: "'p peer_id_ops \<Rightarrow> bool" where
  "peer_id_laws P \<longleftrightarrow>
     (\<forall>p. pid_from_bytes P (pid_to_bytes P p) = Some p) \<and>
     (\<forall>p. pid_from_str P (pid_to_base58 P p) = Some p) \<and>
     (\<forall>p. length (pid_to_bytes P p) < isize_bound)"

lemma inj_pid_to_bytes: "peer_id_laws P \<Longrightarrow> inj (pid_to_bytes P)"
  unfolding peer_id_laws_def by (metis injI option.inject)

lemma inj_pid_to_base58: "peer_id_laws P \<Longrightarrow> inj (pid_to_base58 P)"
  unfolding peer_id_laws_def by (metis injI option.inject)

section \<open>The buffered writer of the standard library\<close>

text \<open>\<open>BufWriter::new\<close> over a \<open>Vec\<close>: writes collect in a buffer of 8 KiB; a write that
  does not fit first flushes the buffer into the vector, and one as large as the buffer
  goes to the vector directly.\<close>

definition DEFAULT_BUF_SIZE :: nat where
  "DEFAULT_BUF_SIZE = 8 * 1024"

record buf_writer =
  bw_buf :: bytes
  bw_inner :: bytes

definition bw_new :: buf_writer where
  "bw_new = \<lparr>bw_buf = [], bw_inner = []\<rparr>"

definition bw_flush :: "buf_writer \<Rightarrow> buf_writer" where
  "bw_flush w = \<lparr>bw_buf = [], bw_inner = bw_inner w @ bw_buf w\<rparr>"

definition write_all :: "buf_writer \<Rightarrow> bytes \<Rightarrow> buf_writer" where
  "write_all w b =
     (let spare = DEFAULT_BUF_SIZE - length (bw_buf w) in
      if length b < spare then w\<lparr>bw_buf := bw_buf w @ b\<rparr>
      else let w1 = (if spare < length b then bw_flush w else w) in
           if DEFAULT_BUF_SIZE \<le> length b then w1\<lparr>bw_inner := bw_inner w1 @ b\<rparr>
           else w1\<lparr>bw_buf := bw_buf w1 @ b\<rparr>)"

abbreviation write_chunks :: "buf_writer \<Rightarrow> bytes list \<Rightarrow> buf_writer" where
  "write_chunks w bs \<equiv> foldl write_all w bs"

lemma write_all_fits:
  assumes "length (bw_buf w) + length b \<le> DEFAULT_BUF_SIZE" and "length b < DEFAULT_BUF_SIZE"
  shows "write_all w b = w\<lparr>bw_buf := bw_buf w @ b\<rparr>"
  using assms by (auto simp: write_all_def Let_def)

lemma write_all_large:
  assumes "DEFAULT_BUF_SIZE \<le> length b" and "length (bw_buf w) \<le> DEFAULT_BUF_SIZE"
  shows "bw_buf (write_all w b) = []"
  using assms by (cases "bw_buf w") (auto simp: write_all_def bw_flush_def Let_def)

lemma spare_full_iff [simp]:
  "length b \<le> DEFAULT_BUF_SIZE \<Longrightarrow>
   DEFAULT_BUF_SIZE \<le> DEFAULT_BUF_SIZE - length b \<longleftrightarrow> b = []"
  by (cases b) (simp_all add: DEFAULT_BUF_SIZE_def)

text \<open>Nothing is lost inside the writer, and its buffer never exceeds the capacity.\<close>

lemma write_all_stream:
  assumes "length (bw_buf w) \<le> DEFAULT_BUF_SIZE"
  shows "bw_inner (write_all w b) @ bw_buf (write_all w b) = bw_inner w @ bw_buf w @ b"
    and "length (bw_buf (write_all w b)) \<le> DEFAULT_BUF_SIZE"
  using assms by (auto simp: write_all_def bw_flush_def Let_def)

lemma write_chunks_stream:
  assumes "length (bw_buf w) \<le> DEFAULT_BUF_SIZE"
  shows "bw_inner (write_chunks w bs) @ bw_buf (write_chunks w bs) =
      bw_inner w @ bw_buf w @ concat bs"
    and "length (bw_buf (write_chunks w bs)) \<le> DEFAULT_BUF_SIZE"
  using assms by (induction bs arbitrary: w) (simp_all add: write_all_stream)

lemma write_chunks_fit:
  assumes "length (bw_buf w) + length (concat bs) \<le> DEFAULT_BUF_SIZE"
    and "\<And>b. b \<in> set bs \<Longrightarrow> length b < DEFAULT_BUF_SIZE"
  shows "write_chunks w bs = w\<lparr>bw_buf := bw_buf w @ concat bs\<rparr>"
  using assms
proof (induction bs arbitrary: w)
  case Nil
  then show ?case by simp
next
  case (Cons b bs)
  have "write_all w b = w\<lparr>bw_buf := bw_buf w @ b\<rparr>"
    using Cons.prems by (intro write_all_fits) auto
  with Cons show ?case by simp
qed

section \<open>Peersets\<close>

record 'p peerset =
  local_peer_id :: 'p
  peers :: "'p list"
  parties :: "nat list"

definition peerset_new :: "'p peer_id_ops \<Rightarrow> 'p list \<Rightarrow> 'p \<Rightarrow> 'p peerset" where
  "peerset_new P ps me =
     \<lparr>local_peer_id = me, peers = sort_key (pid_to_bytes P) ps, parties = [0..<length ps]\<rparr>"

definition get_peer_id ::
    "varint_ops \<Rightarrow> 'p peer_id_ops \<Rightarrow> bytes \<Rightarrow> (io_kind, 'p \<times> bytes) res" where
  "get_peer_id V P io =
     bindR (read_varint V 64 io) (\<lambda>(len, io1).
     bindR (read_vec len io1) (\<lambda>(buf, io2).
     bindR (ok_or (Fail InvalidInput) (pid_from_bytes P buf)) (\<lambda>p.
       Inr (p, io2))))"

definition peerset_from_bytes ::
    "varint_ops \<Rightarrow> 'p peer_id_ops \<Rightarrow> bytes \<Rightarrow> 'p \<Rightarrow> (io_kind, 'p peerset) res" where
  "peerset_from_bytes V P bs me =
     bindR (get_peer_id V P bs) (\<lambda>(recover_local_peer_id, io1).
     bindR (read_varint V 64 io1) (\<lambda>(nodes_len, io2).
     bindR (read_many (get_peer_id V P) nodes_len io2) (\<lambda>(nodes, io3).
     bindR (read_varint V 64 io3) (\<lambda>(parties_len, io4).
     bindR (read_many (read_varint V 64) parties_len io4) (\<lambda>(ps, io5).
       Inr \<lparr>local_peer_id = me, peers = nodes, parties = ps\<rparr>)))))"

definition put_peer_id :: "varint_ops \<Rightarrow> 'p peer_id_ops \<Rightarrow> 'p \<Rightarrow> bytes list" where
  "put_peer_id V P p = [vi_encode V (length (pid_to_bytes P p)), pid_to_bytes P p]"

text \<open>The sequence of \<open>write_all\<close> calls of \<open>to_bytes\<close>.\<close>

definition peerset_chunks :: "varint_ops \<Rightarrow> 'p peer_id_ops \<Rightarrow> 'p peerset \<Rightarrow> bytes list" where
  "peerset_chunks V P s =
     put_peer_id V P (local_peer_id s) @
     [vi_encode V (length (peers s))] @ concat (map (put_peer_id V P) (peers s)) @
     [vi_encode V (length (parties s))] @ map (vi_encode V) (parties s)"

definition peerset_to_bytes :: "varint_ops \<Rightarrow> 'p peer_id_ops \<Rightarrow> 'p peerset \<Rightarrow> bytes" where
  "peerset_to_bytes V P s = bw_buf (write_chunks bw_new (peerset_chunks V P s))"

definition index_of :: "'p peerset \<Rightarrow> 'p \<Rightarrow> u16 option" where
  "index_of s p = map_option of_nat (position (\<lambda>q. q = p) (peers s))"

definition peerset_size :: "'p peerset \<Rightarrow> nat" where
  "peerset_size s = length (peers s)"

definition remotes_iter :: "'p peerset \<Rightarrow> 'p list" where
  "remotes_iter s = filter (\<lambda>p. p \<noteq> local_peer_id s) (peers s)"

text \<open>\<open>Index<u16>\<close> panics out of range.\<close>

definition peerset_index :: "'p peerset \<Rightarrow> u16 \<Rightarrow> (anyhow, 'p) res" where
  "peerset_index s i =
     (if unat i < length (peers s) then Inr (peers s ! unat i)
      else Inl (Panic ''index out of bounds''))"

text \<open>The loop of \<open>recover_from_cache\<close>: peers that the cache does not know are skipped.\<close>

fun recover_parties :: "'p peerset \<Rightarrow> 'p list \<Rightarrow> (anyhow, nat list) res" where
  "recover_parties cache [] = Inr []"
| "recover_parties cache (p # ps) =
     (case index_of cache p of
        None \<Rightarrow> recover_parties cache ps
      | Some i \<Rightarrow>
          if unat i < length (parties cache)
          then bindR (recover_parties cache ps) (\<lambda>xs. Inr (parties cache ! unat i # xs))
          else Inl (Panic ''index out of bounds''))"

definition recover_from_cache ::
    "'p peer_id_ops \<Rightarrow> (anyhow, 'p peerset) res \<Rightarrow> 'p peerset \<Rightarrow> (anyhow, 'p peerset) res" where
  "recover_from_cache P answer s =
     bindR answer (\<lambda>cache.
     bindR (recover_parties cache (sort_key (pid_to_bytes P) (peers s))) (\<lambda>ps.
       Inr (s\<lparr>parties := ps\<rparr>)))"

text \<open>\<open>save_to_cache\<close>: the session's answer, or nothing when it dropped the channel.\<close>

definition save_to_cache :: "(anyhow + unit) option \<Rightarrow> (anyhow, unit) res" where
  "save_to_cache served =
     (case served of
        None \<Rightarrow> Inl (Panic ''runtime expected to serve protocol'')
      | Some r \<Rightarrow> map_errR Fail r)"

definition wf_peerset :: "'p peerset \<Rightarrow> bool" where
  "wf_peerset s \<longleftrightarrow>
     distinct (peers s) \<and> length (peers s) < 2 ^ 16 \<and> local_peer_id s \<in> set (peers s) \<and>
     length (parties s) = length (peers s)"

section \<open>Reading a peerset back\<close>

text \<open>The complete encoding, of which \<open>to_bytes\<close> returns the buffered part.\<close>

definition peerset_bytes :: "varint_ops \<Rightarrow> 'p peer_id_ops \<Rightarrow> 'p peerset \<Rightarrow> bytes" where
  "peerset_bytes V P s = concat (peerset_chunks V P s)"

text \<open>What the type system guarantees of the lengths and indices of a \<open>Peerset\<close>.\<close>

definition usize_peerset :: "'p peerset \<Rightarrow> bool" where
  "usize_peerset s \<longleftrightarrow>
     length (peers s) < isize_bound \<and> length (parties s) < isize_bound \<and>
     list_all (\<lambda>i. i < usize_bound) (parties s)"

lemma two_power_bounds: "n < isize_bound \<Longrightarrow> n < 18446744073709551616"
  by simp

locale peerset_env = varint_env +
  fixes P :: "'p peer_id_ops"
  assumes peer_laws: "peer_id_laws P"
begin

lemma pid_bytes_simps [simp]:
  "pid_from_bytes P (pid_to_bytes P p) = Some p"
  "length (pid_to_bytes P p) < isize_bound"
  using peer_laws by (simp_all add: peer_id_laws_def)

lemma get_put_peer_id:
  "get_peer_id V P (concat (put_peer_id V P p) @ r) = Inr (p, r)"
  using pid_bytes_simps(2) [of p]
  by (simp add: get_peer_id_def put_peer_id_def codec_simps del: bindR_eq_Inr pid_bytes_simps(2))

end

sublocale peerset_env \<subseteq> peer: byte_codec "\<lambda>p. concat (put_peer_id V P p)" "get_peer_id V P" "\<lambda>_. True"
  by unfold_locales (rule get_put_peer_id)

sublocale varint_env \<subseteq> usize: byte_codec "vi_encode V" "read_varint V 64" "\<lambda>n. n < usize_bound"
  by unfold_locales simp

context peerset_env
begin

lemma concat_put_peers:
  "concat (concat (map (put_peer_id V P) ps)) = concat (map (\<lambda>p. concat (put_peer_id V P p)) ps)"
  by (induction ps) simp_all

lemma from_bytes_bytes:
  assumes "usize_peerset s"
  shows "peerset_from_bytes V P (peerset_bytes V P s @ r) me = Inr (s\<lparr>local_peer_id := me\<rparr>)"
proof -
  have n: "length (peers s) < usize_bound" "length (parties s) < usize_bound"
    and i: "\<And>i. i \<in> set (parties s) \<Longrightarrow> i < usize_bound"
    using assms by (auto simp: usize_peerset_def list_all_iff)
  let ?tail = "vi_encode V (length (parties s)) @ concat (map (vi_encode V) (parties s)) @ r"
  have "peerset_bytes V P s @ r = concat (put_peer_id V P (local_peer_id s)) @
      vi_encode V (length (peers s)) @ concat (map (\<lambda>p. concat (put_peer_id V P p)) (peers s)) @ ?tail"
    by (simp add: peerset_bytes_def peerset_chunks_def concat_put_peers)
  moreover have "read_many (get_peer_id V P) (length (peers s))
      (concat (map (\<lambda>p. concat (put_peer_id V P p)) (peers s)) @ ?tail) = Inr (peers s, ?tail)"
    by (rule peer.get_put_list) simp
  moreover have "read_many (read_varint V 64) (length (parties s))
      (concat (map (vi_encode V) (parties s)) @ r) = Inr (parties s, r)"
    by (rule usize.get_put_list) (rule i)
  ultimately show ?thesis
    using n by (simp add: peerset_from_bytes_def get_put_peer_id usize.get_put del: bindR_eq_Inr)
qed

lemma chunk_below_capacity:
  assumes "usize_peerset s" and "length (peerset_bytes V P s) \<le> DEFAULT_BUF_SIZE"
    and "b \<in> set (peerset_chunks V P s)"
  shows "length b < DEFAULT_BUF_SIZE"
proof -
  let ?e0 = "vi_encode V (length (pid_to_bytes P (local_peer_id s)))"
  let ?e1 = "vi_encode V (length (peers s))"
  obtain rest where chunks: "peerset_chunks V P s = ?e0 # pid_to_bytes P (local_peer_id s) # ?e1 # rest"
    by (simp add: peerset_chunks_def put_peer_id_def)
  have "length (peers s) < usize_bound" using assms(1) by (simp add: usize_peerset_def)
  moreover have "length (pid_to_bytes P (local_peer_id s)) < usize_bound"
    using pid_bytes_simps(2) [of "local_peer_id s"] by simp
  ultimately have "?e0 \<noteq> []" "?e1 \<noteq> []" by (simp_all add: encode_nonempty)
  then have "length b < length (peerset_bytes V P s)"
    using assms(3) unfolding chunks peerset_bytes_def by (rule chunk_less_concat)
  with assms(2) show ?thesis by simp
qed

lemma to_bytes_complete_iff:
  assumes "usize_peerset s"
  shows "peerset_to_bytes V P s = peerset_bytes V P s \<longleftrightarrow>
   length (peerset_bytes V P s) \<le> DEFAULT_BUF_SIZE"
proof
  assume "peerset_to_bytes V P s = peerset_bytes V P s"
  moreover have "length (peerset_to_bytes V P s) \<le> DEFAULT_BUF_SIZE"
    unfolding peerset_to_bytes_def by (rule write_chunks_stream(2)) (simp add: bw_new_def)
  ultimately show "length (peerset_bytes V P s) \<le> DEFAULT_BUF_SIZE" by simp
next
  assume small: "length (peerset_bytes V P s) \<le> DEFAULT_BUF_SIZE"
  have "write_chunks bw_new (peerset_chunks V P s) =
      bw_new\<lparr>bw_buf := bw_buf bw_new @ concat (peerset_chunks V P s)\<rparr>"
    using small chunk_below_capacity [OF assms small]
    by (intro write_chunks_fit) (simp_all add: bw_new_def peerset_bytes_def)
  then show "peerset_to_bytes V P s = peerset_bytes V P s"
    by (simp add: peerset_to_bytes_def peerset_bytes_def bw_new_def)
qed

end

lemma peerset_env_intro: "varint_laws V \<Longrightarrow> peer_id_laws P \<Longrightarrow> peerset_env V P"
  by (simp add: peerset_env_def varint_env_def peerset_env_axioms_def)

section \<open>Indices\<close>

lemma unat_of_nat_u16 [simp]: "i < 65536 \<Longrightarrow> unat (of_nat i :: u16) = i"
  by (simp add: unat_of_nat)

lemma index_of_Some_iff:
  assumes "distinct (peers s)" and "length (peers s) < 2 ^ 16"
  shows "index_of s p = Some i \<longleftrightarrow> unat i < length (peers s) \<and> peers s ! unat i = p"
proof
  assume "index_of s p = Some i"
  then obtain k where "position (\<lambda>q. q = p) (peers s) = Some k" and i: "i = of_nat k"
    by (auto simp: index_of_def)
  then have k: "k < length (peers s)" "peers s ! k = p"
    using position_Some by fastforce+
  with assms(2) i show "unat i < length (peers s) \<and> peers s ! unat i = p" by simp
next
  assume "unat i < length (peers s) \<and> peers s ! unat i = p"
  with assms(1) have "position (\<lambda>q. q = p) (peers s) = Some (unat i)"
    by (simp add: position_eq_Some_iff)
  then show "index_of s p = Some i" by (simp add: index_of_def)
qed

lemma index_of_None_iff: "index_of s p = None \<longleftrightarrow> p \<notin> set (peers s)"
  by (auto simp: index_of_def position_None_iff)

lemma peerset_new_wf:
  assumes "peer_id_laws P" and "distinct ps" and "length ps < 2 ^ 16" and "me \<in> set ps"
  shows "wf_peerset (peerset_new P ps me)"
  using assms by (simp add: wf_peerset_def peerset_new_def)

lemma recover_parties_known:
  assumes "wf_peerset cache" and "set ps \<subseteq> set (peers cache)"
  shows "\<exists>f. recover_parties cache ps = Inr (map f ps) \<and>
    (\<forall>p \<in> set ps. \<exists>i. index_of cache p = Some i \<and> f p = parties cache ! unat i)"
proof -
  let ?f = "\<lambda>p. parties cache ! unat (the (index_of cache p))"
  have known: "\<exists>i. index_of cache p = Some i \<and> unat i < length (parties cache)"
    if "p \<in> set ps" for p
  proof -
    from that assms(2) obtain i where i: "index_of cache p = Some i"
      using index_of_None_iff [of cache p] by auto
    with assms(1) have "unat i < length (peers cache)"
      using index_of_Some_iff [of cache p i] by (simp add: wf_peerset_def)
    with i assms(1) show ?thesis by (simp add: wf_peerset_def)
  qed
  then have "recover_parties cache ps = Inr (map ?f ps)"
    by (induction ps) fastforce+
  moreover have "\<forall>p \<in> set ps. \<exists>i. index_of cache p = Some i \<and> ?f p = parties cache ! unat i"
    using known by fastforce
  ultimately show ?thesis by blast
qed

lemma recover_parties_self:
  assumes "wf_peerset c"
  shows "recover_parties c (peers c) = Inr (parties c)"
proof -
  obtain f where f: "recover_parties c (peers c) = Inr (map f (peers c))"
    "\<forall>p \<in> set (peers c). \<exists>i. index_of c p = Some i \<and> f p = parties c ! unat i"
    using recover_parties_known [OF assms subset_refl] by blast
  have "map f (peers c) = parties c"
  proof (rule nth_equalityI)
    show "length (map f (peers c)) = length (parties c)" using assms by (simp add: wf_peerset_def)
  next
    fix k assume "k < length (map f (peers c))"
    then have k: "k < length (peers c)" by simp
    with f(2) obtain i where i: "index_of c (peers c ! k) = Some i" "f (peers c ! k) = parties c ! unat i"
      using nth_mem by blast
    with assms have "unat i < length (peers c)" "peers c ! unat i = peers c ! k"
      using index_of_Some_iff [of c "peers c ! k" i] by (simp_all add: wf_peerset_def)
    with assms k have "unat i = k" by (simp add: wf_peerset_def nth_eq_iff_index_eq)
    with i k show "map f (peers c) ! k = parties c ! k" by simp
  qed
  with f show ?thesis by simp
qed

section \<open>Properties\<close>

text \<open>
  C26: the order of a session's peers, and with it every party index, does not depend on
  the order in which the proposer's hash set yields them or on which party builds the
  peerset: any two parties that start from the same members get the same list, sorted by
  the byte form of the identities.
\<close>

theorem peerset_order_canonical:
  assumes "peer_id_laws P" and "mset xs = mset ys"
  shows "peers (peerset_new P xs a) = peers (peerset_new P ys b) \<and>
    sorted (map (pid_to_bytes P) (peers (peerset_new P xs a))) \<and>
    mset (peers (peerset_new P xs a)) = mset xs"
proof -
  have "inj_on (pid_to_bytes P) (set xs)"
    using inj_pid_to_bytes [OF assms(1)] by (rule inj_on_subset) simp
  then have "sort_key (pid_to_bytes P) xs = sort_key (pid_to_bytes P) ys"
    using assms(2) by (intro sort_key_inj_key_eq) simp_all
  with assms(2) show ?thesis by (simp add: peerset_new_def)
qed

text \<open>A concrete identity type for evaluation: one byte, printed as one character.\<close>

definition byte_peer_ops :: "byte peer_id_ops" where
  "byte_peer_ops =
     \<lparr>pid_to_bytes = (\<lambda>p. [p]),
      pid_from_bytes = (\<lambda>b. case b of [p] \<Rightarrow> Some p | _ \<Rightarrow> None),
      pid_to_base58 = (\<lambda>p. [char_of (unat p)]),
      pid_from_str = (\<lambda>s. case s of [c] \<Rightarrow> Some (of_nat (of_char c)) | _ \<Rightarrow> None)\<rparr>"

lemma byte_peer_laws: "peer_id_laws byte_peer_ops"
  using unsigned_less [where 'a = nat and 'b = 8]
  by (simp add: peer_id_laws_def byte_peer_ops_def take_bit_eq_mod)

interpretation byte_peers: peerset_env leb128 byte_peer_ops
  by unfold_locales (rule byte_peer_laws)

theorem peerset_order_canonical_witness:
  "peers (peerset_new byte_peer_ops [3, 1, 2] 1) = peers (peerset_new byte_peer_ops [2, 3, 1] 2)"
proof -
  have "mset [3, 1, 2 :: byte] = mset [2, 3, 1]" by simp
  from peerset_order_canonical [OF byte_peer_laws this] show ?thesis by blast
qed

text \<open>
  Party indices and peers are inverse to each other: \<open>index_of\<close> gives the index at
  which indexing returns that peer, and only that one; a peer outside the set has no
  index, and an index outside the set panics.
\<close>

lemma index_of_inverse:
  assumes "wf_peerset s"
  shows "(index_of s p = Some i \<longleftrightarrow> peerset_index s i = Inr p) \<and>
    (index_of s p = None \<longleftrightarrow> p \<notin> set (peers s))"
  using assms
  by (auto simp: wf_peerset_def index_of_Some_iff index_of_None_iff peerset_index_def)

definition sample_peerset :: "byte peerset" where
  "sample_peerset = peerset_new byte_peer_ops [30, 10, 20] 20"

lemma sample_peerset_wf: "wf_peerset sample_peerset"
  by (simp add: sample_peerset_def peerset_new_wf byte_peer_laws)

lemma sample_peerset_eq:
  "sample_peerset = \<lparr>local_peer_id = 20, peers = [10, 20, 30], parties = [0, 1, 2]\<rparr>"
  by (simp add: sample_peerset_def peerset_new_def byte_peer_ops_def upt_rec)

text \<open>
  A broadcast goes to every other member of the session exactly once and never to
  the local peer.
\<close>

lemma remotes_iter_others:
  assumes "wf_peerset s"
  shows "set (remotes_iter s) = set (peers s) - {local_peer_id s} \<and>
    distinct (remotes_iter s) \<and> length (remotes_iter s) = peerset_size s - 1"
  using assms
  by (auto simp: wf_peerset_def remotes_iter_def peerset_size_def length_filter_neq)

text \<open>
  \<open>to_bytes\<close> returns the complete encoding exactly when it fits the writer's buffer of
  8192 bytes, and then \<open>from_bytes\<close> recovers the peers and the parties; the local
  identity is the reader's own. A longer encoding is cut: part of it stays in the vector
  behind the writer.
\<close>

lemma peerset_roundtrip:
  assumes "varint_laws V" and "peer_id_laws P" and "usize_peerset s"
  shows "(peerset_to_bytes V P s = peerset_bytes V P s \<longleftrightarrow> length (peerset_bytes V P s) \<le> 8192) \<and>
    (length (peerset_bytes V P s) \<le> 8192 \<longrightarrow>
      peerset_from_bytes V P (peerset_to_bytes V P s) me = Inr (s\<lparr>local_peer_id := me\<rparr>))"
proof -
  note env = peerset_env_intro [OF assms(1,2)]
  have iff: "peerset_to_bytes V P s = peerset_bytes V P s \<longleftrightarrow> length (peerset_bytes V P s) \<le> 8192"
    using peerset_env.to_bytes_complete_iff [OF env assms(3)] by (simp add: DEFAULT_BUF_SIZE_def)
  moreover have "peerset_from_bytes V P (peerset_bytes V P s) me = Inr (s\<lparr>local_peer_id := me\<rparr>)"
    using peerset_env.from_bytes_bytes [OF env assms(3), of "[]" me] by simp
  ultimately show ?thesis by metis
qed

text \<open>
  Recovering from a well-formed cache that knows every member gives each peer, in
  the canonical order, the party number the cache recorded for it, and does not panic.
\<close>

lemma recover_from_cache_known:
  assumes "wf_peerset cache" and "set (peers s) \<subseteq> set (peers cache)"
  shows "\<exists>f. recover_from_cache P (Inr cache) s =
      Inr (s\<lparr>parties := map f (sort_key (pid_to_bytes P) (peers s))\<rparr>) \<and>
    (\<forall>p \<in> set (peers s). \<exists>i. index_of cache p = Some i \<and> f p = parties cache ! unat i)"
proof -
  have "set (sort_key (pid_to_bytes P) (peers s)) \<subseteq> set (peers cache)" using assms(2) by simp
  from recover_parties_known [OF assms(1) this] obtain f where
    f: "recover_parties cache (sort_key (pid_to_bytes P) (peers s)) =
      Inr (map f (sort_key (pid_to_bytes P) (peers s)))"
    "\<forall>p \<in> set (peers s). \<exists>i. index_of cache p = Some i \<and> f p = parties cache ! unat i"
    by auto
  then have "recover_from_cache P (Inr cache) s =
      Inr (s\<lparr>parties := map f (sort_key (pid_to_bytes P) (peers s))\<rparr>)"
    by (simp add: recover_from_cache_def)
  with f(2) show ?thesis by blast
qed

end
