(* ===== verification/Start_Msg.thy ===== *)
theory Start_Msg
  imports Peerset
begin

text \<open>
  The start message of \<open>service/src/negotiation.rs\<close>: the proposer's peerset followed by
  the request body, each with its length. It is written through the same kind of
  buffered writer as a peerset, whose buffer is what is sent.
\<close>

record 'p start_msg =
  sm_peerset :: "'p peerset"
  sm_body :: bytes

definition start_msg_from_bytes ::
    "varint_ops \<Rightarrow> 'p peer_id_ops \<Rightarrow> bytes \<Rightarrow> 'p \<Rightarrow> (io_kind, 'p start_msg) res" where
  "start_msg_from_bytes V P b me =
     bindR (read_varint V 64 b) (\<lambda>(peerset_len, io1).
     bindR (read_vec peerset_len io1) (\<lambda>(peerset_buffer, io2).
     bindR (read_varint V 64 io2) (\<lambda>(len, io3).
     bindR (read_vec len io3) (\<lambda>(body, io4).
     bindR (peerset_from_bytes V P peerset_buffer me) (\<lambda>ps.
       Inr \<lparr>sm_peerset = ps, sm_body = body\<rparr>)))))"

definition start_msg_chunks :: "varint_ops \<Rightarrow> 'p peer_id_ops \<Rightarrow> 'p start_msg \<Rightarrow> bytes list" where
  "start_msg_chunks V P m =
     (let peerset_bytes = peerset_to_bytes V P (sm_peerset m) in
      [vi_encode V (length peerset_bytes), peerset_bytes,
       vi_encode V (length (sm_body m)), sm_body m])"

definition start_msg_to_bytes :: "varint_ops \<Rightarrow> 'p peer_id_ops \<Rightarrow> 'p start_msg \<Rightarrow> bytes" where
  "start_msg_to_bytes V P m = bw_buf (write_chunks bw_new (start_msg_chunks V P m))"

text \<open>The complete encoding of the message.\<close>

definition start_msg_bytes :: "varint_ops \<Rightarrow> 'p peer_id_ops \<Rightarrow> 'p start_msg \<Rightarrow> bytes" where
  "start_msg_bytes V P m = concat (start_msg_chunks V P m)"

lemma length_peerset_to_bytes: "length (peerset_to_bytes V P s) \<le> 8192"
  using write_chunks_stream(2) [of bw_new "peerset_chunks V P s"]
  by (simp add: peerset_to_bytes_def bw_new_def DEFAULT_BUF_SIZE_def)

context peerset_env
begin

lemma start_msg_complete:
  assumes "length (start_msg_bytes V P m) \<le> DEFAULT_BUF_SIZE"
    and "length (sm_body m) < isize_bound"
  shows "start_msg_to_bytes V P m = start_msg_bytes V P m"
proof -
  let ?pb = "peerset_to_bytes V P (sm_peerset m)"
  have "length ?pb < usize_bound" using length_peerset_to_bytes [of V P "sm_peerset m"] by simp
  moreover have "length (sm_body m) < usize_bound" using assms(2) by simp
  ultimately have ne: "vi_encode V (length ?pb) \<noteq> []" "vi_encode V (length (sm_body m)) \<noteq> []"
    by (simp_all add: encode_nonempty)
  have chunks: "start_msg_chunks V P m = vi_encode V (length ?pb) # ?pb #
      vi_encode V (length (sm_body m)) # [sm_body m]"
    by (simp add: start_msg_chunks_def Let_def)
  have "length b < DEFAULT_BUF_SIZE" if "b \<in> set (start_msg_chunks V P m)" for b
    using chunk_less_concat [OF ne that [unfolded chunks]] assms(1)
    by (simp add: start_msg_bytes_def chunks)
  then have "write_chunks bw_new (start_msg_chunks V P m) =
      bw_new\<lparr>bw_buf := bw_buf bw_new @ concat (start_msg_chunks V P m)\<rparr>"
    using assms(1) by (intro write_chunks_fit) (simp_all add: bw_new_def start_msg_bytes_def)
  then show ?thesis by (simp add: start_msg_to_bytes_def start_msg_bytes_def bw_new_def)
qed

lemma start_msg_read_complete:
  assumes "peerset_to_bytes V P (sm_peerset m) = peerset_bytes V P (sm_peerset m)"
    and "usize_peerset (sm_peerset m)" and "length (sm_body m) < isize_bound"
  shows "start_msg_from_bytes V P (start_msg_bytes V P m) me =
    Inr (m\<lparr>sm_peerset := (sm_peerset m)\<lparr>local_peer_id := me\<rparr>\<rparr>)"
proof -
  let ?pb = "peerset_to_bytes V P (sm_peerset m)"
  have pb: "length ?pb < isize_bound" using length_peerset_to_bytes [of V P "sm_peerset m"] by simp
  have ps: "peerset_from_bytes V P ?pb me = Inr ((sm_peerset m)\<lparr>local_peer_id := me\<rparr>)"
    using from_bytes_bytes [OF assms(2), of "[]"] assms(1) by simp
  have "read_vec (length (sm_body m)) (sm_body m @ []) = Inr (sm_body m, [])"
    using assms(3) by (intro read_vec_append) simp_all
  with pb assms(3) ps show ?thesis
    by (simp add: start_msg_from_bytes_def start_msg_bytes_def start_msg_chunks_def Let_def
        usize.get_put read_vec_append del: bindR_eq_Inr)
qed

end

text \<open>Messages whose encoding and whose peerset fit the writers' buffers.\<close>

definition sendable :: "varint_ops \<Rightarrow> 'p peer_id_ops \<Rightarrow> 'p start_msg \<Rightarrow> bool" where
  "sendable V P m \<longleftrightarrow>
     usize_peerset (sm_peerset m) \<and> length (sm_body m) < isize_bound \<and>
     length (peerset_bytes V P (sm_peerset m)) \<le> 8192 \<and> length (start_msg_bytes V P m) \<le> 8192"

lemma start_msg_decodes:
  assumes "varint_laws V" and "peer_id_laws P" and "sendable V P m"
  shows "start_msg_from_bytes V P (start_msg_to_bytes V P m) me =
    Inr (m\<lparr>sm_peerset := (sm_peerset m)\<lparr>local_peer_id := me\<rparr>\<rparr>)"
proof -
  note env = peerset_env_intro [OF assms(1,2)]
  have u: "usize_peerset (sm_peerset m)" "length (sm_body m) < isize_bound"
    "length (peerset_bytes V P (sm_peerset m)) \<le> 8192" "length (start_msg_bytes V P m) \<le> 8192"
    using assms(3) by (simp_all add: sendable_def)
  have "peerset_to_bytes V P (sm_peerset m) = peerset_bytes V P (sm_peerset m)"
    using peerset_env.to_bytes_complete_iff [OF env u(1)] u(3) by (simp add: DEFAULT_BUF_SIZE_def)
  moreover have "start_msg_to_bytes V P m = start_msg_bytes V P m"
    using peerset_env.start_msg_complete [OF env _ u(2)] u(4) by (simp add: DEFAULT_BUF_SIZE_def)
  ultimately show ?thesis
    using peerset_env.start_msg_read_complete [OF env _ u(1,2)] by simp
qed

section \<open>Properties\<close>

text \<open>
  A joiner that receives the start message of a proposer decodes the proposer's
  peers, parties and request body, provided the encoding fits the writer's buffer.
\<close>

lemma start_msg_roundtrip:
  assumes "varint_laws V" and "peer_id_laws P" and "usize_peerset (sm_peerset m)"
    and "length (sm_body m) < isize_bound"
    and "length (peerset_bytes V P (sm_peerset m)) \<le> 8192"
    and "length (start_msg_bytes V P m) \<le> 8192"
  shows "start_msg_from_bytes V P (start_msg_to_bytes V P m) me =
    Inr (m\<lparr>sm_peerset := (sm_peerset m)\<lparr>local_peer_id := me\<rparr>\<rparr>)"
  using start_msg_decodes [OF assms(1,2)] assms(3-6) by (simp add: sendable_def)

definition sample_start :: "byte start_msg" where
  "sample_start = \<lparr>sm_peerset = sample_peerset, sm_body = [1, 2, 3]\<rparr>"

lemma sample_peerset_to_bytes:
  "peerset_bytes leb128 byte_peer_ops sample_peerset = [1, 20, 3, 1, 10, 1, 20, 1, 30, 3, 0, 1, 2]"
  "peerset_to_bytes leb128 byte_peer_ops sample_peerset = [1, 20, 3, 1, 10, 1, 20, 1, 30, 3, 0, 1, 2]"
proof -
  show *: "peerset_bytes leb128 byte_peer_ops sample_peerset =
      [1, 20, 3, 1, 10, 1, 20, 1, 30, 3, 0, 1, 2]"
    by (simp add: peerset_bytes_def peerset_chunks_def put_peer_id_def sample_peerset_eq
        byte_peer_ops_def leb128_encode_small)
  have "usize_peerset sample_peerset" by (simp add: usize_peerset_def sample_peerset_eq)
  from byte_peers.to_bytes_complete_iff [OF this]
  show "peerset_to_bytes leb128 byte_peer_ops sample_peerset =
      [1, 20, 3, 1, 10, 1, 20, 1, 30, 3, 0, 1, 2]"
    by (simp add: * DEFAULT_BUF_SIZE_def)
qed

text \<open>
  C29: a request body as long as the writer's buffer makes the start message empty: every
  byte was handed to the vector behind the writer, the returned buffer holds nothing, and
  no joiner can decode it. A signing request for such a message can therefore never start.
\<close>

theorem start_msg_large_body_lost:
  assumes "varint_laws V" and "8192 \<le> length (sm_body m)"
  shows "start_msg_to_bytes V P m = [] \<and>
    start_msg_from_bytes V P (start_msg_to_bytes V P m) me = Inl (Fail InvalidInput)"
proof -
  let ?pre = "[vi_encode V (length (peerset_to_bytes V P (sm_peerset m))),
     peerset_to_bytes V P (sm_peerset m), vi_encode V (length (sm_body m))]"
  have "start_msg_to_bytes V P m = bw_buf (write_all (write_chunks bw_new ?pre) (sm_body m))"
    by (simp add: start_msg_to_bytes_def start_msg_chunks_def Let_def)
  moreover have "length (bw_buf (write_chunks bw_new ?pre)) \<le> DEFAULT_BUF_SIZE"
    by (rule write_chunks_stream(2)) (simp add: bw_new_def)
  ultimately have empty: "start_msg_to_bytes V P m = []"
    using assms(2) write_all_large [of "sm_body m"] by (simp add: DEFAULT_BUF_SIZE_def)
  have "vi_read V 64 [] = Inl (VarIo UnexpectedEof)"
    using varint_env.read_empty [of V 64] assms(1) by (simp add: varint_env_def)
  with empty show ?thesis by (simp add: start_msg_from_bytes_def read_varint_def)
qed

theorem start_msg_large_body_lost_witness:
  "start_msg_to_bytes leb128 byte_peer_ops
     \<lparr>sm_peerset = sample_peerset, sm_body = replicate 8192 0\<rparr> = []"
  using start_msg_large_body_lost [OF leb128_laws,
      of "\<lparr>sm_peerset = sample_peerset, sm_body = replicate 8192 0\<rparr>" byte_peer_ops 10] by simp

end
