(* ===== verification/Storage.thy ===== *)
theory Storage
  imports Peerset
begin

text \<open>
  Rooms (\<open>network/src/room.rs\<close>) and the peerset caches of \<open>service/src/storage.rs\<close>.
  The trait \<open>PeersetStorage\<close> is a locale; the in-memory and the on-disk storage are its
  two interpretations. The disk is a map from paths to contents; whether the operating
  system lets a write through is an input of the operation.
\<close>

section \<open>Rooms\<close>

text \<open>The hexadecimal form of a BLAKE3 hash, 64 characters, is the identity of a room; the
  hash function is a parameter.\<close>

type_synonym room_id = string

definition room_id_from :: "(string \<Rightarrow> string) \<Rightarrow> string \<Rightarrow> room_id" where
  "room_id_from blake3_hex name = blake3_hex name"

definition room_protocol_name :: "room_id \<Rightarrow> string" where
  "room_protocol_name r = ''/room/'' @ r"

definition relative_name :: "string \<Rightarrow> bool" where
  "relative_name s \<longleftrightarrow> s = [] \<or> hd s \<noteq> CHR ''/''"

section \<open>The storage interface\<close>

locale peerset_storage =
  fixes read :: "'s \<Rightarrow> room_id \<Rightarrow> (anyhow, 'p peerset) res"
    and "write" :: "'s \<Rightarrow> room_id \<Rightarrow> 'p peerset \<Rightarrow> (anyhow, 's) res"
    and storable :: "'p peerset \<Rightarrow> bool"
    and view :: "'p peerset \<Rightarrow> 'p peerset"
    and valid_room :: "room_id \<Rightarrow> bool"
  assumes read_written:
      "write s r ps = Inr s' \<Longrightarrow> storable ps \<Longrightarrow> read s' r = Inr (view ps)"
    and read_other:
      "write s r ps = Inr s' \<Longrightarrow> valid_room r \<Longrightarrow> valid_room r' \<Longrightarrow> r' \<noteq> r \<Longrightarrow> read s' r' = read s r'"
    and view_members: "peers (view ps) = peers ps" "parties (view ps) = parties ps"
begin

text \<open>The last peerset saved for a room is the one read, whatever was saved for other rooms
  in between.\<close>

fun write_seq :: "'s \<Rightarrow> (room_id \<times> 'p peerset) list \<Rightarrow> (anyhow, 's) res" where
  "write_seq s [] = Inr s"
| "write_seq s ((r, ps) # ws) = bindR (write s r ps) (\<lambda>s'. write_seq s' ws)"

lemma read_after_others:
  assumes "write_seq s ws = Inr s'" and "valid_room r" and "\<forall>w \<in> set ws. valid_room (fst w) \<and> fst w \<noteq> r"
  shows "read s' r = read s r"
  using assms
proof (induction ws arbitrary: s)
  case Nil
  then show ?case by simp
next
  case (Cons w ws)
  obtain q ps where w: "w = (q, ps)" by (cases w)
  with Cons.prems obtain t where t: "write s q ps = Inr t" "write_seq t ws = Inr s'" by auto
  have "read s' r = read t r" using Cons.IH [OF t(2)] Cons.prems by simp
  also have "\<dots> = read s r" using read_other [OF t(1)] Cons.prems w by auto
  finally show ?case .
qed

lemma read_last_write:
  assumes "write s r ps = Inr t" and "storable ps" and "write_seq t ws = Inr s'"
    and "valid_room r" and "\<forall>w \<in> set ws. valid_room (fst w) \<and> fst w \<noteq> r"
  shows "read s' r = Inr (view ps)"
  using read_after_others [OF assms(3-5)] read_written [OF assms(1,2)] by simp

lemma recover_parties_view: "recover_parties (view ps) qs = recover_parties ps qs"
  by (induction qs) (simp_all add: index_of_def view_members split: option.splits)

lemma recover_after_save:
  assumes "write s r ps = Inr s'" and "storable ps" and "wf_peerset ps"
    and "sorted (map (pid_to_bytes P) (peers ps))" and "peers ps' = peers ps"
  shows "recover_from_cache P (read s' r) ps' = Inr (ps'\<lparr>parties := parties ps\<rparr>)"
proof -
  have rd: "read s' r = Inr (view ps)" using read_written [OF assms(1,2)] .
  have "recover_parties ps (peers ps) = Inr (parties ps)" using assms(3) by (rule recover_parties_self)
  then have "recover_parties (view ps) (peers ps) = Inr (parties ps)"
    by (simp add: recover_parties_view)
  moreover have "sort_key (pid_to_bytes P) (peers ps) = peers ps"
    using assms(4) by (rule sort_key_id_if_sorted)
  ultimately show ?thesis using rd assms(5) by (simp add: recover_from_cache_def)
qed

end

section \<open>The in-memory storage\<close>

record 'p ephemeral =
  storage :: "room_id \<rightharpoonup> 'p peerset"

definition ephemeral_read :: "'p ephemeral \<Rightarrow> room_id \<Rightarrow> (anyhow, 'p peerset) res" where
  "ephemeral_read s r =
     (case storage s r of Some p \<Rightarrow> Inr p | None \<Rightarrow> Inl (Fail ''no cache exists for room''))"

definition ephemeral_write ::
    "'p ephemeral \<Rightarrow> room_id \<Rightarrow> 'p peerset \<Rightarrow> (anyhow, 'p ephemeral) res" where
  "ephemeral_write s r ps = Inr (s\<lparr>storage := (storage s)(r \<mapsto> ps)\<rparr>)"

interpretation mem: peerset_storage ephemeral_read ephemeral_write "\<lambda>_. True" "\<lambda>ps. ps" "\<lambda>_. True"
  by unfold_locales (auto simp: ephemeral_read_def ephemeral_write_def)

section \<open>The on-disk storage\<close>

record 'p local_storage =
  ls_local_peer_id :: 'p
  ls_path :: string

text \<open>Files are found by the text of their path; the room ids are hexadecimal, so no two texts
  name the same file.\<close>

type_synonym disk = "string \<rightharpoonup> bytes"

definition local_read ::
    "varint_ops \<Rightarrow> 'p peer_id_ops \<Rightarrow> 'p local_storage \<Rightarrow> disk \<Rightarrow> room_id \<Rightarrow> (anyhow, 'p peerset) res" where
  "local_read V P ls d r =
     (case d (path_join (ls_path ls) r) of
        None \<Rightarrow> Inl (Fail ''error reading peerset cache file'')
      | Some buf \<Rightarrow>
          map_errR (\<lambda>e. case e of Panic s \<Rightarrow> Panic s | Fail _ \<Rightarrow> Fail ''error recover peerset'')
            (peerset_from_bytes V P buf (ls_local_peer_id ls)))"

text \<open>\<open>mkdir\<close> and \<open>wr\<close> are the outcomes of \<open>create_dir_all\<close>, which is unwrapped, and of
  \<open>fs::write\<close>.\<close>

definition local_write ::
    "varint_ops \<Rightarrow> 'p peer_id_ops \<Rightarrow> io_kind option \<Rightarrow> io_kind option \<Rightarrow> 'p local_storage \<Rightarrow>
     disk \<Rightarrow> room_id \<Rightarrow> 'p peerset \<Rightarrow> (anyhow, disk) res" where
  "local_write V P mkdir wr ls d r ps =
     (case mkdir of
        Some _ \<Rightarrow> Inl (Panic ''called unwrap on an Err value'')
      | None \<Rightarrow>
          (case wr of
             Some _ \<Rightarrow> Inl (Fail ''error writing to file'')
           | None \<Rightarrow> Inr (d(path_join (ls_path ls) r \<mapsto> peerset_to_bytes V P ps))))"

text \<open>A peerset survives the file when its encoding fits the writer's buffer.\<close>

definition storable_peerset :: "varint_ops \<Rightarrow> 'p peer_id_ops \<Rightarrow> 'p peerset \<Rightarrow> bool" where
  "storable_peerset V P ps \<longleftrightarrow> usize_peerset ps \<and> length (peerset_bytes V P ps) \<le> 8192"

lemma local_read_written:
  assumes "varint_laws V" and "peer_id_laws P" and "storable_peerset V P ps"
    and "local_write V P mkdir wr ls d r ps = Inr d'"
  shows "local_read V P ls d' r = Inr (ps\<lparr>local_peer_id := ls_local_peer_id ls\<rparr>)"
proof -
  note env = peerset_env_intro [OF assms(1,2)]
  from assms(3) have u: "usize_peerset ps" and n: "length (peerset_bytes V P ps) \<le> DEFAULT_BUF_SIZE"
    by (simp_all add: storable_peerset_def DEFAULT_BUF_SIZE_def)
  from assms(4) have "d' (path_join (ls_path ls) r) = Some (peerset_to_bytes V P ps)"
    by (auto simp: local_write_def split: option.splits)
  moreover have "peerset_to_bytes V P ps = peerset_bytes V P ps"
    using peerset_env.to_bytes_complete_iff [OF env u] n by simp
  ultimately show ?thesis
    using peerset_env.from_bytes_bytes [OF env u, of "[]" "ls_local_peer_id ls"]
    by (simp add: local_read_def)
qed

lemma local_read_other:
  assumes "local_write V P mkdir wr ls d r ps = Inr d'"
    and "relative_name r" and "relative_name r'" and "r' \<noteq> r"
  shows "local_read V P ls d' r' = local_read V P ls d r'"
proof -
  have "path_join (ls_path ls) r' \<noteq> path_join (ls_path ls) r"
    using path_join_inj [of "ls_path ls" r' r] assms(2-4) by (auto simp: relative_name_def)
  with assms(1) show ?thesis
    by (auto simp: local_write_def local_read_def split: option.splits)
qed

locale local_cache = peerset_env V P
  for V :: varint_ops and P :: "'p peer_id_ops" +
  fixes ls :: "'p local_storage" and mkdir wr :: "io_kind option"

sublocale local_cache \<subseteq> disk_store: peerset_storage "local_read V P ls" "local_write V P mkdir wr ls"
    "storable_peerset V P" "\<lambda>ps. ps\<lparr>local_peer_id := ls_local_peer_id ls\<rparr>" relative_name
  by unfold_locales (auto simp: local_read_written laws peer_laws local_read_other)

interpretation byte_cache: local_cache leb128 byte_peer_ops
    "\<lparr>ls_local_peer_id = 20, ls_path = ''peerset''\<rparr>" None None
  by unfold_locales

section \<open>Properties\<close>

text \<open>
  C28: a session that saved its peerset on disk and a later session in the same room with the
  same members agree on the party numbers: recovering from the cache restores exactly the
  saved parties, provided that the saved peerset is well formed, its members are sorted by
  their bytes and its encoding fits the buffer of 8192 bytes. Saving for one room leaves the
  cache of every other room alone.
\<close>

theorem local_storage_recovers:
  assumes "varint_laws V" and "peer_id_laws P" and "storable_peerset V P ps" and "wf_peerset ps"
    and "sorted (map (pid_to_bytes P) (peers ps))" and "peers ps' = peers ps"
    and "local_write V P mkdir wr ls d r ps = Inr d'"
    and "relative_name r" and "relative_name r'" and "r' \<noteq> r"
  shows "recover_from_cache P (local_read V P ls d' r) ps' = Inr (ps'\<lparr>parties := parties ps\<rparr>) \<and>
    local_read V P ls d' r' = local_read V P ls d r'"
proof -
  have "peerset_storage (local_read V P ls) (local_write V P mkdir wr ls) (storable_peerset V P)
      (\<lambda>ps. ps\<lparr>local_peer_id := ls_local_peer_id ls\<rparr>) relative_name"
    by unfold_locales (auto simp: local_read_written assms(1,2) local_read_other)
  from peerset_storage.recover_after_save [OF this assms(7,3,4,5,6)]
    local_read_other [OF assms(7-10)]
  show ?thesis by simp
qed

theorem local_storage_recovers_witness:
  "\<exists>d'. local_write leb128 byte_peer_ops None None \<lparr>ls_local_peer_id = 20, ls_path = ''peerset''\<rparr>
      Map.empty ''a1'' sample_peerset = Inr d' \<and>
    recover_from_cache byte_peer_ops
      (local_read leb128 byte_peer_ops \<lparr>ls_local_peer_id = 20, ls_path = ''peerset''\<rparr> d' ''a1'')
      (sample_peerset\<lparr>parties := []\<rparr>) = Inr (sample_peerset\<lparr>parties := parties sample_peerset\<rparr>)"
proof -
  let ?ls = "\<lparr>ls_local_peer_id = 20, ls_path = ''peerset''\<rparr>"
  obtain d' where w: "local_write leb128 byte_peer_ops None None ?ls Map.empty ''a1'' sample_peerset = Inr d'"
    by (simp add: local_write_def)
  have "storable_peerset leb128 byte_peer_ops sample_peerset"
    by (simp add: storable_peerset_def usize_peerset_def peerset_bytes_def peerset_chunks_def
        put_peer_id_def sample_peerset_eq byte_peer_ops_def leb128_encode_small)
  moreover have "sorted (map (pid_to_bytes byte_peer_ops) (peers sample_peerset))"
    by (simp add: sample_peerset_eq byte_peer_ops_def)
  moreover have "relative_name ''a1''" "relative_name ''b2''" "''b2'' \<noteq> ''a1''"
    by (simp_all add: relative_name_def)
  ultimately show ?thesis
    using local_storage_recovers [OF leb128_laws byte_peer_laws _ sample_peerset_wf _ _ w,
        of "sample_peerset\<lparr>parties := []\<rparr>" "''b2''"] w by auto
qed

end
