(* ===== verification/Net_Config.thy ===== *)
theory Net_Config
  imports Storage
begin

text \<open>
  \<open>network/src/config.rs\<close>: addresses with a peer id and their text form, the node key and the
  file it is kept in, and the configuration of a room. The ed25519 keys, the \<open>hex\<close> crate and
  the text form of a \<open>Multiaddr\<close> are outside and are records of operations with their
  documented laws; the file system is the part of the operating system that the code
  relies on: files with their bytes and mode, and directories.
\<close>

section \<open>Addresses\<close>

text \<open>A \<open>Multiaddr\<close> is the sequence of its protocols.\<close>

datatype 'p protocol =
    Ip4 nat | Ip6 nat | Dns string | Dns4 string | Dns6 string | P2p 'p | OtherProtocol string

type_synonym 'p multiaddr = "'p protocol list"

record 'p multiaddr_with_peer_id =
  ma_multiaddr :: "'p multiaddr"
  ma_peer_id :: 'p

record 'p multiaddr_ops =
  mo_parse :: "string \<Rightarrow> 'p multiaddr option"
  mo_display :: "'p multiaddr \<Rightarrow> string"

text \<open>The documented law, for one address: its text form is parsed back to it.\<close>

definition multiaddr_law :: "'p multiaddr_ops \<Rightarrow> 'p multiaddr \<Rightarrow> bool" where
  "multiaddr_law M a \<longleftrightarrow> mo_parse M (mo_display M a) = Some a"

definition multiaddr_concat :: "'p multiaddr_with_peer_id \<Rightarrow> 'p multiaddr" where
  "multiaddr_concat ma = ma_multiaddr ma @ [P2p (ma_peer_id ma)]"

definition ma_to_string :: "'p multiaddr_ops \<Rightarrow> 'p multiaddr_with_peer_id \<Rightarrow> string" where
  "ma_to_string M ma = mo_display M (multiaddr_concat ma)"

text \<open>\<open>addr.pop()\<close> takes the last protocol.\<close>

definition parse_addr :: "'p multiaddr \<Rightarrow> anyhow + 'p \<times> 'p multiaddr" where
  "parse_addr addr =
     (if addr = [] then Inl ''peer id missing''
      else case last addr of
             P2p key \<Rightarrow> Inr (key, butlast addr)
           | _ \<Rightarrow> Inl ''peer id missing'')"

definition parse_str_addr :: "'p multiaddr_ops \<Rightarrow> string \<Rightarrow> anyhow + 'p \<times> 'p multiaddr" where
  "parse_str_addr M addr_str =
     bindR (ok_or ''invalid multiaddr'' (mo_parse M addr_str)) parse_addr"

definition ma_from_str :: "'p multiaddr_ops \<Rightarrow> string \<Rightarrow> anyhow + 'p multiaddr_with_peer_id" where
  "ma_from_str M s =
     bindR (parse_str_addr M s) (\<lambda>(peer_id, multiaddr).
       Inr \<lparr>ma_multiaddr = multiaddr, ma_peer_id = peer_id\<rparr>)"

definition ma_try_from :: "'p multiaddr_ops \<Rightarrow> string \<Rightarrow> anyhow + 'p multiaddr_with_peer_id" where
  "ma_try_from M s =
     map_errR (\<lambda>e. ''parsing multiaddr_peer_id terminated with err: '' @ e) (ma_from_str M s)"

lemma parse_addr_concat: "parse_addr (multiaddr_concat ma) = Inr (ma_peer_id ma, ma_multiaddr ma)"
  by (simp add: parse_addr_def multiaddr_concat_def)

lemma ma_from_str_to_string:
  "multiaddr_law M (multiaddr_concat ma) \<Longrightarrow> ma_from_str M (ma_to_string M ma) = Inr ma"
  by (simp add: multiaddr_law_def ma_from_str_def parse_str_addr_def ma_to_string_def ok_or_def
      parse_addr_concat)

section \<open>Files\<close>

record secret_file =
  sf_bytes :: bytes
  sf_mode :: nat

record fs =
  fs_files :: "string \<rightharpoonup> secret_file"
  fs_dirs :: "string set"

text \<open>\<open>Path::parent\<close> on Unix: a trailing separator does not count, the root and the empty path
  have no parent.\<close>

definition strip_slashes :: "string \<Rightarrow> string" where
  "strip_slashes s = rev (dropWhile (\<lambda>c. c = CHR ''/'') (rev s))"

definition path_parent :: "string \<Rightarrow> string option" where
  "path_parent path =
     (let s = strip_slashes path in
      if s = [] then None
      else let d = rev (dropWhile (\<lambda>c. c \<noteq> CHR ''/'') (rev s)) in
           if d \<noteq> [] \<and> strip_slashes d = [] then Some ''/'' else Some (strip_slashes d))"

definition fs_read :: "fs \<Rightarrow> string \<Rightarrow> io_kind + bytes" where
  "fs_read F path =
     (case fs_files F path of
        Some f \<Rightarrow> Inr (sf_bytes f)
      | None \<Rightarrow> Inl (if strip_slashes path \<in> fs_dirs F then IsADirectory else NotFound))"

text \<open>
  \<open>OpenOptions::new().write(true).create_new(true).mode(0o600)\<close>: the path must not exist, must
  not end in a separator, and its directory must exist.
\<close>

definition open_secret_file :: "string \<Rightarrow> fs \<Rightarrow> io_kind + fs" where
  "open_secret_file path F =
     (if path \<noteq> [] \<and> last path = CHR ''/'' then Inl IsADirectory
      else if path \<in> dom (fs_files F) \<or> path \<in> fs_dirs F then Inl AlreadyExists
      else case path_parent path of
             None \<Rightarrow> Inl NotFound
           | Some d \<Rightarrow>
               if d = [] \<or> d \<in> fs_dirs F then
                 Inr (F\<lparr>fs_files := (fs_files F)(path \<mapsto> \<lparr>sf_bytes = [], sf_mode = 384\<rparr>)\<rparr>)
               else Inl NotFound)"

text \<open>\<open>write_all\<close> may fail after some bytes: \<open>fault\<close> is then their number.\<close>

definition write_secret_file :: "nat option \<Rightarrow> string \<Rightarrow> bytes \<Rightarrow> fs \<Rightarrow> fs \<times> (io_kind + unit)" where
  "write_secret_file fault path sk_bytes F =
     (case open_secret_file path F of
        Inl e \<Rightarrow> (F, Inl e)
      | Inr F' \<Rightarrow>
          (case fault of
             None \<Rightarrow>
               (F'\<lparr>fs_files := (fs_files F')(path \<mapsto> \<lparr>sf_bytes = sk_bytes, sf_mode = 384\<rparr>)\<rparr>,
                Inr ())
           | Some n \<Rightarrow>
               (F'\<lparr>fs_files := (fs_files F')(path \<mapsto>
                     \<lparr>sf_bytes = take n sk_bytes, sf_mode = 384\<rparr>)\<rparr>, Inl OtherIo)))"

section \<open>The node key\<close>

text \<open>A secret key determines its keypair and so its peer id.\<close>

record ('k, 'p) ed25519_ops =
  ed_try_from_bytes :: "bytes \<Rightarrow> 'k option"
  ed_as_ref :: "'k \<Rightarrow> bytes"
  ed_peer_id :: "'k \<Rightarrow> 'p"
  ed_hex_decode :: "bytes \<Rightarrow> bytes option"

definition ed25519_laws :: "('k, 'p) ed25519_ops \<Rightarrow> bool" where
  "ed25519_laws E \<longleftrightarrow>
     (\<forall>k. length (ed_as_ref E k) = 32 \<and> ed_try_from_bytes E (ed_as_ref E k) = Some k)"

datatype 'k secret = Input 'k | File string | New

datatype 'k node_key_config = Ed25519Config "'k secret"

text \<open>\<open>String::from_utf8\<close> succeeds on well-formed UTF-8 (Unicode, table 3-7).\<close>

fun utf8_valid :: "bytes \<Rightarrow> bool" where
  "utf8_valid [] \<longleftrightarrow> True"
| "utf8_valid (a # bs) \<longleftrightarrow>
     (if a < 0x80 then utf8_valid bs
      else case bs of
             [] \<Rightarrow> False
           | b # cs \<Rightarrow>
               if 0xC2 \<le> a \<and> a \<le> 0xDF then 0x80 \<le> b \<and> b \<le> 0xBF \<and> utf8_valid cs
               else case cs of
                      [] \<Rightarrow> False
                    | c # ds \<Rightarrow>
                        if 0xE0 \<le> a \<and> a \<le> 0xEF then
                          (if a = 0xE0 then 0xA0 else 0x80) \<le> b \<and>
                          b \<le> (if a = 0xED then 0x9F else 0xBF) \<and>
                          0x80 \<le> c \<and> c \<le> 0xBF \<and> utf8_valid ds
                        else case ds of
                               [] \<Rightarrow> False
                             | d # es \<Rightarrow>
                                 0xF0 \<le> a \<and> a \<le> 0xF4 \<and>
                                 (if a = 0xF0 then 0x90 else 0x80) \<le> b \<and>
                                 b \<le> (if a = 0xF4 then 0x8F else 0xBF) \<and>
                                 0x80 \<le> c \<and> c \<le> 0xBF \<and> 0x80 \<le> d \<and> d \<le> 0xBF \<and>
                                 utf8_valid es)"

text \<open>The contents of a key file: 64 hexadecimal digits, or the 32 bytes of the key.\<close>

definition parse_key_file :: "('k, 'p) ed25519_ops \<Rightarrow> bytes \<Rightarrow> 'k option" where
  "parse_key_file E bytes =
     (case (if utf8_valid bytes \<and> length bytes = 64
            then Option.bind (ed_hex_decode E bytes)
                   (\<lambda>decoded. if length decoded = 32 then ed_try_from_bytes E decoded else None)
            else None) of
        Some sk \<Rightarrow> Some sk
      | None \<Rightarrow> if length bytes = 32 then ed_try_from_bytes E bytes else None)"

text \<open>\<open>generated\<close> is the key that \<open>generate\<close> would return.\<close>

definition into_keypair ::
    "('k, 'p) ed25519_ops \<Rightarrow> 'k \<Rightarrow> nat option \<Rightarrow> 'k node_key_config \<Rightarrow> fs \<Rightarrow> fs \<times> (io_kind + 'k)" where
  "into_keypair E generated fault config F =
     (case config of
        Ed25519Config New \<Rightarrow> (F, Inr generated)
      | Ed25519Config (Input k) \<Rightarrow> (F, Inr k)
      | Ed25519Config (File f) \<Rightarrow>
          (case (case fs_read F f of Inr bytes \<Rightarrow> parse_key_file E bytes | Inl _ \<Rightarrow> None) of
             Some sk \<Rightarrow> (F, Inr sk)
           | None \<Rightarrow>
               let (F', r) = write_secret_file fault f (ed_as_ref E generated) F
               in (F', bindR r (\<lambda>_. Inr generated))))"

definition persist :: "('k, 'p) ed25519_ops \<Rightarrow> nat option \<Rightarrow> 'k \<Rightarrow> string \<Rightarrow> fs \<Rightarrow> fs \<times> (io_kind + unit)" where
  "persist E fault k path F = write_secret_file fault path (ed_as_ref E k) F"

text \<open>\<open>get_secret\<close> creates the directory of a file that does not exist; nothing calls it.\<close>

definition get_secret ::
    "(bytes \<Rightarrow> 'k option) \<Rightarrow> 'k \<Rightarrow> ('k \<Rightarrow> bytes) \<Rightarrow> nat option \<Rightarrow> string \<Rightarrow> fs \<Rightarrow> fs \<times> (io_kind + 'k)" where
  "get_secret parse generated serialize fault path F =
     (case fs_read F path of
        Inr sk_bytes \<Rightarrow> (F, ok_or InvalidData (parse sk_bytes))
      | Inl e \<Rightarrow>
          if e = NotFound then
            let F1 = (case path_parent path of None \<Rightarrow> F | Some d \<Rightarrow> F\<lparr>fs_dirs := insert d (fs_dirs F)\<rparr>);
                (F2, r) = write_secret_file fault path (serialize generated) F1
            in (F2, bindR r (\<lambda>_. Inr generated))
          else (F, Inl e))"

section \<open>Rooms and parameters\<close>

type_synonym inbound_queue = nat

record 'p room_config =
  rc_id :: room_id
  rc_max_size :: nat
  rc_boot_nodes :: "'p multiaddr_with_peer_id list"
  rc_inbound_queue :: "inbound_queue option"

record 'p params =
  pa_listen_address :: "'p multiaddr"
  pa_mdns :: bool
  pa_kademlia :: bool
  pa_rooms :: "'p room_config list"
  pa_boot_nodes :: "'p multiaddr_with_peer_id list"

text \<open>\<open>async_channel::bounded\<close> panics on a capacity of zero; \<open>queue\<close> is the new channel.\<close>

definition room_config_new_full ::
    "(string \<Rightarrow> string) \<Rightarrow> inbound_queue \<Rightarrow> string \<Rightarrow> 'p multiaddr_with_peer_id list \<Rightarrow> nat \<Rightarrow>
     (anyhow, room_id \<times> 'p room_config \<times> inbound_queue) res" where
  "room_config_new_full blake3_hex queue name boot_nodes max_size =
     (if max_size = 0 then Inl (Panic ''capacity cannot be zero'')
      else let i = room_id_from blake3_hex name
           in Inr (i, \<lparr>rc_id = i, rc_max_size = max_size, rc_boot_nodes = boot_nodes,
                      rc_inbound_queue = Some queue\<rparr>, queue))"

section \<open>Identity across restarts\<close>

lemma parse_key_file_raw:
  "ed25519_laws E \<Longrightarrow> parse_key_file E (ed_as_ref E k) = Some k"
  by (simp add: ed25519_laws_def parse_key_file_def)

lemma open_secret_file_new:
  assumes "open_secret_file path F = Inr F'"
  shows "path \<notin> dom (fs_files F) \<and> fs_dirs F' = fs_dirs F \<and>
    fs_files F' = (fs_files F)(path \<mapsto> \<lparr>sf_bytes = [], sf_mode = 384\<rparr>)"
  using assms by (auto simp: open_secret_file_def split: if_splits option.splits)

lemma write_secret_file_ok:
  assumes "write_secret_file fault path sk F = (F', Inr ())"
  shows "path \<notin> dom (fs_files F) \<and> fs_dirs F' = fs_dirs F \<and>
    fs_files F' = (fs_files F)(path \<mapsto> \<lparr>sf_bytes = sk, sf_mode = 384\<rparr>)"
  using assms
  by (auto simp: write_secret_file_def dest!: open_secret_file_new split: sum.splits option.splits)

text \<open>A path that already exists is never written to.\<close>

lemma write_secret_file_exists:
  assumes "path \<in> dom (fs_files F)"
  shows "\<exists>e. write_secret_file fault path sk F = (F, Inl e)"
  using assms by (auto simp: write_secret_file_def open_secret_file_def)

lemma into_keypair_read:
  assumes "fs_files F f = Some file" and "parse_key_file E (sf_bytes file) = Some k"
  shows "into_keypair E g fault (Ed25519Config (File f)) F = (F, Inr k)"
  using assms by (simp add: into_keypair_def fs_read_def)

lemma into_keypair_stable:
  assumes "ed25519_laws E" and "into_keypair E g fault (Ed25519Config (File f)) F = (F', Inr k)"
  shows "into_keypair E g' fault' (Ed25519Config (File f)) F' = (F', Inr k)"
proof (cases "case fs_read F f of Inr bytes \<Rightarrow> parse_key_file E bytes | Inl _ \<Rightarrow> None")
  case (Some sk)
  with assms(2) show ?thesis by (auto simp: into_keypair_def)
next
  case None
  with assms(2) have w: "write_secret_file fault f (ed_as_ref E g) F = (F', Inr ())" and k: "k = g"
    by (auto simp: into_keypair_def split: prod.splits)
  from write_secret_file_ok [OF w] parse_key_file_raw [OF assms(1)] show ?thesis
    by (simp add: into_keypair_read k)
qed

lemma write_secret_file_keeps:
  assumes "write_secret_file fault target sk F = (F', r)" and "path \<in> dom (fs_files F)"
  shows "fs_files F' path = fs_files F path"
proof (cases "open_secret_file target F")
  case (Inl e)
  with assms(1) show ?thesis by (simp add: write_secret_file_def)
next
  case (Inr F1)
  from open_secret_file_new [OF Inr] assms(2) have "target \<noteq> path" by blast
  with open_secret_file_new [OF Inr] assms(1) Inr show ?thesis
    by (auto simp: write_secret_file_def split: option.splits)
qed

lemma into_keypair_keeps_files:
  assumes "into_keypair E g fault config F = (F', r)" and "path \<in> dom (fs_files F)"
  shows "fs_files F' path = fs_files F path"
  using assms(1) write_secret_file_keeps [OF _ assms(2)]
  by (auto simp: into_keypair_def
      split: node_key_config.splits secret.splits option.splits prod.splits)

text \<open>
  A write that fails part-way leaves a file that is neither a key nor absent: from then on
  every start fails, since \<open>create_new\<close> does not open it again.
\<close>

lemma failed_key_write_is_permanent:
  assumes "fs_files F f = None" and "n < 32" and "length (ed_as_ref E g) = 32"
    and "into_keypair E g (Some n) (Ed25519Config (File f)) F = (F', Inl OtherIo)"
  shows "into_keypair E g' fault (Ed25519Config (File f)) F' = (F', Inl AlreadyExists)"
proof -
  have r: "fs_read F f \<noteq> Inr b" for b using assms(1) by (simp add: fs_read_def)
  have c: "\<not> (f \<noteq> [] \<and> last f = CHR ''/'')"
    and F': "fs_files F' f = Some \<lparr>sf_bytes = take n (ed_as_ref E g), sf_mode = 384\<rparr>"
    using assms(1,4) r
    by (auto simp: into_keypair_def fs_read_def write_secret_file_def open_secret_file_def Let_def
        split: sum.splits if_splits option.splits prod.splits)
  have "parse_key_file E (take n (ed_as_ref E g)) = None"
    using assms(2,3) by (simp add: parse_key_file_def)
  with c F' show ?thesis
    by (auto simp: into_keypair_def fs_read_def write_secret_file_def open_secret_file_def dom_def)
qed

section \<open>Properties\<close>

text \<open>
  The text form of an address with a peer id is parsed back to the same address and the
  same peer id, whatever the address.
\<close>

lemma multiaddr_roundtrip:
  assumes "multiaddr_law M (multiaddr_concat ma)"
  shows "ma_try_from M (ma_to_string M ma) = Inr ma"
  by (simp add: ma_try_from_def ma_from_str_to_string [OF assms] map_errR_def)

text \<open>
  C35: when a node has obtained its key from a key file, generating it if necessary, every
  later start from the same file gives the same key without touching the file system, and a
  file that existed before the first start is unchanged.
\<close>

theorem node_identity_stable:
  assumes "ed25519_laws E" and "into_keypair E g fault (Ed25519Config (File f)) F = (F', Inr k)"
  shows "into_keypair E g' fault' (Ed25519Config (File f)) F' = (F', Inr k) \<and>
    (\<forall>path \<in> dom (fs_files F). fs_files F' path = fs_files F path)"
  using into_keypair_stable [OF assms] into_keypair_keeps_files [OF assms(2)] by blast

text \<open>Two keys and the addresses made of them, for concrete instances.\<close>

definition plain_ed25519 :: "(bool, bool) ed25519_ops" where
  "plain_ed25519 =
     \<lparr>ed_try_from_bytes = (\<lambda>b. if length b = 32 then Some (hd b = 1) else None),
      ed_as_ref = (\<lambda>k. replicate 32 (if k then 1 else 0)),
      ed_peer_id = (\<lambda>k. k), ed_hex_decode = (\<lambda>_. None)\<rparr>"

lemma plain_ed25519_laws: "ed25519_laws plain_ed25519"
  by (simp add: ed25519_laws_def plain_ed25519_def)

definition empty_fs :: fs where
  "empty_fs = \<lparr>fs_files = Map.empty, fs_dirs = {''data''}\<rparr>"

lemma plain_key_generated:
  "into_keypair plain_ed25519 True None (Ed25519Config (File ''data/secret.key'')) empty_fs =
     (empty_fs\<lparr>fs_files := [''data/secret.key'' \<mapsto> \<lparr>sf_bytes = replicate 32 1, sf_mode = 384\<rparr>]\<rparr>,
      Inr True)"
  by (simp add: into_keypair_def fs_read_def empty_fs_def write_secret_file_def
      open_secret_file_def path_parent_def strip_slashes_def plain_ed25519_def Let_def)

theorem node_identity_stable_witness:
  "snd (into_keypair plain_ed25519 False None (Ed25519Config (File ''data/secret.key''))
     (fst (into_keypair plain_ed25519 True None (Ed25519Config (File ''data/secret.key'')) empty_fs)))
   = Inr True"
  using node_identity_stable [OF plain_ed25519_laws plain_key_generated, of False None]
  by (simp add: plain_key_generated)

text \<open>Addresses written as their list of protocols, one letter each.\<close>

definition plain_multiaddr :: "bool multiaddr_ops" where
  "plain_multiaddr =
     \<lparr>mo_parse = (\<lambda>s. Some (map (\<lambda>c. if c = CHR ''T'' then P2p True
                                      else if c = CHR ''F'' then P2p False
                                      else OtherProtocol [c]) s)),
      mo_display = (\<lambda>a. concat (map (\<lambda>q. case q of P2p True \<Rightarrow> ''T'' | P2p False \<Rightarrow> ''F''
                                          | OtherProtocol s \<Rightarrow> s | _ \<Rightarrow> ''x'') a))\<rparr>"

end
