(* ===== verification/Network_Service.thy ===== *)
theory Network_Service
  imports Net_Config
begin

text \<open>
  \<open>network/src/service.rs\<close> and the routing part of \<open>network/src/behaviour.rs\<close>: the
  messages a \<open>NetworkService\<close> puts on the worker's queue, and the event loop of
  \<open>NetworkWorker::run\<close> as a step function, one call per branch of its \<open>select!\<close>. The
  swarm (libp2p) is outside: its events are inputs and the calls on it are effects.
\<close>

section \<open>Messages to the worker\<close>

text \<open>An \<open>mpsc\<close> channel of the \<open>futures\<close> crate is its identity.\<close>

type_synonym receiver = nat

datatype 'p message_intent =
    Broadcast bytes "receiver option"
  | Multicast "'p list" bytes "receiver option"
  | SendDirect 'p bytes receiver

datatype 'p service_to_worker_msg =
    Request room_id message_context "'p message_intent"
  | GetConnectedPeers oneshot

definition broadcast_message ::
    "room_id \<Rightarrow> message_context \<Rightarrow> bytes \<Rightarrow> receiver option \<Rightarrow> 'p service_to_worker_msg" where
  "broadcast_message room_id context payload response_sender =
     Request room_id context (Broadcast payload response_sender)"

definition multicast_message ::
    "room_id \<Rightarrow> 'p list \<Rightarrow> message_context \<Rightarrow> bytes \<Rightarrow> receiver option \<Rightarrow>
     'p service_to_worker_msg" where
  "multicast_message room_id peer_ids context payload response_sender =
     Request room_id context (Multicast peer_ids payload response_sender)"

definition send_message ::
    "room_id \<Rightarrow> 'p \<Rightarrow> message_context \<Rightarrow> bytes \<Rightarrow> receiver \<Rightarrow> 'p service_to_worker_msg" where
  "send_message room_id peer_id context payload response_sender =
     Request room_id context (SendDirect peer_id payload response_sender)"

text \<open>\<open>get_connected_peers\<close> asks with a fresh oneshot and takes a dropped one for the empty set.\<close>

definition get_connected_peers_msg :: "oneshot \<Rightarrow> 'p service_to_worker_msg" where
  "get_connected_peers_msg tx = GetConnectedPeers tx"

definition get_connected_peers :: "'p set option \<Rightarrow> 'p set" where
  "get_connected_peers received = (case received of None \<Rightarrow> {} | Some ps \<Rightarrow> ps)"

section \<open>The worker\<close>

record 'p network_worker =
  nw_local_peer_id :: 'p
  nw_boot_nodes :: "'p multiaddr_with_peer_id list"
  nw_connected_peers :: "'p set"
  nw_connected_boot_nodes :: "'p set"
  nw_last_bootstrap_time :: instant

datatype if_disconnected = TryConnect | ImmediateError

text \<open>Calls on the swarm and its behaviour, and the answer to \<open>GetConnectedPeers\<close>.\<close>

datatype 'p swarm_call =
    Dial "'p multiaddr"
  | Bootstrap
  | BroadcastToRoom string message_context bytes "receiver option" if_disconnected
  | BroadcastTo "'p list" string message_context bytes "receiver option" if_disconnected
  | SendRequest 'p string message_context bytes bool receiver if_disconnected
  | ConnectedPeers oneshot "'p set"

text \<open>\<open>Behaviour::peers\<close> gives the peers that discovery knows, whatever the room, so the
  recipients of a broadcast are left to the behaviour.\<close>

definition behaviour_send_request ::
    "'p \<Rightarrow> bytes \<Rightarrow> room_id \<Rightarrow> message_context \<Rightarrow> receiver \<Rightarrow> if_disconnected \<Rightarrow> 'p swarm_call" where
  "behaviour_send_request target request room_id ctx pending_response connect =
     SendRequest target (room_protocol_name room_id) ctx request False pending_response connect"

definition behaviour_broadcast_message ::
    "'p list option \<Rightarrow> bytes \<Rightarrow> room_id \<Rightarrow> message_context \<Rightarrow> receiver option \<Rightarrow>
     if_disconnected \<Rightarrow> 'p swarm_call" where
  "behaviour_broadcast_message targets payload room_id ctx pending_response connect =
     (case targets of
        None \<Rightarrow> BroadcastToRoom (room_protocol_name room_id) ctx payload pending_response connect
      | Some ps \<Rightarrow> BroadcastTo ps (room_protocol_name room_id) ctx payload pending_response connect)"

datatype 'p worker_event =
    RetryTick
  | ConnectionEstablished 'p instant bool
  | ConnectionClosed 'p
  | OtherSwarmEvent
  | ServiceMsg "'p service_to_worker_msg"

text \<open>Before the loop the worker dials every boot node and bootstraps once.\<close>

definition network_worker_start :: "'p \<Rightarrow> 'p multiaddr_with_peer_id list \<Rightarrow> instant \<Rightarrow>
    'p network_worker \<times> 'p swarm_call list" where
  "network_worker_start me boot_nodes now =
     (\<lparr>nw_local_peer_id = me, nw_boot_nodes = boot_nodes, nw_connected_peers = {},
       nw_connected_boot_nodes = {}, nw_last_bootstrap_time = now\<rparr>,
      map (Dial \<circ> multiaddr_concat) boot_nodes @ [Bootstrap])"

definition retry_boot_nodes :: "'p network_worker \<Rightarrow> 'p swarm_call list" where
  "retry_boot_nodes w =
     map (Dial \<circ> multiaddr_concat) (filter (\<lambda>bn. ma_peer_id bn \<notin> nw_connected_boot_nodes w) (nw_boot_nodes w))"

text \<open>A connection event carries the instant and whether \<open>bootstrap\<close>, if it is called,
  succeeds.\<close>

definition connection_established ::
    "'p network_worker \<Rightarrow> 'p \<Rightarrow> instant \<Rightarrow> bool \<Rightarrow> 'p network_worker \<times> 'p swarm_call list" where
  "connection_established w p now bootstrap_ok =
     (let w1 = w\<lparr>nw_connected_peers := insert p (nw_connected_peers w)\<rparr> in
      if \<exists>bn \<in> set (nw_boot_nodes w). ma_peer_id bn = p then
        let w2 = w1\<lparr>nw_connected_boot_nodes := insert p (nw_connected_boot_nodes w)\<rparr> in
        if from_secs 2 \<le> now - nw_last_bootstrap_time w then
          (if bootstrap_ok then w2\<lparr>nw_last_bootstrap_time := now\<rparr> else w2, [Bootstrap])
        else (w2, [])
      else (w1, []))"

definition connection_closed :: "'p network_worker \<Rightarrow> 'p \<Rightarrow> 'p network_worker" where
  "connection_closed w p =
     w\<lparr>nw_connected_peers := nw_connected_peers w - {p},
       nw_connected_boot_nodes := nw_connected_boot_nodes w - {p}\<rparr>"

definition service_msg :: "'p network_worker \<Rightarrow> 'p service_to_worker_msg \<Rightarrow> 'p swarm_call list" where
  "service_msg w m =
     (case m of
        GetConnectedPeers response \<Rightarrow> [ConnectedPeers response (nw_connected_peers w)]
      | Request room_id context message \<Rightarrow>
          (case message of
             Broadcast payload response_sender \<Rightarrow>
               [behaviour_broadcast_message None payload room_id context response_sender TryConnect]
           | Multicast peer_ids payload response_sender \<Rightarrow>
               [behaviour_broadcast_message (Some peer_ids) payload room_id context response_sender TryConnect]
           | SendDirect peer_id payload response_sender \<Rightarrow>
               [behaviour_send_request peer_id payload room_id context response_sender TryConnect]))"

definition network_worker_step ::
    "'p network_worker \<Rightarrow> 'p worker_event \<Rightarrow> 'p network_worker \<times> 'p swarm_call list" where
  "network_worker_step w e =
     (case e of
        RetryTick \<Rightarrow> (w, retry_boot_nodes w)
      | ConnectionEstablished p now ok \<Rightarrow> connection_established w p now ok
      | ConnectionClosed p \<Rightarrow> (connection_closed w p, [])
      | OtherSwarmEvent \<Rightarrow> (w, [])
      | ServiceMsg m \<Rightarrow> (w, service_msg w m))"

text \<open>The loop of \<open>run\<close>, over the events of its \<open>select!\<close>.\<close>

definition network_worker_run ::
    "'p \<Rightarrow> 'p multiaddr_with_peer_id list \<Rightarrow> instant \<Rightarrow> 'p worker_event list \<Rightarrow> 'p network_worker" where
  "network_worker_run me boot_nodes now es =
     run (\<lambda>w e. fst (network_worker_step w e)) (fst (network_worker_start me boot_nodes now)) es"

section \<open>The set of connected peers\<close>

definition worker_inv :: "'p network_worker \<Rightarrow> bool" where
  "worker_inv w \<longleftrightarrow>
     nw_connected_boot_nodes w = nw_connected_peers w \<inter> ma_peer_id ` set (nw_boot_nodes w)"

lemma connection_established_boot_nodes:
  "nw_boot_nodes (fst (connection_established w p now ok)) = nw_boot_nodes w"
  "nw_connected_peers (fst (connection_established w p now ok)) = insert p (nw_connected_peers w)"
  by (simp_all add: connection_established_def Let_def)

lemma connection_established_inv: "worker_inv w \<Longrightarrow> worker_inv (fst (connection_established w p now ok))"
  by (auto simp: worker_inv_def connection_established_def Let_def)

lemma connection_closed_inv: "worker_inv w \<Longrightarrow> worker_inv (connection_closed w p)"
  by (auto simp: worker_inv_def connection_closed_def)

lemma network_worker_step_boot_nodes:
  "nw_boot_nodes (fst (network_worker_step w e)) = nw_boot_nodes w"
  by (simp add: network_worker_step_def connection_established_boot_nodes connection_closed_def
      split: worker_event.splits)

interpretation net_worker: invariant_system "\<lambda>w e. fst (network_worker_step w e)" worker_inv
proof
  fix w :: "'p network_worker" and e
  assume "worker_inv w"
  then show "worker_inv (fst (network_worker_step w e))"
    by (cases e) (simp_all add: network_worker_step_def connection_established_inv connection_closed_inv)
qed

text \<open>The reference definition: a peer counts as connected from its last connection event.\<close>

fun last_connection :: "'p \<Rightarrow> 'p worker_event list \<Rightarrow> bool \<Rightarrow> bool" where
  "last_connection p [] c = c"
| "last_connection p (ConnectionEstablished q now ok # es) c = last_connection p es (q = p \<or> c)"
| "last_connection p (ConnectionClosed q # es) c = last_connection p es (q \<noteq> p \<and> c)"
| "last_connection p (_ # es) c = last_connection p es c"

lemma last_connection_step:
  "last_connection p (e # es) (p \<in> nw_connected_peers w) =
   last_connection p es (p \<in> nw_connected_peers (fst (network_worker_step w e)))"
  by (cases e) (auto simp: network_worker_step_def connection_established_boot_nodes
      connection_closed_def eq_commute conj_commute)

lemma run_connected:
  "p \<in> nw_connected_peers (run (\<lambda>w e. fst (network_worker_step w e)) w es) \<longleftrightarrow>
   last_connection p es (p \<in> nw_connected_peers w)"
  by (induction es arbitrary: w) (simp_all only: run.simps last_connection_step last_connection.simps(1))

lemma run_boot_nodes:
  "nw_boot_nodes (run (\<lambda>w e. fst (network_worker_step w e)) w es) = nw_boot_nodes w"
  by (induction es arbitrary: w) (simp_all add: network_worker_step_boot_nodes)

text \<open>The number of open connections of a peer, and the sequences in which it has at most one at a
  time: there the last connection event tells whether it is connected.\<close>

fun open_connections_of :: "'p \<Rightarrow> 'p worker_event list \<Rightarrow> nat \<Rightarrow> nat" where
  "open_connections_of p [] n = n"
| "open_connections_of p (ConnectionEstablished q now ok # es) n =
     open_connections_of p es (if q = p then n + 1 else n)"
| "open_connections_of p (ConnectionClosed q # es) n = open_connections_of p es (if q = p then n - 1 else n)"
| "open_connections_of p (_ # es) n = open_connections_of p es n"

fun one_at_a_time :: "'p \<Rightarrow> 'p worker_event list \<Rightarrow> bool \<Rightarrow> bool" where
  "one_at_a_time p [] c \<longleftrightarrow> True"
| "one_at_a_time p (ConnectionEstablished q now ok # es) c \<longleftrightarrow>
     (q = p \<longrightarrow> \<not> c) \<and> one_at_a_time p es (q = p \<or> c)"
| "one_at_a_time p (ConnectionClosed q # es) c \<longleftrightarrow> (q = p \<longrightarrow> c) \<and> one_at_a_time p es (q \<noteq> p \<and> c)"
| "one_at_a_time p (_ # es) c \<longleftrightarrow> one_at_a_time p es c"

lemma last_connection_open:
  "one_at_a_time p es c \<Longrightarrow> last_connection p es c \<longleftrightarrow> 0 < open_connections_of p es (of_bool c)"
  by (induction p es c rule: one_at_a_time.induct) (auto split: if_splits)

section \<open>Properties\<close>

text \<open>
  C31: after any sequence of events since the worker started, the answer to
  \<open>GetConnectedPeers\<close> holds exactly the peers whose last connection event was an
  establishment, and the periodic retry dials exactly the boot nodes that are not among
  them, in the configured order. These are the peers with an open connection as long as a
  peer has one at a time (\<open>last_connection_open\<close>); a peer that closed one of two connections
  is missing, although the answer is documented as the currently connected peers
  (\<open>second_connection_forgotten\<close>).
\<close>

theorem network_worker_tracks_connections:
  "network_worker_step (network_worker_run me boots now es) (ServiceMsg (GetConnectedPeers ch)) =
      (network_worker_run me boots now es, [ConnectedPeers ch {p. last_connection p es False}]) \<and>
    network_worker_step (network_worker_run me boots now es) RetryTick =
      (network_worker_run me boots now es,
       map (Dial \<circ> multiaddr_concat) (filter (\<lambda>bn. \<not> last_connection (ma_peer_id bn) es False) boots))"
proof -
  let ?w = "network_worker_run me boots now es"
  have c: "nw_connected_peers ?w = {p. last_connection p es False}"
    using run_connected [of _ "fst (network_worker_start me boots now)" es]
    by (auto simp: network_worker_run_def network_worker_start_def)
  have b: "nw_boot_nodes ?w = boots"
    by (simp add: network_worker_run_def run_boot_nodes network_worker_start_def)
  have "worker_inv ?w"
    unfolding network_worker_run_def
    by (rule net_worker.run_inv) (simp add: network_worker_start_def worker_inv_def)
  then have "retry_boot_nodes ?w = map (Dial \<circ> multiaddr_concat) (filter (\<lambda>bn. \<not> last_connection (ma_peer_id bn) es False) boots)"
    unfolding retry_boot_nodes_def b using b c
    by (intro arg_cong [of _ _ "map (Dial \<circ> multiaddr_concat)"] filter_cong) (auto simp: worker_inv_def)
  with c show ?thesis by (simp add: network_worker_step_def service_msg_def)
qed

text \<open>
  A peer with two connections is reported as not connected, and dialled again when
  it is a boot node, as soon as one of the two closes: the handler of \<open>ConnectionClosed\<close>
  does not look at the number of remaining connections.
\<close>

lemma second_connection_forgotten:
  assumes "es = [ConnectionEstablished p t1 ok1, ConnectionEstablished p t2 ok2, ConnectionClosed p]"
  shows "network_worker_step (network_worker_run me boots now es) (ServiceMsg (GetConnectedPeers ch)) =
      (network_worker_run me boots now es, [ConnectedPeers ch {}]) \<and>
    nw_connected_boot_nodes (network_worker_run me boots now es) = {}"
proof -
  have c: "nw_connected_peers (network_worker_run me boots now es) = {}"
    using run_connected [of _ "fst (network_worker_start me boots now)" es]
    by (auto simp: network_worker_run_def network_worker_start_def assms simp del: run.simps)
  have "worker_inv (network_worker_run me boots now es)"
    unfolding network_worker_run_def
    by (rule net_worker.run_inv) (simp add: network_worker_start_def worker_inv_def)
  with c show ?thesis by (simp add: network_worker_step_def service_msg_def worker_inv_def)
qed

end
