(* ===== verification/Channels.thy ===== *)
theory Channels
  imports Start_Msg Network_Service
begin

text \<open>
  The parts that the phases of a room share: the effects a poll has on requests and
  their response channels, the phase 1 channel and its constructor, the bounded buffer
  of early computation messages (\<open>service/src/coordination.rs\<close>) and the filter between
  a room and a running session (\<open>service/src/network_proxy.rs\<close>).

  A poll is a function of the future's fields and of what the polled channels and timers
  return; it gives the fields back together with the effects, in order. Channels of the
  \<open>futures\<close> crate are identities: an \<open>mpsc::Receiver\<close> that is moved keeps its identity,
  and each operation on it (\<open>try_next\<close>, \<open>try_send\<close>, \<open>is_closed\<close>, \<open>try_recv\<close>) is an
  argument of the poll that performs it.
\<close>

section \<open>Effects and polls\<close>

text \<open>What happens to a request: it is answered, sent on to the session, or goes out of
  scope, which cancels its response channel.\<close>

datatype 'p effect =
    Reply "'p incoming_request" outgoing_response
  | Forward "'p incoming_request"
  | Discard "'p incoming_request"

fun effect_request :: "'p effect \<Rightarrow> 'p incoming_request" where
  "effect_request (Reply m r) = m"
| "effect_request (Forward m) = m"
| "effect_request (Discard m) = m"

fun forwarded :: "'p effect list \<Rightarrow> 'p incoming_request list" where
  "forwarded [] = []"
| "forwarded (Forward m # es) = m # forwarded es"
| "forwarded (e # es) = forwarded es"

lemma forwarded_append [simp]: "forwarded (xs @ ys) = forwarded xs @ forwarded ys"
  by (induction xs rule: forwarded.induct) simp_all

lemma in_forwarded_iff: "m \<in> set (forwarded es) \<longleftrightarrow> Forward m \<in> set es"
  by (induction es rule: forwarded.induct) auto

definition reject :: "'p incoming_request \<Rightarrow> 'p effect" where
  "reject m = Reply m \<lparr>or_result = Inl (), or_sent_feedback = None\<rparr>"

lemma effect_request_reject [simp]: "effect_request (reject m) = m"
  by (simp add: reject_def)

lemma reject_not_Forward [simp]: "reject m \<noteq> Forward k" "Forward k \<noteq> reject m"
  by (simp_all add: reject_def)

lemma reject_not_Discard [simp]: "reject m \<noteq> Discard k" "Discard k \<noteq> reject m"
  by (simp_all add: reject_def)

lemma forwarded_reject [simp]: "forwarded (reject m # es) = forwarded es"
  by (simp add: reject_def)

lemma forwarded_map_reject [simp]: "forwarded (map reject ms) = []"
  by (induction ms) simp_all

datatype 'a poll = Pending | Ready 'a

text \<open>\<open>oneshot::Receiver::try_recv\<close>.\<close>

datatype 'a try_recv = Canceled | Empty | Received 'a

text \<open>\<open>unwrap\<close> on an option that a completed future has been emptied of.\<close>

definition unwrap :: "'a option \<Rightarrow> (anyhow, 'a) res" where
  "unwrap m = ok_or (Panic ''called `Option::unwrap()` on a `None` value'') m"

lemma unwrap_simps [simp]:
  "unwrap (Some x) = Inr x"
  "unwrap m = Inr x \<longleftrightarrow> m = Some x"
  by (simp_all add: unwrap_def)

section \<open>The phase 1 channel\<close>

text \<open>A \<open>Box<dyn ComputeAgentAsync>\<close> is known by the protocol it reports; the
  computation itself runs in the execution of the session.\<close>

record agent =
  ag_protocol_id :: u64

record local_rpc_msg =
  lr_n :: u16
  lr_payload :: bytes
  lr_agent :: agent
  lr_pending_response :: oneshot

text \<open>The network service is a handle; the channels read the local peer id of it.\<close>

record 'p phase1_channel =
  p1_id :: room_id
  p1_rx :: "receiver option"
  p1_request :: oneshot
  p1_network_service :: 'p
  p1_buffered :: "'p incoming_request list"

text \<open>\<open>oneshot::channel()\<close> is the argument: both halves carry its identity.\<close>

definition phase1_new ::
    "room_id \<Rightarrow> receiver \<Rightarrow> 'p \<Rightarrow> oneshot \<Rightarrow> 'p phase1_channel \<times> oneshot" where
  "phase1_new room_id room_rx service ch =
     (\<lparr>p1_id = room_id, p1_rx = Some room_rx, p1_request = ch,
       p1_network_service = service, p1_buffered = []\<rparr>, ch)"

section \<open>Early computation messages\<close>

definition MAX_EARLY_COMPUTATION_MESSAGES :: nat where
  "MAX_EARLY_COMPUTATION_MESSAGES = 1024"

definition buffer_early_computation ::
    "'p incoming_request list \<Rightarrow> 'p incoming_request \<Rightarrow>
     'p incoming_request list \<times> 'p effect list" where
  "buffer_early_computation buffered msg =
     (if MAX_EARLY_COMPUTATION_MESSAGES \<le> length buffered then (buffered, [reject msg])
      else (buffered @ [msg], []))"

definition reject_buffered :: "'p incoming_request list \<Rightarrow> 'p effect list" where
  "reject_buffered buffered = map reject buffered"

lemma buffer_early_computation_bound:
  "length b \<le> MAX_EARLY_COMPUTATION_MESSAGES \<Longrightarrow>
   length (fst (buffer_early_computation b m)) \<le> MAX_EARLY_COMPUTATION_MESSAGES"
  by (auto simp: buffer_early_computation_def)

lemma buffer_early_computation_mset:
  "mset (fst (buffer_early_computation b m)) +
     mset (map effect_request (snd (buffer_early_computation b m))) = mset b + {#m#}"
  by (simp add: buffer_early_computation_def)

lemma effect_requests_reject_buffered [simp]:
  "map effect_request (reject_buffered b) = b"
  by (simp add: reject_buffered_def comp_def)

section \<open>The receiver proxy\<close>

record 'p receiver_proxy =
  rp_room_id :: room_id
  rp_request_receiver :: "receiver option"
  rp_tx :: receiver
  rp_network_service :: 'p
  rp_peerset :: "'p peerset"
  rp_session_id :: session_id
  rp_buffered :: "'p incoming_request list"

text \<open>\<open>mpsc::channel(1024)\<close> is the argument \<open>ch\<close>.\<close>

definition proxy_new ::
    "room_id \<Rightarrow> receiver \<Rightarrow> 'p \<Rightarrow> 'p peerset \<Rightarrow> session_id \<Rightarrow> 'p incoming_request list \<Rightarrow>
     receiver \<Rightarrow> 'p receiver_proxy \<times> receiver" where
  "proxy_new room_id request_receiver service ps sid buffered ch =
     (\<lparr>rp_room_id = room_id, rp_request_receiver = Some request_receiver, rp_tx = ch,
       rp_network_service = service, rp_peerset = ps, rp_session_id = sid,
       rp_buffered = buffered\<rparr>, ch)"

definition should_forward_message :: "'p incoming_request \<Rightarrow> session_id \<Rightarrow> bool" where
  "should_forward_message msg sid \<longleftrightarrow>
     message_type (ir_context msg) = Computation \<and> session_id (ir_context msg) = sid"

text \<open>\<open>accepted\<close> is the outcome of \<open>tx.try_send\<close>, which takes the message in any case.\<close>

definition forward_or_reject ::
    "bool \<Rightarrow> 'p incoming_request \<Rightarrow> session_id \<Rightarrow> 'p peerset \<Rightarrow> 'p effect list" where
  "forward_or_reject accepted msg sid ps =
     (if \<not> should_forward_message msg sid then [reject msg]
      else case index_of ps (ir_peer_id msg) of
             Some i \<Rightarrow>
               (let msg' = msg\<lparr>ir_peer_index := i\<rparr> in
                if accepted then [Forward msg'] else [Discard msg'])
           | None \<Rightarrow> [reject msg])"

text \<open>What one poll of the proxy observes: whether the session dropped its receiver, what
  \<open>try_next\<close> on the room's receiver gives, and whether \<open>try_send\<close> has room.\<close>

record 'p proxy_input =
  pi_is_closed :: bool
  pi_try_next :: "'p incoming_request option"
  pi_accepted :: bool
  pi_oneshot :: oneshot

definition proxy_poll ::
    "'p receiver_proxy \<Rightarrow> 'p proxy_input \<Rightarrow>
     (anyhow, 'p receiver_proxy \<times> 'p effect list \<times>
       (room_id \<times> 'p phase1_channel \<times> oneshot) poll) res" where
  "proxy_poll s i =
     (if pi_is_closed i then
        bindR (unwrap (rp_request_receiver s)) (\<lambda>rx.
          let (ch, tx) = phase1_new (rp_room_id s) rx (rp_network_service s) (pi_oneshot i) in
          Inr (s\<lparr>rp_request_receiver := None\<rparr>, [], Ready (rp_room_id s, ch, tx)))
      else case rp_buffered s of
        msg # rest \<Rightarrow>
          Inr (s\<lparr>rp_buffered := rest\<rparr>,
               forward_or_reject (pi_accepted i) msg (rp_session_id s) (rp_peerset s), Pending)
      | [] \<Rightarrow>
          bindR (unwrap (rp_request_receiver s)) (\<lambda>_.
            case pi_try_next i of
              Some msg \<Rightarrow>
                Inr (s, forward_or_reject (pi_accepted i) msg (rp_session_id s) (rp_peerset s),
                     Pending)
            | None \<Rightarrow> Inr (s, [], Pending)))"

section \<open>What the proxy lets through\<close>

text \<open>The specification of the filter: the requests a session may see, stamped with the
  index of their sender.\<close>

definition admissible :: "'p receiver_proxy \<Rightarrow> 'p incoming_request \<Rightarrow> bool" where
  "admissible s msg \<longleftrightarrow>
     should_forward_message msg (rp_session_id s) \<and> ir_peer_id msg \<in> set (peers (rp_peerset s))"

definition stamp :: "'p peerset \<Rightarrow> 'p incoming_request \<Rightarrow> 'p incoming_request" where
  "stamp ps msg = msg\<lparr>ir_peer_index := the (index_of ps (ir_peer_id msg))\<rparr>"

lemma forward_or_reject_cases:
  "forward_or_reject accepted msg (rp_session_id s) (rp_peerset s) =
     (if admissible s msg
      then [(if accepted then Forward else Discard) (stamp (rp_peerset s) msg)]
      else [reject msg])"
  using index_of_None_iff [of "rp_peerset s" "ir_peer_id msg"]
  by (cases "index_of (rp_peerset s) (ir_peer_id msg)")
    (auto simp: forward_or_reject_def admissible_def stamp_def Let_def)

text \<open>A run of a proxy whose session still listens, with the requests it took from the room.\<close>

fun proxy_run ::
    "'p receiver_proxy \<Rightarrow> 'p proxy_input list \<Rightarrow>
     (anyhow, 'p receiver_proxy \<times> 'p effect list \<times> 'p incoming_request list) res" where
  "proxy_run s [] = Inr (s, [], [])"
| "proxy_run s (i # is) =
     bindR (proxy_poll s i) (\<lambda>(s1, es, _).
     bindR (proxy_run s1 is) (\<lambda>(s2, es', ms).
       Inr (s2, es @ es',
            (if rp_buffered s = [] then opt_list (pi_try_next i) else [])
            @ ms)))"

text \<open>A poll changes nothing of the proxy but its buffer while the session listens.\<close>

lemma proxy_poll_listening:
  assumes "\<not> pi_is_closed i" and "rp_request_receiver s = Some rx"
  shows "\<exists>b es. proxy_poll s i = Inr (s\<lparr>rp_buffered := b\<rparr>, es, Pending) \<and>
    b = tl (rp_buffered s) \<and>
    es = (case rp_buffered s of
            m # _ \<Rightarrow> forward_or_reject (pi_accepted i) m (rp_session_id s) (rp_peerset s)
          | [] \<Rightarrow> (case pi_try_next i of None \<Rightarrow> []
                 | Some m \<Rightarrow> forward_or_reject (pi_accepted i) m (rp_session_id s) (rp_peerset s)))"
  using assms by (cases "rp_buffered s") (auto simp: proxy_poll_def split: option.splits)

lemma admissible_buffered [simp]: "admissible (s\<lparr>rp_buffered := b\<rparr>) = admissible s"
  by (simp add: admissible_def fun_eq_iff)

lemma proxy_run_listening:
  assumes "rp_request_receiver s = Some rx" and "\<And>i. i \<in> set is \<Longrightarrow> \<not> pi_is_closed i"
  shows "\<exists>es ms. proxy_run s is =
    Inr (s\<lparr>rp_buffered := drop (length is) (rp_buffered s)\<rparr>, es, ms)"
  using assms
proof (induction "is" arbitrary: s)
  case Nil
  then show ?case by simp
next
  case (Cons i "is")
  obtain es where p: "proxy_poll s i = Inr (s\<lparr>rp_buffered := tl (rp_buffered s)\<rparr>, es, Pending)"
    using proxy_poll_listening [of i s] Cons.prems by auto
  obtain es' ms where "proxy_run (s\<lparr>rp_buffered := tl (rp_buffered s)\<rparr>) is =
      Inr (s\<lparr>rp_buffered := drop (length is) (tl (rp_buffered s))\<rparr>, es', ms)"
    using Cons.IH [of "s\<lparr>rp_buffered := tl (rp_buffered s)\<rparr>"] Cons.prems by auto
  with p show ?case by (simp add: drop_Suc)
qed

text \<open>One turn of a run: a buffered request goes first, then one of the room.\<close>

abbreviation handle :: "'p receiver_proxy \<Rightarrow> 'p proxy_input \<Rightarrow> 'p incoming_request \<Rightarrow> 'p effect list" where
  "handle s i m \<equiv> forward_or_reject (pi_accepted i) m (rp_session_id s) (rp_peerset s)"

lemma proxy_run_turn:
  assumes "rp_request_receiver s = Some rx" and "\<not> pi_is_closed i"
  shows "proxy_run s (i # is) =
    (case rp_buffered s of
       m # b \<Rightarrow> bindR (proxy_run (s\<lparr>rp_buffered := b\<rparr>) is) (\<lambda>(s', es, ms). Inr (s', handle s i m @ es, ms))
     | [] \<Rightarrow> (case pi_try_next i of
           None \<Rightarrow> proxy_run s is
         | Some m \<Rightarrow> bindR (proxy_run s is) (\<lambda>(s', es, ms). Inr (s', handle s i m @ es, m # ms))))"
  using assms
  by (auto simp: proxy_poll_def bindR_def split: list.splits option.splits sum.splits)

text \<open>What holds of the three kinds of turn holds of every run.\<close>

lemma proxy_run_induct [consumes 3, case_names stop buffered fresh]:
  assumes run: "proxy_run s is = Inr (s', es, ms)"
    and rx: "rp_request_receiver s = Some rx"
    and open_: "\<And>i. i \<in> set is \<Longrightarrow> \<not> pi_is_closed i \<and> ok i"
    and stop: "P s' [] []"
    and buffered: "\<And>s i m b es ms. rp_buffered s = m # b \<Longrightarrow> ok i \<Longrightarrow> P (s\<lparr>rp_buffered := b\<rparr>) es ms \<Longrightarrow>
      P s (handle s i m @ es) ms"
    and fresh: "\<And>s i m es ms. rp_buffered s = [] \<Longrightarrow> ok i \<Longrightarrow> P s es ms \<Longrightarrow>
      P s (handle s i m @ es) (m # ms)"
  shows "P s es ms"
  using run rx open_
proof (induction "is" arbitrary: s es ms)
  case Nil
  with stop show ?case by simp
next
  case (Cons i "is")
  have i: "\<not> pi_is_closed i" "ok i" and rest: "\<And>j. j \<in> set is \<Longrightarrow> \<not> pi_is_closed j \<and> ok j"
    using Cons.prems(3) by auto
  note turn = proxy_run_turn [OF Cons.prems(2) i(1), of "is"]
  show ?case
  proof (cases "rp_buffered s")
    case Nil
    show ?thesis
    proof (cases "pi_try_next i")
      case None
      with Nil turn Cons.prems(1) Cons.IH [OF _ Cons.prems(2) rest] show ?thesis by simp
    next
      case (Some m)
      with Nil turn Cons.prems(1) obtain es1 ms1 where
        "proxy_run s is = Inr (s', es1, ms1)" "es = handle s i m @ es1" "ms = m # ms1" by auto
      with Nil i(2) Cons.IH [OF _ Cons.prems(2) rest] show ?thesis by (simp add: fresh)
    qed
  next
    case (Cons m b)
    with turn Cons.prems(1) obtain es1 where
      r: "proxy_run (s\<lparr>rp_buffered := b\<rparr>) is = Inr (s', es1, ms)" "es = handle s i m @ es1" by auto
    have "P (s\<lparr>rp_buffered := b\<rparr>) es1 ms"
      by (rule Cons.IH [OF r(1) _ rest]) (simp_all add: Cons.prems(2))
    with Cons i(2) r(2) show ?thesis by (simp add: buffered)
  qed
qed

section \<open>Properties\<close>

text \<open>Inputs and a proxy for the witnesses: peers 10, 20 and 30, session of sevens; one
  admissible request is buffered, the room holds one of another session and one of a
  stranger.\<close>

definition peer_request :: "8 word \<Rightarrow> 8 word \<Rightarrow> oneshot \<Rightarrow> 8 word incoming_request" where
  "peer_request sid p ch =
     \<lparr>ir_context = \<lparr>message_type = Computation, protocol_id = 0,
                   session_id = replicate 16 sid, message_id = 0\<rparr>,
      ir_peer = p, ir_peer_id = p, ir_is_broadcast = False, ir_peer_index = 0,
      ir_payload = [1], ir_pending_response = ch\<rparr>"

definition sample_proxy :: "8 word receiver_proxy" where
  "sample_proxy = fst (proxy_new ''a1'' 3 20 sample_peerset (replicate 16 7) [peer_request 7 30 1] 4)"

definition sample_inputs :: "8 word proxy_input list" where
  "sample_inputs =
     [\<lparr>pi_is_closed = False, pi_try_next = None, pi_accepted = True, pi_oneshot = 9\<rparr>,
      \<lparr>pi_is_closed = False, pi_try_next = Some (peer_request 8 30 2), pi_accepted = True, pi_oneshot = 9\<rparr>,
      \<lparr>pi_is_closed = False, pi_try_next = Some (peer_request 7 99 3), pi_accepted = True, pi_oneshot = 9\<rparr>,
      \<lparr>pi_is_closed = False, pi_try_next = Some (peer_request 7 10 4), pi_accepted = True, pi_oneshot = 9\<rparr>]"

lemma sample_proxy_simps:
  "rp_request_receiver sample_proxy = Some 3" "rp_buffered sample_proxy = [peer_request 7 30 1]"
  "rp_session_id sample_proxy = replicate 16 7" "rp_peerset sample_proxy = sample_peerset"
  by (simp_all add: sample_proxy_def proxy_new_def)

lemma sample_admissible:
  "admissible sample_proxy (peer_request sid p ch) \<longleftrightarrow> sid = 7 \<and> p \<in> {10, 20, 30}"
  by (auto simp: admissible_def should_forward_message_def sample_proxy_simps peer_request_def
      sample_peerset_eq)

lemma sample_inputs_open: "i \<in> set sample_inputs \<Longrightarrow> \<not> pi_is_closed i \<and> pi_accepted i"
  by (auto simp: sample_inputs_def)

text \<open>
  C24: while the session listens and its channel has room, the proxy refines the abstract
  filter: what it has forwarded, together with the admissible part of what is still
  buffered, is exactly the admissible subsequence of the buffered requests followed by
  those of the room, in order, each stamped with its sender's index; and the buffer is
  empty after as many polls as it had entries.
\<close>

theorem proxy_forwards_in_order:
  assumes "rp_request_receiver s = Some rx"
    and "\<And>i. i \<in> set is \<Longrightarrow> \<not> pi_is_closed i \<and> pi_accepted i"
  shows "\<exists>s' es ms. proxy_run s is = Inr (s', es, ms) \<and>
    forwarded es @ map (stamp (rp_peerset s)) (filter (admissible s) (rp_buffered s')) =
      map (stamp (rp_peerset s)) (filter (admissible s) (rp_buffered s @ ms)) \<and>
    rp_buffered s' = drop (length is) (rp_buffered s)"
proof -
  obtain s' es ms where run: "proxy_run s is = Inr (s', es, ms)"
    and b: "rp_buffered s' = drop (length is) (rp_buffered s)"
    using proxy_run_listening [OF assms(1)] assms(2) by fastforce
  from run assms have "forwarded es @
      map (stamp (rp_peerset s)) (filter (admissible s) (rp_buffered s')) =
      map (stamp (rp_peerset s)) (filter (admissible s) (rp_buffered s @ ms))"
    by (induction rule: proxy_run_induct) (simp_all add: forward_or_reject_cases)
  with run b show ?thesis by auto
qed

theorem proxy_forwards_in_order_witness:
  "\<exists>s' es ms. proxy_run sample_proxy sample_inputs = Inr (s', es, ms) \<and>
    forwarded es = [stamp sample_peerset (peer_request 7 30 1), stamp sample_peerset (peer_request 7 10 4)]"
proof -
  obtain s' es ms where r: "proxy_run sample_proxy sample_inputs = Inr (s', es, ms)"
    and f: "forwarded es @ map (stamp (rp_peerset sample_proxy)) (filter (admissible sample_proxy) (rp_buffered s')) =
      map (stamp (rp_peerset sample_proxy)) (filter (admissible sample_proxy) (rp_buffered sample_proxy @ ms))"
    and b: "rp_buffered s' = drop (length sample_inputs) (rp_buffered sample_proxy)"
    using proxy_forwards_in_order [of sample_proxy 3 sample_inputs] sample_inputs_open
    by (auto simp: sample_proxy_simps)
  have "ms = [peer_request 8 30 2, peer_request 7 99 3, peer_request 7 10 4]"
    using r by (auto simp: sample_inputs_def proxy_poll_def sample_proxy_simps)
  moreover have "rp_buffered s' = []" using b by (simp add: sample_inputs_def sample_proxy_simps)
  ultimately have "forwarded es = map (stamp sample_peerset)
      [peer_request 7 30 1, peer_request 7 10 4]"
    using f by (simp add: sample_admissible sample_proxy_simps)
  with r show ?thesis by simp
qed

text \<open>The requests that were answered with an error, in order.\<close>

definition refused :: "'p effect list \<Rightarrow> 'p incoming_request list" where
  "refused es = concat (map (\<lambda>e. case e of
     Reply m r \<Rightarrow> (if or_result r = Inl () then [m] else []) | Forward m \<Rightarrow> [] | Discard m \<Rightarrow> []) es)"

lemma refused_handle [simp]:
  "refused (handle s i m @ es) = (if admissible s m then refused es else m # refused es)" "refused [] = []"
  by (simp_all add: refused_def forward_or_reject_cases reject_def)

text \<open>A request with the mark of a member is one the session may see.\<close>

lemma admissible_stamp:
  assumes "admissible s m" and "wf_peerset (rp_peerset s)"
  shows "message_type (ir_context (stamp (rp_peerset s) m)) = Computation \<and>
    session_id (ir_context (stamp (rp_peerset s) m)) = rp_session_id s \<and>
    peerset_index (rp_peerset s) (ir_peer_index (stamp (rp_peerset s) m)) = Inr (ir_peer_id (stamp (rp_peerset s) m))"
proof -
  obtain i where "index_of (rp_peerset s) (ir_peer_id m) = Some i"
    using index_of_None_iff [of "rp_peerset s" "ir_peer_id m"] assms(1) by (auto simp: admissible_def)
  with assms show ?thesis
    using index_of_Some_iff [of "rp_peerset s" "ir_peer_id m" i]
    by (auto simp: stamp_def admissible_def should_forward_message_def peerset_index_def wf_peerset_def)
qed

text \<open>
  C25: sessions are isolated from each other: whatever the room delivers and however the
  sends turn out, every request that reaches a session is a computation message that
  carries that session's id, comes from a member of its peerset and is marked with that
  member's index. The others are answered with an error, one by one and in order: the
  requests answered so, followed by the inadmissible ones that are still buffered, are
  exactly the inadmissible ones among those that were buffered or came from the room.
\<close>

theorem proxy_isolates_sessions:
  assumes "proxy_run s is = Inr (s', es, ms)" and "rp_request_receiver s = Some rx"
    and "\<And>i. i \<in> set is \<Longrightarrow> \<not> pi_is_closed i" and "wf_peerset (rp_peerset s)"
  shows "(\<forall>m \<in> set (forwarded es).
      message_type (ir_context m) = Computation \<and> session_id (ir_context m) = rp_session_id s \<and>
      peerset_index (rp_peerset s) (ir_peer_index m) = Inr (ir_peer_id m)) \<and>
    refused es @ filter (\<lambda>m. \<not> admissible s m) (rp_buffered s') =
      filter (\<lambda>m. \<not> admissible s m) (rp_buffered s @ ms)"
proof -
  let ?good = "\<lambda>t m. message_type (ir_context m) = Computation \<and> session_id (ir_context m) = rp_session_id t \<and>
      peerset_index (rp_peerset t) (ir_peer_index m) = Inr (ir_peer_id m)"
  let ?Q = "\<lambda>t es ms. wf_peerset (rp_peerset t) \<longrightarrow> (\<forall>m \<in> set (forwarded es). ?good t m)"
  let ?R = "\<lambda>t es ms. refused es @ filter (\<lambda>m. \<not> admissible t m) (rp_buffered s') =
      filter (\<lambda>m. \<not> admissible t m) (rp_buffered t @ ms)"
  have "\<And>i. i \<in> set is \<Longrightarrow> \<not> pi_is_closed i \<and> True" using assms(3) by simp
  note ind = proxy_run_induct [OF assms(1,2) this]
  have "?Q s es ms"
    by (rule ind) (auto simp: forward_or_reject_cases admissible_stamp)
  moreover have "?R s es ms" by (rule ind) simp_all
  ultimately show ?thesis using assms(4) by simp
qed

theorem proxy_isolates_sessions_witness:
  "\<exists>s' es ms. proxy_run sample_proxy sample_inputs = Inr (s', es, ms) \<and>
    list_all (\<lambda>m. peerset_index sample_peerset (ir_peer_index m) = Inr (ir_peer_id m)) (forwarded es) \<and>
    refused es = [peer_request 8 30 2, peer_request 7 99 3]"
proof -
  obtain s' es ms where r: "proxy_run sample_proxy sample_inputs = Inr (s', es, ms)"
    and s': "rp_buffered s' = drop (length sample_inputs) (rp_buffered sample_proxy)"
    using proxy_run_listening [of sample_proxy 3 sample_inputs] sample_inputs_open
    by (fastforce simp: sample_proxy_simps)
  have b: "rp_buffered s' = []" using s' by (simp add: sample_proxy_simps sample_inputs_def)
  have ms: "ms = [peer_request 8 30 2, peer_request 7 99 3, peer_request 7 10 4]"
    using r by (auto simp: sample_inputs_def proxy_poll_def sample_proxy_simps)
  have "(\<forall>m \<in> set (forwarded es). peerset_index sample_peerset (ir_peer_index m) = Inr (ir_peer_id m)) \<and>
      refused es = [peer_request 8 30 2, peer_request 7 99 3]"
    using proxy_isolates_sessions [OF r, of 3] sample_inputs_open sample_peerset_wf
    by (auto simp: sample_proxy_simps b ms sample_admissible)
  with r show ?thesis by (auto simp: list_all_iff)
qed

text \<open>
  No request that enters a listening proxy is lost track of: counted by response
  channel, those that were buffered or read from the room are exactly those that were
  answered, forwarded or dropped on a full channel, and those still buffered.
\<close>

lemma proxy_conserves_requests:
  assumes "proxy_run s is = Inr (s', es, ms)" and "rp_request_receiver s = Some rx"
    and "\<And>i. i \<in> set is \<Longrightarrow> \<not> pi_is_closed i"
  shows "mset (map ir_pending_response (rp_buffered s @ ms)) =
    mset (map (\<lambda>e. ir_pending_response (effect_request e)) es) +
    mset (map ir_pending_response (rp_buffered s'))"
proof -
  have "\<And>i. i \<in> set is \<Longrightarrow> \<not> pi_is_closed i \<and> True" using assms(3) by simp
  from assms(1,2) this show ?thesis
    by (induction rule: proxy_run_induct) (auto simp: forward_or_reject_cases stamp_def)
qed

end
