(* ===== verification/Negotiation.thy ===== *)
theory Negotiation
  imports Channels
begin

text \<open>
  \<open>service/src/negotiation.rs\<close>: the initiator of a session waits for connections,
  broadcasts the request to the room, collects the peers that answer and starts the
  session as soon as it has \<open>n\<close> of them, or gives the room back when its timer fires.

  One call of \<open>negotiation_poll\<close> is one poll of the future. The instant is read once per
  poll. The messages for the network worker are returned in the order in which they are
  sent: a message future that is pushed during one poll is driven to completion at the
  start of the next one, as in the code. The hash set of collected peers is a list
  without duplicates. The retry counter, a \<open>u32\<close> that is only logged, is a natural number:
  a negotiation ends long before it could overflow.
\<close>

section \<open>State\<close>

record 'p negotiation_state =
  ng_id :: room_id
  ng_session_id :: session_id
  ng_n :: u16
  ng_request :: bytes
  ng_network_service :: 'p
  ng_peers :: "'p list"
  ng_responses :: "receiver option"
  ng_pending_futures :: "'p service_to_worker_msg list"
  ng_pending_response :: oneshot
  ng_last_broadcast_time :: "instant option"
  ng_retry_count :: nat
  ng_connection_wait_start :: "instant option"
  ng_connection_wait_done :: bool
  ng_connected_peers_probe :: "oneshot option"
  ng_last_connected_peers_probe_at :: "instant option"

record 'p negotiation_channel =
  nc_rx :: "receiver option"
  nc_timeout :: instant
  nc_agent :: "agent option"
  nc_state :: "'p negotiation_state option"

datatype 'p negotiation_msg =
    NStart agent oneshot receiver "'p receiver_proxy" "'p peerset" receiver bytes session_id
  | NAbort room_id "'p phase1_channel" oneshot "oneshot option"

text \<open>The instant, what the polled stream of responses and the probe of connected peers
  return, and the identities of the channels that a poll may create.\<close>

record 'p negotiation_input =
  ni_now :: instant
  ni_response :: "(request_failure + 'p \<times> bytes) option poll"
  ni_probe :: "'p set poll"
  ni_channel :: receiver
  ni_peerset_rx :: receiver
  ni_oneshot :: oneshot

section \<open>Operations\<close>

definition should_proceed_with_negotiation :: "u16 \<Rightarrow> nat \<Rightarrow> nat \<Rightarrow> nat \<Rightarrow> bool" where
  "should_proceed_with_negotiation n elapsed connected_peers wait_timeout \<longleftrightarrow>
     unat n \<le> connected_peers + 1 \<or> wait_timeout \<le> elapsed"

definition negotiation_new ::
    "instant \<Rightarrow> session_id \<Rightarrow> room_id \<Rightarrow> receiver \<Rightarrow> u16 \<Rightarrow> bytes \<Rightarrow> 'p \<Rightarrow> agent \<Rightarrow> oneshot \<Rightarrow>
     'p negotiation_channel" where
  "negotiation_new now uuid room_id room_rx n request service agent pending_response =
     \<lparr>nc_rx = Some room_rx, nc_timeout = sleep now (from_secs 45), nc_agent = Some agent,
      nc_state = Some
        \<lparr>ng_id = room_id, ng_session_id = uuid, ng_n = n, ng_request = request,
         ng_network_service = service, ng_peers = [service], ng_responses = None,
         ng_pending_futures = [], ng_pending_response = pending_response,
         ng_last_broadcast_time = None, ng_retry_count = 0, ng_connection_wait_start = None,
         ng_connection_wait_done = False, ng_connected_peers_probe = None,
         ng_last_connected_peers_probe_at = None\<rparr>\<rparr>"

text \<open>The peer that answered makes the set complete: the start message goes to every
  member, and the room's receiver moves into the proxy of the session.\<close>

definition negotiation_start ::
    "varint_ops \<Rightarrow> 'p peer_id_ops \<Rightarrow> 'p negotiation_channel \<Rightarrow> 'p negotiation_state \<Rightarrow>
     'p negotiation_input \<Rightarrow>
     (anyhow, 'p negotiation_channel \<times> 'p service_to_worker_msg list \<times> 'p negotiation_msg) res" where
  "negotiation_start V P c st i =
     bindR (unwrap (nc_agent c)) (\<lambda>agent.
       let ps = peerset_new P (ng_peers st) (ng_network_service st);
           start = multicast_message (ng_id st) (ng_peers st)
                     \<lparr>message_type = Coordination, protocol_id = ag_protocol_id agent,
                      session_id = ng_session_id st, message_id = 0\<rparr>
                     (start_msg_to_bytes V P \<lparr>sm_peerset = ps, sm_body = ng_request st\<rparr>) None in
       bindR (unwrap (nc_rx c)) (\<lambda>rx.
         let (proxy, room_receiver) =
               proxy_new (ng_id st) rx (ng_network_service st) ps (ng_session_id st) [] (ni_channel i) in
         Inr (c\<lparr>nc_agent := None, nc_rx := None\<rparr>, ng_pending_futures st @ [start],
              NStart agent (ng_pending_response st) room_receiver proxy ps (ni_peerset_rx i)
                (ng_request st) (ng_session_id st))))"

text \<open>The branch of a poll that waits for responses: either the session starts or the
  state goes on.\<close>

definition on_response ::
    "varint_ops \<Rightarrow> 'p peer_id_ops \<Rightarrow> 'p negotiation_channel \<Rightarrow> 'p negotiation_state \<Rightarrow>
     'p negotiation_input \<Rightarrow>
     (anyhow, ('p negotiation_channel \<times> 'p service_to_worker_msg list \<times> 'p negotiation_msg)
              + 'p negotiation_state) res" where
  "on_response V P c st i =
     (case ni_response i of
        Ready (Some (Inr (peer_id, _))) \<Rightarrow>
          (let st1 = st\<lparr>ng_peers := (if peer_id \<in> set (ng_peers st) then ng_peers st
                                    else ng_peers st @ [peer_id])\<rparr> in
           if length (ng_peers st1) = unat (ng_n st1)
           then bindR (negotiation_start V P c st1 i) (\<lambda>r. Inr (Inl r))
           else Inr (Inr st1))
      | Ready (Some (Inl _)) \<Rightarrow> Inr (Inr st)
      | Ready None \<Rightarrow> Inr (Inr (st\<lparr>ng_responses := None\<rparr>))
      | Pending \<Rightarrow> Inr (Inr st))"

text \<open>Before the first broadcast: probe the connected peers every 250 ms, for at most 30 s.
  A new probe is polled at once, which sends its request to the worker.\<close>

definition probe_interval :: nat where
  "probe_interval = 250"

definition start_probe ::
    "'p negotiation_state \<Rightarrow> 'p negotiation_input \<Rightarrow> 'p negotiation_state \<times> 'p service_to_worker_msg list" where
  "start_probe st i =
     (if ng_connected_peers_probe st = None \<and>
         (case ng_last_connected_peers_probe_at st of
            None \<Rightarrow> True | Some last_probe \<Rightarrow> probe_interval \<le> ni_now i - last_probe)
      then (st\<lparr>ng_connected_peers_probe := Some (ni_oneshot i),
               ng_last_connected_peers_probe_at := Some (ni_now i)\<rparr>,
            [GetConnectedPeers (ni_oneshot i)])
      else (st, []))"

definition poll_probe :: "instant \<Rightarrow> 'p negotiation_state \<Rightarrow> 'p negotiation_input \<Rightarrow> 'p negotiation_state" where
  "poll_probe start st i =
     (case (ng_connected_peers_probe st, ni_probe i) of
        (Some _, Ready connected_peers) \<Rightarrow>
          st\<lparr>ng_connection_wait_done :=
               should_proceed_with_negotiation (ng_n st) (ni_now i - start) (card connected_peers)
                 (from_secs 30),
             ng_connected_peers_probe := None\<rparr>
      | _ \<Rightarrow> st)"

definition wait_for_connections ::
    "'p negotiation_state \<Rightarrow> 'p negotiation_input \<Rightarrow> 'p negotiation_state \<times> 'p service_to_worker_msg list" where
  "wait_for_connections st i =
     (if \<not> ng_connection_wait_done st \<and> ng_last_broadcast_time st = None \<and>
         length (ng_peers st) < unat (ng_n st)
      then let start = (case ng_connection_wait_start st of None \<Rightarrow> ni_now i | Some t \<Rightarrow> t);
               (st2, cmds) = start_probe (st\<lparr>ng_connection_wait_start := Some start\<rparr>) i in
           (poll_probe start st2 i, cmds)
      else (st\<lparr>ng_connection_wait_done := True\<rparr>, []))"

definition should_broadcast :: "'p negotiation_state \<Rightarrow> instant \<Rightarrow> bool" where
  "should_broadcast st now \<longleftrightarrow>
     (case ng_last_broadcast_time st of
        None \<Rightarrow> ng_connection_wait_done st
      | Some last_time \<Rightarrow>
          from_secs 1 \<le> now - last_time \<and> length (ng_peers st) < unat (ng_n st))"

text \<open>\<open>(n - 1) as usize\<close> is computed in \<open>u16\<close> and overflows for \<open>n = 0\<close>.\<close>

definition send_broadcast ::
    "'p negotiation_channel \<Rightarrow> 'p negotiation_state \<Rightarrow> agent \<Rightarrow> 'p negotiation_input \<Rightarrow>
     (anyhow, 'p negotiation_channel \<times> 'p negotiation_state) res" where
  "send_broadcast c st agent i =
     (if ng_n st = 0 then Inl (Panic ''attempt to subtract with overflow'')
      else
        let msg = broadcast_message (ng_id st)
              \<lparr>message_type = Coordination, protocol_id = ag_protocol_id agent,
               session_id = ng_session_id st, message_id = 0\<rparr> [] (Some (ni_channel i)) in
        Inr (if ng_last_broadcast_time st = None
             then c\<lparr>nc_timeout := sleep (ni_now i) (from_secs 15)\<rparr> else c,
             st\<lparr>ng_pending_futures := ng_pending_futures st @ [msg],
                ng_responses := Some (ni_channel i),
                ng_last_broadcast_time := Some (ni_now i),
                ng_retry_count := Suc (ng_retry_count st)\<rparr>))"

definition poll_without_responses ::
    "'p negotiation_channel \<Rightarrow> 'p negotiation_state \<Rightarrow> 'p negotiation_input \<Rightarrow>
     (anyhow, 'p negotiation_channel \<times> 'p negotiation_state \<times> 'p service_to_worker_msg list) res" where
  "poll_without_responses c st i =
     bindR (unwrap (nc_agent c)) (\<lambda>agent.
       let (st1, cmds) = wait_for_connections st i in
       if should_broadcast st1 (ni_now i)
       then bindR (send_broadcast c st1 agent i) (\<lambda>(c2, st2). Inr (c2, st2, cmds))
       else Inr (c, st1, cmds))"

text \<open>The end of a poll: the timer gives the room back to phase 1, otherwise the state is
  put back.\<close>

definition poll_timeout ::
    "'p negotiation_channel \<Rightarrow> 'p negotiation_state \<Rightarrow> 'p negotiation_input \<Rightarrow>
     (anyhow, 'p negotiation_channel \<times> 'p negotiation_msg poll) res" where
  "poll_timeout c st i =
     (if fired (ni_now i) (nc_timeout c) then
        bindR (unwrap (nc_rx c)) (\<lambda>rx.
          let (ch, tx) = phase1_new (ng_id st) rx (ng_network_service st) (ni_oneshot i) in
          Inr (c\<lparr>nc_rx := None\<rparr>, Ready (NAbort (ng_id st) ch tx (Some (ng_pending_response st)))))
      else Inr (c\<lparr>nc_state := Some st\<rparr>, Pending))"

definition negotiation_poll ::
    "varint_ops \<Rightarrow> 'p peer_id_ops \<Rightarrow> 'p negotiation_channel \<Rightarrow> 'p negotiation_input \<Rightarrow>
     (anyhow, 'p negotiation_channel \<times> 'p service_to_worker_msg list \<times> 'p negotiation_msg poll) res" where
  "negotiation_poll V P c0 i =
     bindR (unwrap (nc_state c0)) (\<lambda>st0.
       let c = c0\<lparr>nc_state := None\<rparr>;
           sent = ng_pending_futures st0;
           st = st0\<lparr>ng_pending_futures := []\<rparr> in
       case ng_responses st of
         Some _ \<Rightarrow>
           bindR (on_response V P c st i) (\<lambda>r. case r of
             Inl (c1, cmds, msg) \<Rightarrow> Inr (c1, sent @ cmds, Ready msg)
           | Inr st1 \<Rightarrow>
               bindR (poll_timeout c st1 i) (\<lambda>(c2, out). Inr (c2, sent, out)))
       | None \<Rightarrow>
           bindR (poll_without_responses c st i) (\<lambda>(c1, st1, cmds).
           bindR (poll_timeout c1 st1 i) (\<lambda>(c2, out). Inr (c2, sent @ cmds, out))))"

text \<open>Polling until the negotiation is decided.\<close>

fun negotiation_run ::
    "varint_ops \<Rightarrow> 'p peer_id_ops \<Rightarrow> 'p negotiation_channel \<Rightarrow> 'p negotiation_input list \<Rightarrow>
     (anyhow, 'p negotiation_channel \<times> 'p service_to_worker_msg list \<times> 'p negotiation_msg poll) res" where
  "negotiation_run V P c [] = Inr (c, [], Pending)"
| "negotiation_run V P c (i # is) =
     bindR (negotiation_poll V P c i) (\<lambda>(c1, cmds, out). case out of
       Ready msg \<Rightarrow> Inr (c1, cmds, Ready msg)
     | Pending \<Rightarrow> bindR (negotiation_run V P c1 is) (\<lambda>(c2, cmds', out'). Inr (c2, cmds @ cmds', out')))"

section \<open>What a poll keeps\<close>

text \<open>The parameters of a negotiation, which no poll changes.\<close>

definition negotiation_params where
  "negotiation_params st =
     (ng_id st, ng_session_id st, ng_n st, ng_request st, ng_network_service st, ng_pending_response st)"

lemma start_probe_frame:
  "negotiation_params (fst (start_probe st i)) = negotiation_params st"
  "ng_peers (fst (start_probe st i)) = ng_peers st"
  "ng_last_broadcast_time (fst (start_probe st i)) = ng_last_broadcast_time st"
  "ng_pending_futures (fst (start_probe st i)) = ng_pending_futures st"
  "ng_connection_wait_done (fst (start_probe st i)) = ng_connection_wait_done st"
  by (simp_all add: start_probe_def negotiation_params_def)

lemma poll_probe_frame:
  "negotiation_params (poll_probe t st i) = negotiation_params st"
  "ng_peers (poll_probe t st i) = ng_peers st"
  "ng_last_broadcast_time (poll_probe t st i) = ng_last_broadcast_time st"
  "ng_pending_futures (poll_probe t st i) = ng_pending_futures st"
  by (simp_all add: poll_probe_def negotiation_params_def split: option.splits poll.splits)

lemma wait_for_connections_frame:
  assumes "wait_for_connections st i = (st', cmds)"
  shows "negotiation_params st' = negotiation_params st" and "ng_peers st' = ng_peers st"
    and "ng_last_broadcast_time st' = ng_last_broadcast_time st"
    and "ng_pending_futures st' = ng_pending_futures st"
proof -
  let ?t = "case ng_connection_wait_start st of None \<Rightarrow> ni_now i | Some t \<Rightarrow> t"
  let ?s = "st\<lparr>ng_connection_wait_start := Some ?t\<rparr>"
  have "st' = poll_probe ?t (fst (start_probe ?s i)) i \<or> st' = st\<lparr>ng_connection_wait_done := True\<rparr>"
    using assms by (auto simp: wait_for_connections_def Let_def split: if_splits prod.splits)
  then show "negotiation_params st' = negotiation_params st" and "ng_peers st' = ng_peers st"
    and "ng_last_broadcast_time st' = ng_last_broadcast_time st"
    and "ng_pending_futures st' = ng_pending_futures st"
    by (elim disjE; simp add: poll_probe_frame start_probe_frame; simp add: negotiation_params_def)+
qed

text \<open>The timer moves once, on the first broadcast.\<close>

definition timer_step ::
    "instant \<Rightarrow> 'p negotiation_channel \<times> 'p negotiation_state \<Rightarrow>
     'p negotiation_channel \<times> 'p negotiation_state \<Rightarrow> bool" where
  "timer_step now = (\<lambda>(c, st) (c', st').
     nc_timeout c' = nc_timeout c \<and>
       (ng_last_broadcast_time st' = None \<longleftrightarrow> ng_last_broadcast_time st = None) \<or>
     ng_last_broadcast_time st = None \<and> ng_last_broadcast_time st' = Some now \<and>
       nc_timeout c' = now + from_secs 15)"

lemma poll_without_responses_frame:
  assumes "poll_without_responses c st i = Inr (c', st', cmds)"
  shows "negotiation_params st' = negotiation_params st \<and> ng_peers st' = ng_peers st \<and>
    nc_rx c' = nc_rx c \<and> nc_agent c' = nc_agent c \<and> nc_state c' = nc_state c \<and>
    timer_step (ni_now i) (c, st) (c', st')"
proof -
  obtain st1 where w: "wait_for_connections st i = (st1, cmds)"
    and "(c', st') = (c, st1) \<or> (\<exists>ag. send_broadcast c st1 ag i = Inr (c', st'))"
    using assms by (cases "wait_for_connections st i") (auto simp: poll_without_responses_def split: if_splits)
  then show ?thesis
    using wait_for_connections_frame [OF w]
    by (auto simp: send_broadcast_def negotiation_params_def timer_step_def sleep_def Let_def
        split: if_splits)
qed

lemma poll_timeout_cases:
  "poll_timeout c st i = Inr (c', Pending) \<longleftrightarrow>
     \<not> fired (ni_now i) (nc_timeout c) \<and> c' = c\<lparr>nc_state := Some st\<rparr>"
  "poll_timeout c st i = Inr (c', Ready m) \<longleftrightarrow>
     fired (ni_now i) (nc_timeout c) \<and> c' = c\<lparr>nc_rx := None\<rparr> \<and>
     (\<exists>rx. nc_rx c = Some rx \<and>
       m = NAbort (ng_id st) (fst (phase1_new (ng_id st) rx (ng_network_service st) (ni_oneshot i)))
             (ni_oneshot i) (Some (ng_pending_response st)))"
  by (auto simp: poll_timeout_def phase1_new_def)

text \<open>A response adds at most one peer, and the set stays short of \<open>n\<close> unless it was past it.\<close>

definition peers_step :: "'p negotiation_input \<Rightarrow> 'p negotiation_state \<Rightarrow> 'p negotiation_state \<Rightarrow> bool" where
  "peers_step i st st' \<longleftrightarrow>
     ng_peers st' = ng_peers st \<or>
     (\<exists>p b. ni_response i = Ready (Some (Inr (p, b))) \<and> p \<notin> set (ng_peers st) \<and>
        ng_peers st' = ng_peers st @ [p] \<and> length (ng_peers st') \<noteq> unat (ng_n st))"

lemma on_response_continues:
  assumes "on_response V P c st i = Inr (Inr st')"
  shows "negotiation_params st' = negotiation_params st \<and> peers_step i st st' \<and>
    ng_last_broadcast_time st' = ng_last_broadcast_time st"
  using assms
  by (auto simp: on_response_def peers_step_def negotiation_params_def Let_def
      split: poll.splits option.splits sum.splits if_splits)

lemma negotiation_poll_responses:
  assumes "nc_state c = Some st0" and "ng_responses st0 = Some r"
    and "negotiation_poll V P c i = Inr (c', cmds, out)"
  shows "(\<exists>cmds1 msg. on_response V P (c\<lparr>nc_state := None\<rparr>) (st0\<lparr>ng_pending_futures := []\<rparr>) i =
        Inr (Inl (c', cmds1, msg)) \<and> cmds = ng_pending_futures st0 @ cmds1 \<and> out = Ready msg) \<or>
    (\<exists>st1. on_response V P (c\<lparr>nc_state := None\<rparr>) (st0\<lparr>ng_pending_futures := []\<rparr>) i = Inr (Inr st1) \<and>
        poll_timeout (c\<lparr>nc_state := None\<rparr>) st1 i = Inr (c', out))"
proof -
  obtain x where x: "on_response V P (c\<lparr>nc_state := None\<rparr>) (st0\<lparr>ng_pending_futures := []\<rparr>) i = Inr x"
    using assms by (auto simp: negotiation_poll_def Let_def)
  with assms show ?thesis by (cases x) (auto simp: negotiation_poll_def Let_def)
qed

text \<open>A session starts from the response branch only.\<close>

lemma on_response_starts:
  assumes "on_response V P c st i = Inr (Inl x)"
  shows "\<exists>p b. ni_response i = Ready (Some (Inr (p, b))) \<and>
    negotiation_start V P c (st\<lparr>ng_peers := (if p \<in> set (ng_peers st) then ng_peers st
      else ng_peers st @ [p])\<rparr>) i = Inr x \<and>
    length (if p \<in> set (ng_peers st) then ng_peers st else ng_peers st @ [p]) = unat (ng_n st)"
  using assms
  by (auto simp: on_response_def Let_def
      split: option.split_asm sum.split_asm poll.split_asm if_split_asm)

lemma negotiation_start_not_abort:
  "negotiation_start V P c st i \<noteq> Inr (c', cmds, NAbort room ch tx resp)"
  by (auto simp: negotiation_start_def proxy_new_def Let_def)

lemma negotiation_poll_pending:
  assumes "negotiation_poll V P c i = Inr (c', cmds, Pending)"
  shows "\<exists>st st'. nc_state c = Some st \<and> nc_state c' = Some st' \<and>
    negotiation_params st' = negotiation_params st \<and> peers_step i st st' \<and>
    nc_rx c' = nc_rx c \<and> nc_agent c' = nc_agent c \<and> ni_now i < nc_timeout c' \<and>
    timer_step (ni_now i) (c, st) (c', st')"
proof -
  obtain st0 where st0: "nc_state c = Some st0"
    using assms by (auto simp: negotiation_poll_def)
  define st where "st = st0\<lparr>ng_pending_futures := []\<rparr>"
  define d where "d = c\<lparr>nc_state := None\<rparr>"
  have frame: "negotiation_params st = negotiation_params st0" "ng_peers st = ng_peers st0"
    "ng_last_broadcast_time st = ng_last_broadcast_time st0" "ng_n st = ng_n st0"
    "nc_rx d = nc_rx c" "nc_agent d = nc_agent c" "nc_timeout d = nc_timeout c"
    by (simp_all add: st_def d_def negotiation_params_def)
  show ?thesis
  proof (cases "ng_responses st")
    case None
    with assms st0 obtain c1 st1 cmds1 where w: "poll_without_responses d st i = Inr (c1, st1, cmds1)"
      and t: "poll_timeout c1 st1 i = Inr (c', Pending)"
      by (auto simp: negotiation_poll_def st_def d_def Let_def)
    from t poll_without_responses_frame [OF w] frame st0 show ?thesis
      by (auto simp: poll_timeout_cases fired_def timer_step_def peers_step_def)
  next
    case (Some r)
    with assms st0 obtain st1 where w: "on_response V P d st i = Inr (Inr st1)"
      and t: "poll_timeout d st1 i = Inr (c', Pending)"
      using negotiation_poll_responses [OF st0, of r V P i c' cmds Pending] by (auto simp: st_def d_def)
    from t on_response_continues [OF w] frame st0 show ?thesis
      by (auto simp: poll_timeout_cases fired_def timer_step_def peers_step_def)
  qed
qed

text \<open>A poll that completes: either the set became complete, or the timer fired.\<close>

lemma negotiation_poll_start:
  assumes "negotiation_poll V P c i = Inr (c', cmds, Ready (NStart ag resp rr proxy ps prx req sid))"
    and "nc_state c = Some st"
  shows "\<exists>p b cmds1. ni_response i = Ready (Some (Inr (p, b))) \<and>
    negotiation_start V P (c\<lparr>nc_state := None\<rparr>)
      (st\<lparr>ng_pending_futures := [],
          ng_peers := (if p \<in> set (ng_peers st) then ng_peers st else ng_peers st @ [p])\<rparr>) i =
      Inr (c', cmds1, NStart ag resp rr proxy ps prx req sid) \<and>
    cmds = ng_pending_futures st @ cmds1 \<and>
    length (if p \<in> set (ng_peers st) then ng_peers st else ng_peers st @ [p]) = unat (ng_n st)"
proof (cases "ng_responses st")
  case None
  with assms show ?thesis by (auto simp: negotiation_poll_def Let_def poll_timeout_cases)
next
  case (Some r)
  from negotiation_poll_responses [OF assms(2) Some assms(1)]
  obtain cmds1 where
    "on_response V P (c\<lparr>nc_state := None\<rparr>) (st\<lparr>ng_pending_futures := []\<rparr>) i =
        Inr (Inl (c', cmds1, NStart ag resp rr proxy ps prx req sid))"
    "cmds = ng_pending_futures st @ cmds1"
    by (auto simp: poll_timeout_cases)
  then show ?thesis using on_response_starts by fastforce
qed

lemma negotiation_poll_abort:
  assumes "negotiation_poll V P c i = Inr (c', cmds, Ready (NAbort room ch tx resp))"
  shows "\<exists>st rx. nc_state c = Some st \<and> nc_rx c = Some rx \<and> room = ng_id st \<and>
    (ch, tx) = phase1_new (ng_id st) rx (ng_network_service st) (ni_oneshot i) \<and>
    resp = Some (ng_pending_response st) \<and> nc_timeout c \<le> ni_now i"
proof -
  obtain st0 where st0: "nc_state c = Some st0"
    using assms by (auto simp: negotiation_poll_def)
  define st where "st = st0\<lparr>ng_pending_futures := []\<rparr>"
  define d where "d = c\<lparr>nc_state := None\<rparr>"
  have frame: "negotiation_params st = negotiation_params st0"
    "ng_last_broadcast_time st = ng_last_broadcast_time st0"
    "nc_rx d = nc_rx c" "nc_timeout d = nc_timeout c"
    by (simp_all add: st_def d_def negotiation_params_def)
  have "\<exists>c1 st1. negotiation_params st1 = negotiation_params st \<and> nc_rx c1 = nc_rx d \<and>
      timer_step (ni_now i) (d, st) (c1, st1) \<and>
      poll_timeout c1 st1 i = Inr (c', Ready (NAbort room ch tx resp))"
  proof (cases "ng_responses st")
    case None
    with assms st0 obtain c1 st1 cmds1 where w: "poll_without_responses d st i = Inr (c1, st1, cmds1)"
      and t: "poll_timeout c1 st1 i = Inr (c', Ready (NAbort room ch tx resp))"
      by (auto simp: negotiation_poll_def st_def d_def Let_def)
    with poll_without_responses_frame [OF w] show ?thesis by auto
  next
    case (Some r)
    with assms st0 obtain st1 where w: "on_response V P d st i = Inr (Inr st1)"
      and t: "poll_timeout d st1 i = Inr (c', Ready (NAbort room ch tx resp))"
      using negotiation_poll_responses [OF st0, of r V P i] on_response_starts
      by (fastforce simp: st_def d_def negotiation_start_not_abort)
    from on_response_continues [OF w] have "timer_step (ni_now i) (d, st) (d, st1)"
      by (simp add: timer_step_def)
    with t on_response_continues [OF w] show ?thesis by blast
  qed
  then obtain c1 st1 rx where t: "negotiation_params st1 = negotiation_params st" "nc_rx c1 = nc_rx d"
    "timer_step (ni_now i) (d, st) (c1, st1)" "fired (ni_now i) (nc_timeout c1)" "nc_rx c1 = Some rx"
    and m: "NAbort room ch tx resp = NAbort (ng_id st1)
        (fst (phase1_new (ng_id st1) rx (ng_network_service st1) (ni_oneshot i)))
        (ni_oneshot i) (Some (ng_pending_response st1))"
    unfolding poll_timeout_cases by blast
  from t(3,4) frame have "nc_timeout c \<le> ni_now i" by (auto simp: timer_step_def fired_def)
  moreover have "nc_rx c = Some rx" using t(2,5) frame by simp
  ultimately show ?thesis using m t(1) frame st0
    by (auto simp: negotiation_params_def phase1_new_def)
qed

section \<open>The invariant of a pending negotiation\<close>

definition negotiation_inv :: "'p negotiation_channel \<Rightarrow> bool" where
  "negotiation_inv c \<longleftrightarrow>
     nc_rx c \<noteq> None \<and> nc_agent c \<noteq> None \<and>
     (case nc_state c of
        None \<Rightarrow> False
      | Some st \<Rightarrow> distinct (ng_peers st) \<and> ng_network_service st \<in> set (ng_peers st) \<and>
          (2 \<le> unat (ng_n st) \<longrightarrow> length (ng_peers st) < unat (ng_n st)))"

lemma negotiation_new_inv: "negotiation_inv (negotiation_new now uuid room rx n req svc ag resp)"
  by (simp add: negotiation_inv_def negotiation_new_def)

lemma negotiation_poll_inv:
  assumes "negotiation_poll V P c i = Inr (c', cmds, Pending)" and "negotiation_inv c"
  shows "negotiation_inv c'"
  using negotiation_poll_pending [OF assms(1)] assms(2)
  by (auto simp: negotiation_inv_def peers_step_def negotiation_params_def)

text \<open>What pending polls preserve from the start holds wherever a run ends.\<close>

lemma negotiation_run_pending_induct [consumes 1, case_names start step]:
  assumes "negotiation_run V P c is = Inr (c', cmds, Pending)" and "Q c"
    and "\<And>c i c' cmds. i \<in> set is \<Longrightarrow> negotiation_poll V P c i = Inr (c', cmds, Pending) \<Longrightarrow> Q c \<Longrightarrow> Q c'"
  shows "Q c'"
  using assms
proof (induction "is" arbitrary: c cmds)
  case Nil
  then show ?case by simp
next
  case (Cons i "is")
  obtain c1 cmds1 out where p: "negotiation_poll V P c i = Inr (c1, cmds1, out)"
    using Cons.prems(1) by auto
  with Cons.prems(1) obtain cmds2 where "out = Pending"
    and r: "negotiation_run V P c1 is = Inr (c', cmds2, Pending)"
    by (cases out) auto
  with p Cons.prems(2,3) have "Q c1" by (meson list.set_intros(1))
  with r Cons.IH Cons.prems(3) show ?case by (meson list.set_intros(2))
qed

text \<open>A run that is decided ends with a poll that decides it, from a state that a pending
  run reached.\<close>

lemma negotiation_run_ready:
  assumes "negotiation_run V P c is = Inr (c', cmds, Ready msg)"
  shows "\<exists>xs i ys c1 cmds1 cmds2. is = xs @ i # ys \<and> negotiation_run V P c xs = Inr (c1, cmds1, Pending) \<and>
    negotiation_poll V P c1 i = Inr (c', cmds2, Ready msg) \<and> cmds = cmds1 @ cmds2"
  using assms
proof (induction "is" arbitrary: c cmds)
  case Nil
  then show ?case by simp
next
  case (Cons i "is")
  obtain c1 cmds1 out where p: "negotiation_poll V P c i = Inr (c1, cmds1, out)"
    using Cons.prems by auto
  show ?case
  proof (cases out)
    case (Ready m)
    with Cons.prems p have "negotiation_poll V P c i = Inr (c', cmds, Ready msg)" by auto
    then have "i # is = [] @ i # is \<and> negotiation_run V P c [] = Inr (c, [], Pending) \<and>
        negotiation_poll V P c i = Inr (c', cmds, Ready msg) \<and> cmds = [] @ cmds" by simp
    then show ?thesis by blast
  next
    case Pending
    with Cons.prems p obtain cmds2 where "negotiation_run V P c1 is = Inr (c', cmds2, Ready msg)"
      and c: "cmds = cmds1 @ cmds2" by auto
    from Cons.IH [OF this(1)] obtain xs j ys c2 e1 e2 where "is = xs @ j # ys"
      "negotiation_run V P c1 xs = Inr (c2, e1, Pending)"
      "negotiation_poll V P c2 j = Inr (c', e2, Ready msg)" "cmds2 = e1 @ e2" by blast
    with p Pending c have "i # is = (i # xs) @ j # ys \<and>
        negotiation_run V P c (i # xs) = Inr (c2, cmds1 @ e1, Pending) \<and>
        negotiation_poll V P c2 j = Inr (c', e2, Ready msg) \<and> cmds = (cmds1 @ e1) @ e2" by simp
    then show ?thesis by blast
  qed
qed

section \<open>Collected peers only grow\<close>

text \<open>A poll as a transition: a decided or panicking poll leaves the channel as it was.\<close>

definition negotiation_step ::
    "varint_ops \<Rightarrow> 'p peer_id_ops \<Rightarrow> 'p negotiation_channel \<Rightarrow> 'p negotiation_input \<Rightarrow>
     'p negotiation_channel" where
  "negotiation_step V P c i =
     (case negotiation_poll V P c i of Inr (c', _, Pending) \<Rightarrow> c' | _ \<Rightarrow> c)"

definition collected :: "'p negotiation_channel \<Rightarrow> 'p set" where
  "collected c = (case nc_state c of None \<Rightarrow> {} | Some st \<Rightarrow> set (ng_peers st))"

lemma negotiation_step_cases:
  "negotiation_step V P c i = c \<or>
   (\<exists>cmds. negotiation_poll V P c i = Inr (negotiation_step V P c i, cmds, Pending))"
  by (auto simp: negotiation_step_def split: sum.splits poll.splits)

interpretation neg_grows: monotone_system "negotiation_step V P" collected
proof
  fix c :: "'a negotiation_channel" and i
  from negotiation_step_cases [of V P c i] show "collected c \<le> collected (negotiation_step V P c i)"
  proof
    assume "\<exists>cmds. negotiation_poll V P c i = Inr (negotiation_step V P c i, cmds, Pending)"
    then show ?thesis
      by (fastforce dest: negotiation_poll_pending simp: collected_def peers_step_def)
  qed simp
qed

interpretation neg_inv: invariant_system "negotiation_step V P" negotiation_inv
proof
  fix c :: "'a negotiation_channel" and i
  assume "negotiation_inv c"
  with negotiation_step_cases [of V P c i] show "negotiation_inv (negotiation_step V P c i)"
    by (auto dest: negotiation_poll_inv)
qed

text \<open>A negotiation that is still pending keeps its parameters, agent and receiver.\<close>

lemma negotiation_run_keeps:
  assumes "negotiation_run V P (negotiation_new t uuid room rx n req me ag resp) is = Inr (c', cmds, Pending)"
  shows "\<exists>st. nc_state c' = Some st \<and> negotiation_params st = (room, uuid, n, req, me, resp) \<and>
    nc_rx c' = Some rx \<and> nc_agent c' = Some ag \<and> negotiation_inv c'"
  using assms
proof (induction rule: negotiation_run_pending_induct)
  case start
  show ?case by (simp add: negotiation_new_inv) (simp add: negotiation_new_def negotiation_params_def)
next
  case (step c i c' cmds)
  then show ?case
    using negotiation_poll_pending [OF step(2)] negotiation_poll_inv [OF step(2)] by auto
qed

lemma negotiation_start_result:
  assumes "negotiation_start V P c st i = Inr (c', cmds, NStart ag resp rr proxy ps prx req sid)"
  shows "ps = peerset_new P (ng_peers st) (ng_network_service st) \<and>
    nc_agent c = Some ag \<and> resp = ng_pending_response st \<and> req = ng_request st \<and>
    sid = ng_session_id st \<and>
    (\<exists>rx. nc_rx c = Some rx \<and>
       (proxy, rr) = proxy_new (ng_id st) rx (ng_network_service st) ps sid [] (ni_channel i)) \<and>
    cmds = ng_pending_futures st @
      [multicast_message (ng_id st) (ng_peers st)
        \<lparr>message_type = Coordination, protocol_id = ag_protocol_id ag, session_id = sid, message_id = 0\<rparr>
        (start_msg_to_bytes V P \<lparr>sm_peerset = ps, sm_body = req\<rparr>) None]"
  using assms by (auto simp: negotiation_start_def Let_def proxy_new_def)

lemma negotiation_run_start:
  assumes "negotiation_run V P (negotiation_new t uuid room rx n req me ag resp) is =
      Inr (c', cmds, Ready (NStart ag' resp' rr proxy ps prx req' sid))"
  shows "\<exists>qs cmds0. distinct qs \<and> me \<in> set qs \<and> length qs = unat n \<and> ps = peerset_new P qs me \<and>
    ag' = ag \<and> resp' = resp \<and> req' = req \<and> sid = uuid \<and>
    (proxy, rr) = proxy_new room rx me ps uuid [] rr \<and>
    cmds = cmds0 @ [multicast_message room qs
      \<lparr>message_type = Coordination, protocol_id = ag_protocol_id ag, session_id = uuid, message_id = 0\<rparr>
      (start_msg_to_bytes V P \<lparr>sm_peerset = ps, sm_body = req\<rparr>) None]"
proof -
  obtain xs i c1 e1 e2 where run: "negotiation_run V P (negotiation_new t uuid room rx n req me ag resp) xs =
      Inr (c1, e1, Pending)" and poll: "negotiation_poll V P c1 i =
      Inr (c', e2, Ready (NStart ag' resp' rr proxy ps prx req' sid))" and e: "cmds = e1 @ e2"
    using negotiation_run_ready [OF assms(1)] by blast
  obtain st where st: "nc_state c1 = Some st" "negotiation_params st = (room, uuid, n, req, me, resp)"
    "nc_rx c1 = Some rx" "nc_agent c1 = Some ag" "negotiation_inv c1"
    using negotiation_run_keeps [OF run] by blast
  obtain p b f where q: "negotiation_start V P (c1\<lparr>nc_state := None\<rparr>) (st\<lparr>ng_pending_futures := [],
      ng_peers := (if p \<in> set (ng_peers st) then ng_peers st else ng_peers st @ [p])\<rparr>) i =
      Inr (c', f, NStart ag' resp' rr proxy ps prx req' sid)" "e2 = ng_pending_futures st @ f"
    "length (if p \<in> set (ng_peers st) then ng_peers st else ng_peers st @ [p]) = unat (ng_n st)"
    using negotiation_poll_start [OF poll st(1)] by blast
  define qs where "qs = (if p \<in> set (ng_peers st) then ng_peers st else ng_peers st @ [p])"
  have qs: "distinct qs" "me \<in> set qs" "length qs = unat n"
    using st q(3) by (auto simp: negotiation_inv_def negotiation_params_def qs_def)
  note r = negotiation_start_result [OF q(1), folded qs_def]
  have "distinct qs \<and> me \<in> set qs \<and> length qs = unat n \<and> ps = peerset_new P qs me \<and>
    ag' = ag \<and> resp' = resp \<and> req' = req \<and> sid = uuid \<and>
    (proxy, rr) = proxy_new room rx me ps uuid [] rr \<and>
    cmds = (e1 @ ng_pending_futures st) @ [multicast_message room qs
      \<lparr>message_type = Coordination, protocol_id = ag_protocol_id ag, session_id = uuid, message_id = 0\<rparr>
      (start_msg_to_bytes V P \<lparr>sm_peerset = ps, sm_body = req\<rparr>) None]"
    using r st e q(2) qs by (auto simp: negotiation_params_def proxy_new_def)
  then show ?thesis by blast
qed

section \<open>Properties\<close>

text \<open>Node 20 negotiates for two parties; node 30 is connected and answers.\<close>

definition sample_poll :: "instant \<Rightarrow> (request_failure + byte \<times> bytes) option poll \<Rightarrow> byte negotiation_input" where
  "sample_poll now r =
     \<lparr>ni_now = now, ni_response = r, ni_probe = Ready {30}, ni_channel = 6, ni_peerset_rx = 7, ni_oneshot = 8\<rparr>"

abbreviation sample_negotiation :: "u16 \<Rightarrow> byte negotiation_channel" where
  "sample_negotiation n \<equiv>
     negotiation_new 0 (replicate 16 7) ''a1'' 3 n [1] 20 \<lparr>ag_protocol_id = 0\<rparr> 5"

lemmas negotiation_defs = negotiation_new_def negotiation_poll_def on_response_def negotiation_start_def
  poll_without_responses_def wait_for_connections_def start_probe_def poll_probe_def should_broadcast_def
  send_broadcast_def poll_timeout_def should_proceed_with_negotiation_def sleep_def fired_def
  proxy_new_def phase1_new_def

text \<open>
  C12: a negotiation starts a session only with exactly the number of parties that was
  asked for: the peerset has \<open>n\<close> distinct members in canonical order, the local peer among
  them, numbered from 0; the session runs under the negotiation's own session id, on the
  room's receiver, with the requested agent and body; and the last message to the
  network hands the start message of this very peerset to its members.
\<close>

theorem negotiation_starts_with_n_parties:
  assumes "negotiation_run V P (negotiation_new t uuid room rx n req me ag resp) is =
      Inr (c', cmds, Ready (NStart ag' resp' rr proxy ps prx req' sid))"
    and "peer_id_laws P"
  shows "wf_peerset ps \<and> peerset_size ps = unat n \<and> local_peer_id ps = me \<and>
    sorted (map (pid_to_bytes P) (peers ps)) \<and> parties ps = [0..<unat n] \<and>
    ag' = ag \<and> resp' = resp \<and> req' = req \<and> sid = uuid \<and>
    (proxy, rr) = proxy_new room rx me ps uuid [] rr \<and>
    (\<exists>qs cmds0. set qs = set (peers ps) \<and> cmds = cmds0 @
       [multicast_message room qs
         \<lparr>message_type = Coordination, protocol_id = ag_protocol_id ag, session_id = uuid, message_id = 0\<rparr>
         (start_msg_to_bytes V P \<lparr>sm_peerset = ps, sm_body = req\<rparr>) None])"
proof -
  obtain qs cmds0 where qs: "distinct qs" "me \<in> set qs" "length qs = unat n"
    and ps: "ps = peerset_new P qs me"
    and r: "ag' = ag" "resp' = resp" "req' = req" "sid = uuid" "(proxy, rr) = proxy_new room rx me ps uuid [] rr"
      "cmds = cmds0 @ [multicast_message room qs
        \<lparr>message_type = Coordination, protocol_id = ag_protocol_id ag, session_id = uuid, message_id = 0\<rparr>
        (start_msg_to_bytes V P \<lparr>sm_peerset = ps, sm_body = req\<rparr>) None]"
    using negotiation_run_start [OF assms(1)] by blast
  have "unat n < 2 ^ 16" using unsigned_less [of n, where 'a = nat] by simp
  then have "wf_peerset ps" unfolding ps by (intro peerset_new_wf) (use assms(2) qs in simp_all)
  moreover have "set qs = set (peers ps)" "peerset_size ps = unat n" "local_peer_id ps = me"
    "sorted (map (pid_to_bytes P) (peers ps))" "parties ps = [0..<unat n]"
    using qs by (simp_all add: ps peerset_new_def peerset_size_def)
  ultimately show ?thesis using r by blast
qed

theorem negotiation_starts_with_n_parties_witness:
  "\<exists>c' cmds proxy ps. negotiation_run leb128 byte_peer_ops (sample_negotiation 2)
      [sample_poll 0 Pending, sample_poll 10 (Ready (Some (Inr (30, []))))] =
      Inr (c', cmds, Ready (NStart \<lparr>ag_protocol_id = 0\<rparr> 5 6 proxy ps 7 [1] (replicate 16 7))) \<and>
    peerset_size ps = 2 \<and> local_peer_id ps = 20"
proof -
  obtain c' cmds proxy ps where r: "negotiation_run leb128 byte_peer_ops (sample_negotiation 2)
      [sample_poll 0 Pending, sample_poll 10 (Ready (Some (Inr (30, []))))] =
      Inr (c', cmds, Ready (NStart \<lparr>ag_protocol_id = 0\<rparr> 5 6 proxy ps 7 [1] (replicate 16 7)))"
    by (simp add: negotiation_defs sample_poll_def Let_def)
  from negotiation_starts_with_n_parties [OF r byte_peer_laws] r show ?thesis by auto
qed

text \<open>
  C14: a negotiation always ends: when it is polled at least every \<open>g\<close> milliseconds, no
  poll later than 60 seconds and \<open>g\<close> after its creation leaves it pending. The two timers
  are 45 seconds until the first broadcast and 15 seconds from there.
\<close>

fun polled_every :: "nat \<Rightarrow> instant \<Rightarrow> instant list \<Rightarrow> bool" where
  "polled_every g t [] \<longleftrightarrow> True"
| "polled_every g t (x # xs) \<longleftrightarrow> t \<le> x \<and> x \<le> t + g \<and> polled_every g x xs"

lemma negotiation_deadline:
  assumes "negotiation_run V P c is = Inr (c', cmds, Pending)" and "polled_every g t (map ni_now is)"
    and "nc_state c = Some st"
    and "if ng_last_broadcast_time st = None then t \<le> T \<and> nc_timeout c = T
         else nc_timeout c \<le> T + g + from_secs 15"
  shows "\<forall>i \<in> set is. ni_now i < T + g + from_secs 15"
  using assms
proof (induction "is" arbitrary: c st t cmds)
  case Nil
  then show ?case by simp
next
  case (Cons i "is")
  obtain c1 e out where p: "negotiation_poll V P c i = Inr (c1, e, out)"
    using Cons.prems(1) by auto
  with Cons.prems(1) obtain e2 where out: "out = Pending"
    and r: "negotiation_run V P c1 is = Inr (c', e2, Pending)" by (cases out) auto
  obtain st1 where s1: "nc_state c1 = Some st1" and b: "ni_now i < nc_timeout c1"
    and ts: "timer_step (ni_now i) (c, st) (c1, st1)"
    using negotiation_poll_pending [OF p [unfolded out]] Cons.prems(3) by auto
  have t: "ni_now i \<le> t + g" "polled_every g (ni_now i) (map ni_now is)" using Cons.prems(2) by simp_all
  from ts Cons.prems(4) t(1) b have inv: "if ng_last_broadcast_time st1 = None
      then ni_now i \<le> T \<and> nc_timeout c1 = T else nc_timeout c1 \<le> T + g + from_secs 15"
    by (auto simp: timer_step_def split: if_splits)
  then have "ni_now i < T + g + from_secs 15" using b by (simp split: if_splits)
  with Cons.IH [OF r t(2) s1 inv] show ?case by simp
qed

theorem negotiation_ends_in_time:
  assumes "negotiation_run V P (negotiation_new t uuid room rx n req me ag resp) is = Inr (c', cmds, Pending)"
    and "polled_every g t (map ni_now is)"
  shows "\<forall>i \<in> set is. ni_now i < t + from_secs 60 + g"
  using negotiation_deadline [OF assms, where T = "t + from_secs 45"]
  by (fastforce simp: negotiation_new_def sleep_def)

theorem negotiation_ends_in_time_witness:
  "\<exists>c' cmds. negotiation_run leb128 byte_peer_ops (sample_negotiation 3)
      [sample_poll 0 Pending, sample_poll 9000 Pending] = Inr (c', cmds, Pending) \<and>
    (\<forall>i \<in> set [sample_poll 0 Pending, sample_poll 9000 Pending]. ni_now i < 0 + from_secs 60 + 10000)"
proof -
  obtain c' cmds where r: "negotiation_run leb128 byte_peer_ops (sample_negotiation 3)
      [sample_poll 0 Pending, sample_poll 9000 Pending] = Inr (c', cmds, Pending)"
    by (simp add: negotiation_defs sample_poll_def probe_interval_def Let_def)
  have "polled_every 10000 0 (map ni_now [sample_poll 0 Pending, sample_poll 9000 Pending])"
    by (simp add: sample_poll_def)
  from negotiation_ends_in_time [OF r this] r show ?thesis by blast
qed

text \<open>
  A negotiation that gives up loses nothing of the room: it gives up only after its
  45-second timer (or the 15 seconds from the first broadcast), hands the room's own
  receiver to a phase 1 channel with an empty buffer under the same room id, and returns
  the response channel of the local request, so that the caller can be told.
\<close>

lemma negotiation_abort_returns_room:
  assumes "negotiation_run V P (negotiation_new t uuid room rx n req me ag resp) is =
      Inr (c', cmds, Ready (NAbort room' ch tx resp'))"
  shows "room' = room \<and> resp' = Some resp \<and> (ch, tx) = phase1_new room rx me tx \<and>
    (\<exists>i \<in> set is. t + from_secs 45 \<le> ni_now i \<or> (\<exists>j \<in> set is. ni_now j + from_secs 15 \<le> ni_now i))"
proof -
  let ?c = "negotiation_new t uuid room rx n req me ag resp"
  obtain xs i ys c1 e1 e2 where split: "is = xs @ i # ys"
    and run: "negotiation_run V P ?c xs = Inr (c1, e1, Pending)"
    and poll: "negotiation_poll V P c1 i = Inr (c', e2, Ready (NAbort room' ch tx resp'))"
    using negotiation_run_ready [OF assms(1)] by blast
  obtain st where st: "nc_state c1 = Some st" "negotiation_params st = (room, uuid, n, req, me, resp)"
    "nc_rx c1 = Some rx"
    using negotiation_run_keeps [OF run] by blast
  have "nc_timeout c1 = t + from_secs 45 \<or> (\<exists>j \<in> set xs. nc_timeout c1 = ni_now j + from_secs 15)"
    using run
  proof (induction rule: negotiation_run_pending_induct)
    case start
    show ?case by (simp add: negotiation_new_def sleep_def)
  next
    case (step c j c' cmds)
    then show ?case using negotiation_poll_pending [OF step(2)] by (auto simp: timer_step_def)
  qed
  moreover have "nc_timeout c1 \<le> ni_now i" using negotiation_poll_abort [OF poll] by blast
  ultimately have "t + from_secs 45 \<le> ni_now i \<or> (\<exists>j \<in> set is. ni_now j + from_secs 15 \<le> ni_now i)"
    by (auto simp: split)
  then show ?thesis
    using negotiation_poll_abort [OF poll] st by (auto simp: negotiation_params_def phase1_new_def split)
qed

text \<open>
  A session of one party is never negotiated: with \<open>n = 1\<close> the local peer alone is
  already the whole set, but the set is only compared with \<open>n\<close> after a response, which
  makes it too large. Such a request ends with the timer.
\<close>

lemma single_party_never_starts:
  assumes "negotiation_run V P (negotiation_new t uuid room rx 1 req me ag resp) is = Inr (c', cmds, out)"
    and "\<And>i p b. i \<in> set is \<Longrightarrow> ni_response i = Ready (Some (Inr (p, b))) \<Longrightarrow> p \<noteq> me"
  shows "out = Pending \<or> (\<exists>ch tx. out = Ready (NAbort room ch tx (Some resp)))"
proof (cases out)
  case (Ready msg)
  let ?c = "negotiation_new t uuid room rx 1 req me ag resp"
  obtain xs i ys c1 e1 e2 where split: "is = xs @ i # ys"
    and run: "negotiation_run V P ?c xs = Inr (c1, e1, Pending)"
    and poll: "negotiation_poll V P c1 i = Inr (c', e2, Ready msg)"
    using negotiation_run_ready [OF assms(1) [unfolded Ready]] by blast
  obtain st where st: "nc_state c1 = Some st" "negotiation_params st = (room, uuid, 1, req, me, resp)"
    "negotiation_inv c1"
    using negotiation_run_keeps [OF run] by blast
  show ?thesis
  proof (cases msg)
    case (NStart a b c d e f g h)
    from negotiation_poll_start [OF poll [unfolded NStart] st(1)] obtain p b where
      "ni_response i = Ready (Some (Inr (p, b)))"
      and l: "length (if p \<in> set (ng_peers st) then ng_peers st else ng_peers st @ [p]) = unat (ng_n st)"
      by blast
    with assms(2) split have "p \<noteq> me" by auto
    moreover have "{me, p} \<subseteq> set (if p \<in> set (ng_peers st) then ng_peers st else ng_peers st @ [p])"
      using st by (auto simp: negotiation_inv_def negotiation_params_def)
    ultimately have "2 \<le> length (if p \<in> set (ng_peers st) then ng_peers st else ng_peers st @ [p])"
      by (metis card_2_iff card_length card_mono finite_set le_trans)
    with l st(2) show ?thesis by (simp add: negotiation_params_def)
  next
    case (NAbort a b c d)
    with negotiation_poll_abort [OF poll [unfolded NAbort]] st Ready show ?thesis
      by (auto simp: negotiation_params_def)
  qed
qed simp

end
