(* ===== verification/Coordination.thy ===== *)
theory Coordination
  imports Negotiation
begin

text \<open>
  The two phases of a room in \<open>service/src/coordination.rs\<close>. Phase 1 listens for a
  remote proposal or a local request; phase 2 has accepted a proposal and waits for its
  start message. Computation messages that arrive before the session exists are kept in
  a bounded buffer and move on with the room.
\<close>

section \<open>Data\<close>

record 'p phase2_channel =
  p2_id :: room_id
  p2_session_id :: session_id
  p2_rx :: "receiver option"
  p2_buffered :: "'p incoming_request list"
  p2_timeout :: instant
  p2_network_service :: 'p

datatype 'p phase1_msg =
    FromRemote 'p u64 bytes oneshot "'p phase2_channel"
  | FromLocal room_id u16 "'p negotiation_channel"

datatype 'p phase2_msg =
    P2Start room_id receiver "'p receiver_proxy" "'p peerset" receiver bytes session_id
  | P2Abort room_id "'p phase1_channel" oneshot

text \<open>The instant, the results of \<open>try_next\<close> and \<open>try_recv\<close>, a fresh session id and the
  identities of the channels that a poll may create.\<close>

record 'p phase_input =
  ph_now :: instant
  ph_try_next :: "'p incoming_request option"
  ph_try_recv :: "local_rpc_msg try_recv"
  ph_uuid :: session_id
  ph_channel :: receiver
  ph_peerset_rx :: receiver
  ph_oneshot :: oneshot

section \<open>Phase 1\<close>

text \<open>The end of a phase 1 poll: a local request takes the room into negotiation and the
  buffered messages of other sessions are refused.\<close>

definition phase1_local ::
    "'p phase1_channel \<Rightarrow> 'p effect list \<Rightarrow> 'p phase_input \<Rightarrow>
     (anyhow, 'p phase1_channel \<times> 'p effect list \<times> 'p phase1_msg poll) res" where
  "phase1_local s es i =
     (case ph_try_recv i of
        Canceled \<Rightarrow> Inl (Panic ''called `Result::unwrap()` on an `Err` value: Canceled'')
      | Empty \<Rightarrow> Inr (s, es, Pending)
      | Received m \<Rightarrow>
          bindR (unwrap (p1_rx s)) (\<lambda>rx.
            Inr (s\<lparr>p1_rx := None, p1_buffered := []\<rparr>, es @ reject_buffered (p1_buffered s),
                 Ready (FromLocal (p1_id s) (lr_n m)
                   (negotiation_new (ph_now i) (ph_uuid i) (p1_id s) rx (lr_n m) (lr_payload m)
                      (p1_network_service s) (lr_agent m) (lr_pending_response m))))))"

definition phase1_poll ::
    "'p phase1_channel \<Rightarrow> 'p phase_input \<Rightarrow>
     (anyhow, 'p phase1_channel \<times> 'p effect list \<times> 'p phase1_msg poll) res" where
  "phase1_poll s i =
     bindR (unwrap (p1_rx s)) (\<lambda>rx.
       case ph_try_next i of
         Some msg \<Rightarrow>
           (case message_type (ir_context msg) of
              Coordination \<Rightarrow>
                Inr (s\<lparr>p1_rx := None, p1_buffered := []\<rparr>, [],
                     Ready (FromRemote (ir_peer_id msg) (protocol_id (ir_context msg)) (ir_payload msg)
                       (ir_pending_response msg)
                       \<lparr>p2_id = p1_id s, p2_session_id = session_id (ir_context msg), p2_rx = Some rx,
                        p2_buffered = p1_buffered s, p2_timeout = sleep (ph_now i) (from_secs 15),
                        p2_network_service = p1_network_service s\<rparr>))
            | Computation \<Rightarrow>
                (let (b, es) = buffer_early_computation (p1_buffered s) msg in
                 phase1_local (s\<lparr>p1_buffered := b\<rparr>) es i))
       | None \<Rightarrow> phase1_local s [] i)"

section \<open>Phase 2\<close>

definition phase2_to_phase1 ::
    "'p phase2_channel \<Rightarrow> 'p phase_input \<Rightarrow> (anyhow, 'p phase1_channel \<times> oneshot) res" where
  "phase2_to_phase1 s i =
     bindR (unwrap (p2_rx s)) (\<lambda>rx.
       Inr (phase1_new (p2_id s) rx (p2_network_service s) (ph_oneshot i)))"

definition phase2_abort ::
    "'p phase2_channel \<Rightarrow> 'p phase_input \<Rightarrow>
     (anyhow, 'p effect list \<times> room_id \<times> 'p phase1_channel \<times> oneshot) res" where
  "phase2_abort s i =
     bindR (phase2_to_phase1 s i) (\<lambda>(ch, tx).
       Inr (reject_buffered (p2_buffered s), p2_id s, ch, tx))"

text \<open>Giving the room back from inside a poll.\<close>

definition phase2_give_up ::
    "'p phase2_channel \<Rightarrow> 'p effect list \<Rightarrow> 'p phase_input \<Rightarrow>
     (anyhow, 'p phase2_channel \<times> 'p effect list \<times> 'p phase2_msg poll) res" where
  "phase2_give_up s es i =
     bindR (phase2_to_phase1 s i) (\<lambda>(ch, tx).
       Inr (s\<lparr>p2_rx := None, p2_buffered := []\<rparr>, es @ reject_buffered (p2_buffered s),
            Ready (P2Abort (p2_id s) ch tx)))"

definition phase2_timeout ::
    "'p phase2_channel \<Rightarrow> 'p effect list \<Rightarrow> 'p phase_input \<Rightarrow>
     (anyhow, 'p phase2_channel \<times> 'p effect list \<times> 'p phase2_msg poll) res" where
  "phase2_timeout s es i =
     (if fired (ph_now i) (p2_timeout s) then phase2_give_up s es i else Inr (s, es, Pending))"

text \<open>A coordination message of the accepted session is its start message. The request is
  not answered: its response channel is dropped.\<close>

definition phase2_start ::
    "varint_ops \<Rightarrow> 'p peer_id_ops \<Rightarrow> 'p phase2_channel \<Rightarrow> 'p incoming_request \<Rightarrow> 'p phase_input \<Rightarrow>
     (anyhow, 'p phase2_channel \<times> 'p effect list \<times> 'p phase2_msg poll) res" where
  "phase2_start V P s msg i =
     (case start_msg_from_bytes V P (ir_payload msg) (p2_network_service s) of
        Inl (Panic e) \<Rightarrow> Inl (Panic e)
      | Inl (Fail _) \<Rightarrow>
          bindR (phase2_give_up s [] i) (\<lambda>(s', es, out). Inr (s', es @ [Discard msg], out))
      | Inr start_msg \<Rightarrow>
          bindR (unwrap (p2_rx s)) (\<lambda>rx.
            let (proxy, room_receiver) =
                  proxy_new (p2_id s) rx (p2_network_service s) (sm_peerset start_msg)
                    (p2_session_id s) (p2_buffered s) (ph_channel i) in
            Inr (s\<lparr>p2_rx := None, p2_buffered := []\<rparr>, [Discard msg],
                 Ready (P2Start (p2_id s) room_receiver proxy (sm_peerset start_msg) (ph_peerset_rx i)
                   (sm_body start_msg) (p2_session_id s)))))"

definition phase2_poll ::
    "varint_ops \<Rightarrow> 'p peer_id_ops \<Rightarrow> 'p phase2_channel \<Rightarrow> 'p phase_input \<Rightarrow>
     (anyhow, 'p phase2_channel \<times> 'p effect list \<times> 'p phase2_msg poll) res" where
  "phase2_poll V P s i =
     bindR (unwrap (p2_rx s)) (\<lambda>_.
       case ph_try_next i of
         Some msg \<Rightarrow>
           (case message_type (ir_context msg) of
              Coordination \<Rightarrow>
                (if session_id (ir_context msg) \<noteq> p2_session_id s then Inr (s, [reject msg], Pending)
                 else phase2_start V P s msg i)
            | Computation \<Rightarrow>
                (if session_id (ir_context msg) = p2_session_id s then
                   let (b, es) = buffer_early_computation (p2_buffered s) msg in
                   phase2_timeout (s\<lparr>p2_buffered := b\<rparr>) es i
                 else phase2_timeout s [reject msg] i))
       | None \<Rightarrow> phase2_timeout s [] i)"

section \<open>Results of the polls\<close>

text \<open>Requests are counted by their response channels: those of a list, and those that a
  list of effects has settled.\<close>

definition responses :: "'p incoming_request list \<Rightarrow> oneshot multiset" where
  "responses ms = mset (map ir_pending_response ms)"

definition settled :: "'p effect list \<Rightarrow> oneshot multiset" where
  "settled es = responses (map effect_request es)"

lemma responses_simps [simp]:
  "responses [] = {#}" "responses (m # ms) = add_mset (ir_pending_response m) (responses ms)"
  "responses (xs @ ys) = responses xs + responses ys"
  by (simp_all add: responses_def)

lemma settled_simps [simp]:
  "settled [] = {#}" "settled (e # es) = add_mset (ir_pending_response (effect_request e)) (settled es)"
  "settled (xs @ ys) = settled xs + settled ys"
  "settled (reject_buffered b) = responses b" "settled (map Discard b) = responses b"
  by (simp_all add: settled_def responses_def reject_buffered_def comp_def)

lemma buffer_early_computation_responses:
  "buffer_early_computation b m = (b', es) \<Longrightarrow> responses b' + settled es = add_mset (ir_pending_response m) (responses b)"
  by (auto simp: buffer_early_computation_def split: if_splits)

lemma buffer_early_computation_length:
  "buffer_early_computation b m = (b', es) \<Longrightarrow> length b \<le> 1024 \<Longrightarrow> length b' \<le> 1024"
  by (auto simp: buffer_early_computation_def MAX_EARLY_COMPUTATION_MESSAGES_def split: if_splits)

lemma phase1_local_cases:
  assumes "phase1_local s es i = Inr (s', es', out)"
  shows "(out = Pending \<and> s' = s \<and> es' = es) \<or>
    (\<exists>m rx. ph_try_recv i = Received m \<and> p1_rx s = Some rx \<and> es' = es @ reject_buffered (p1_buffered s) \<and>
      out = Ready (FromLocal (p1_id s) (lr_n m)
        (negotiation_new (ph_now i) (ph_uuid i) (p1_id s) rx (lr_n m) (lr_payload m)
           (p1_network_service s) (lr_agent m) (lr_pending_response m))))"
  using assms by (auto simp: phase1_local_def split: try_recv.splits)

text \<open>A phase 1 poll either hands the room with its buffer to phase 2, or buffers at most
  one request and then looks at the local request.\<close>

lemma phase1_poll_cases:
  assumes "phase1_poll s i = Inr (s', es, out)"
  obtains (remote) msg rx where "ph_try_next i = Some msg" "p1_rx s = Some rx" "es = []"
      "message_type (ir_context msg) = Coordination"
      "out = Ready (FromRemote (ir_peer_id msg) (protocol_id (ir_context msg)) (ir_payload msg)
        (ir_pending_response msg)
        \<lparr>p2_id = p1_id s, p2_session_id = session_id (ir_context msg), p2_rx = Some rx,
         p2_buffered = p1_buffered s, p2_timeout = sleep (ph_now i) (from_secs 15),
         p2_network_service = p1_network_service s\<rparr>)"
  | (continue) b es1 where "phase1_local (s\<lparr>p1_buffered := b\<rparr>) es1 i = Inr (s', es, out)"
      "length (p1_buffered s) \<le> 1024 \<Longrightarrow> length b \<le> 1024"
      "responses b + settled es1 = responses (opt_list (ph_try_next i)) + responses (p1_buffered s)"
proof (cases "ph_try_next i")
  case None
  with assms continue [of "p1_buffered s" "[]"] show ?thesis by (auto simp: phase1_poll_def)
next
  case (Some msg)
  show ?thesis
  proof (cases "message_type (ir_context msg)")
    case Coordination
    with Some assms remote show ?thesis by (auto simp: phase1_poll_def)
  next
    case Computation
    obtain b es1 where be: "buffer_early_computation (p1_buffered s) msg = (b, es1)" by fastforce
    with Some Computation assms have "phase1_local (s\<lparr>p1_buffered := b\<rparr>) es1 i = Inr (s', es, out)"
      by (auto simp: phase1_poll_def)
    then show ?thesis
      by (rule continue) (use buffer_early_computation_responses [OF be]
          buffer_early_computation_length [OF be] Some in simp_all)
  qed
qed

lemma phase2_give_up_result:
  "phase2_give_up s es i = Inr (s', es', out) \<longleftrightarrow>
   (\<exists>rx. p2_rx s = Some rx \<and> s' = s\<lparr>p2_rx := None, p2_buffered := []\<rparr> \<and>
      es' = es @ reject_buffered (p2_buffered s) \<and>
      out = Ready (P2Abort (p2_id s) (fst (phase1_new (p2_id s) rx (p2_network_service s) (ph_oneshot i)))
        (ph_oneshot i)))"
  by (auto simp: phase2_give_up_def phase2_to_phase1_def phase1_new_def)

text \<open>A phase 2 poll goes on with a bounded buffer, gives the room back or starts the
  session; every request it saw is buffered, settled or moved along.\<close>

lemma phase2_timeout_cases:
  "phase2_timeout s es i = Inr (s', es', out) \<longleftrightarrow>
     \<not> fired (ph_now i) (p2_timeout s) \<and> s' = s \<and> es' = es \<and> out = Pending \<or>
     fired (ph_now i) (p2_timeout s) \<and> phase2_give_up s es i = Inr (s', es', out)"
  by (auto simp: phase2_timeout_def)

lemma phase2_poll_cases:
  assumes "phase2_poll V P s i = Inr (s', es, out)"
  obtains (waits) b es1 where "phase2_timeout (s\<lparr>p2_buffered := b\<rparr>) es1 i = Inr (s', es, out)"
      "length (p2_buffered s) \<le> 1024 \<Longrightarrow> length b \<le> 1024"
      "responses b + settled es1 = responses (opt_list (ph_try_next i)) + responses (p2_buffered s)"
  | (foreign) msg where "ph_try_next i = Some msg" "s' = s" "es = [reject msg]" "out = Pending"
      "session_id (ir_context msg) \<noteq> p2_session_id s"
  | (starts) msg where "ph_try_next i = Some msg" "message_type (ir_context msg) = Coordination"
      "session_id (ir_context msg) = p2_session_id s" "phase2_start V P s msg i = Inr (s', es, out)"
proof (cases "ph_try_next i")
  case None
  with assms waits [of "p2_buffered s" "[]"] show ?thesis by (auto simp: phase2_poll_def)
next
  case (Some msg)
  show ?thesis
  proof (cases "message_type (ir_context msg)")
    case Coordination
    with Some assms foreign starts show ?thesis by (auto simp: phase2_poll_def split: if_splits)
  next
    case Computation
    show ?thesis
    proof (cases "session_id (ir_context msg) = p2_session_id s")
      case True
      obtain b es1 where be: "buffer_early_computation (p2_buffered s) msg = (b, es1)" by fastforce
      with Some Computation True assms have "phase2_timeout (s\<lparr>p2_buffered := b\<rparr>) es1 i = Inr (s', es, out)"
        by (auto simp: phase2_poll_def)
      then show ?thesis
        by (rule waits) (use buffer_early_computation_responses [OF be]
            buffer_early_computation_length [OF be] Some in simp_all)
    next
      case False
      with Some Computation assms have
        "phase2_timeout (s\<lparr>p2_buffered := p2_buffered s\<rparr>) [reject msg] i = Inr (s', es, out)"
        by (auto simp: phase2_poll_def)
      then show ?thesis by (rule waits) (use Some in simp_all)
    qed
  qed
qed

end
