(* ===== verification/Room.thy ===== *)
theory Room
  imports Coordination
begin

text \<open>
  The life of one room as a state machine. The service worker
  (\<open>service/src/worker.rs\<close>) moves the room between phase 1, phase 2, a negotiation and a
  running session according to what the polls of the previous theories return; here each
  such move is a rule. A step is labelled with the requests it takes from the room's
  receiver, the effects on requests and the response channels that it hands to the
  worker for answering.
\<close>

datatype 'p room =
    InPhase1 "'p phase1_channel"
  | InPhase2 "'p phase2_channel"
  | InNegotiation "'p negotiation_channel"
  | InSession "'p receiver_proxy"

inductive room_step ::
    "varint_ops \<Rightarrow> 'p peer_id_ops \<Rightarrow> 'p room \<Rightarrow> 'p incoming_request list \<Rightarrow> 'p effect list \<Rightarrow>
     oneshot list \<Rightarrow> 'p room \<Rightarrow> bool"
  for V :: varint_ops and P :: "'p peer_id_ops" where
  p1_pending: "phase1_poll s i = Inr (s', es, Pending) \<Longrightarrow>
    room_step V P (InPhase1 s) (opt_list (ph_try_next i)) es [] (InPhase1 s')"
| p1_remote: "phase1_poll s i = Inr (s', es, Ready (FromRemote peer pid payload tx ch)) \<Longrightarrow>
    room_step V P (InPhase1 s) (opt_list (ph_try_next i)) es [tx] (InPhase2 ch)"
| p1_local: "phase1_poll s i = Inr (s', es, Ready (FromLocal room n c)) \<Longrightarrow>
    room_step V P (InPhase1 s) (opt_list (ph_try_next i)) es [] (InNegotiation c)"
| p2_pending: "phase2_poll V P s i = Inr (s', es, Pending) \<Longrightarrow>
    room_step V P (InPhase2 s) (opt_list (ph_try_next i)) es [] (InPhase2 s')"
| p2_start: "phase2_poll V P s i = Inr (s', es, Ready (P2Start room rr proxy ps prx body sid)) \<Longrightarrow>
    room_step V P (InPhase2 s) (opt_list (ph_try_next i)) es [] (InSession proxy)"
| p2_abort: "phase2_poll V P s i = Inr (s', es, Ready (P2Abort room ch tx)) \<Longrightarrow>
    room_step V P (InPhase2 s) (opt_list (ph_try_next i)) es [] (InPhase1 ch)"
| p2_refused: "phase2_abort s i = Inr (es, room, ch, tx) \<Longrightarrow>
    room_step V P (InPhase2 s) [] es [] (InPhase1 ch)"
| neg_pending: "negotiation_poll V P c n = Inr (c', cmds, Pending) \<Longrightarrow>
    room_step V P (InNegotiation c) [] [] [] (InNegotiation c')"
| neg_start: "negotiation_poll V P c n = Inr (c', cmds, Ready (NStart ag resp rr proxy ps prx req sid)) \<Longrightarrow>
    room_step V P (InNegotiation c) [] [] [] (InSession proxy)"
| neg_abort: "negotiation_poll V P c n = Inr (c', cmds, Ready (NAbort room ch tx resp)) \<Longrightarrow>
    room_step V P (InNegotiation c) [] [] [] (InPhase1 ch)"
| proxy_pending: "proxy_poll s j = Inr (s', es, Pending) \<Longrightarrow>
    room_step V P (InSession s) (if rp_buffered s = [] then opt_list (pi_try_next j) else []) es []
      (InSession s')"
| proxy_done: "proxy_poll s j = Inr (s', es, Ready (room, ch, tx)) \<Longrightarrow>
    room_step V P (InSession s) [] (es @ map Discard (rp_buffered s')) [] (InPhase1 ch)"

text \<open>Paths accumulate the labels.\<close>

inductive room_path ::
    "varint_ops \<Rightarrow> 'p peer_id_ops \<Rightarrow> 'p room \<Rightarrow> 'p incoming_request list \<Rightarrow> 'p effect list \<Rightarrow>
     oneshot list \<Rightarrow> 'p room \<Rightarrow> bool"
  for V :: varint_ops and P :: "'p peer_id_ops" where
  path_refl: "room_path V P r [] [] [] r"
| path_step: "room_path V P r ms es txs r' \<Longrightarrow> room_step V P r' ms' es' txs' r'' \<Longrightarrow>
    room_path V P r (ms @ ms') (es @ es') (txs @ txs') r''"

section \<open>What a room holds\<close>

definition room_receiver :: "'p room \<Rightarrow> receiver option" where
  "room_receiver r =
     (case r of InPhase1 s \<Rightarrow> p1_rx s | InPhase2 s \<Rightarrow> p2_rx s
      | InNegotiation c \<Rightarrow> nc_rx c | InSession s \<Rightarrow> rp_request_receiver s)"

definition room_buffered :: "'p room \<Rightarrow> 'p incoming_request list" where
  "room_buffered r =
     (case r of InPhase1 s \<Rightarrow> p1_buffered s | InPhase2 s \<Rightarrow> p2_buffered s
      | InNegotiation c \<Rightarrow> [] | InSession s \<Rightarrow> rp_buffered s)"

definition room_name :: "'p room \<Rightarrow> room_id option" where
  "room_name r =
     (case r of InPhase1 s \<Rightarrow> Some (p1_id s) | InPhase2 s \<Rightarrow> Some (p2_id s)
      | InNegotiation c \<Rightarrow> map_option ng_id (nc_state c) | InSession s \<Rightarrow> Some (rp_room_id s))"

lemmas room_view_defs = room_receiver_def room_buffered_def room_name_def

text \<open>The invariant: the room owns its receiver and its name, and its buffer is bounded.\<close>

definition room_inv :: "receiver \<Rightarrow> room_id \<Rightarrow> 'p room \<Rightarrow> bool" where
  "room_inv rx name r \<longleftrightarrow>
     room_receiver r = Some rx \<and> room_name r = Some name \<and> length (room_buffered r) \<le> 1024"

text \<open>What one step does to the three views.\<close>

definition keeps :: "'p room \<Rightarrow> 'p incoming_request list \<Rightarrow> 'p effect list \<Rightarrow> oneshot list \<Rightarrow> 'p room \<Rightarrow> bool" where
  "keeps r ms es txs r' \<longleftrightarrow>
     (\<forall>rx name. room_inv rx name r \<longrightarrow> room_inv rx name r') \<and>
     responses ms + responses (room_buffered r) = settled es + mset txs + responses (room_buffered r')"

lemma keeps_phase1:
  assumes "phase1_poll s i = Inr (s', es, out)"
    and "r' = (case out of Pending \<Rightarrow> InPhase1 s' | Ready (FromRemote _ _ _ _ ch) \<Rightarrow> InPhase2 ch
           | Ready (FromLocal _ _ c) \<Rightarrow> InNegotiation c)"
    and "txs = (case out of Ready (FromRemote _ _ _ tx _) \<Rightarrow> [tx] | _ \<Rightarrow> [])"
  shows "keeps (InPhase1 s) (opt_list (ph_try_next i)) es txs r'"
  using assms(1)
proof (cases rule: phase1_poll_cases)
  case (remote msg rx)
  with assms show ?thesis by (simp add: keeps_def room_inv_def room_view_defs)
next
  case (continue b es1)
  from phase1_local_cases [OF continue(1)] continue(2,3) show ?thesis
    unfolding assms(2,3)
    by (elim disjE exE conjE)
      (simp_all add: keeps_def room_inv_def room_view_defs negotiation_new_def ac_simps)
qed

lemma keeps_phase2:
  assumes "phase2_poll V P s i = Inr (s', es, out)"
    and "r' = (case out of Pending \<Rightarrow> InPhase2 s' | Ready (P2Start _ _ proxy _ _ _ _) \<Rightarrow> InSession proxy
           | Ready (P2Abort _ ch _) \<Rightarrow> InPhase1 ch)"
  shows "keeps (InPhase2 s) (opt_list (ph_try_next i)) es [] r'"
  using assms(1)
proof (cases rule: phase2_poll_cases)
  case (waits b es1)
  then show ?thesis
    using assms(2)
    by (auto simp: phase2_timeout_cases phase2_give_up_result keeps_def room_inv_def room_view_defs
        phase1_new_def ac_simps)
next
  case (foreign msg)
  with assms(2) show ?thesis by (simp add: keeps_def)
next
  case (starts msg)
  then show ?thesis
    using assms(2)
    by (auto simp: phase2_start_def phase2_give_up_result keeps_def room_inv_def room_view_defs
        phase1_new_def proxy_new_def Let_def split: sum.split_asm fault.split_asm)
qed

lemma keeps_negotiation_pending:
  assumes "negotiation_poll V P c n = Inr (c', cmds, Pending)"
  shows "keeps (InNegotiation c) [] [] [] (InNegotiation c')"
  using negotiation_poll_pending [OF assms]
  by (auto simp: keeps_def room_inv_def room_view_defs negotiation_params_def)

lemma keeps_negotiation_start:
  assumes "negotiation_poll V P c n = Inr (c', cmds, Ready (NStart ag resp rr proxy ps prx req sid))"
  shows "keeps (InNegotiation c) [] [] [] (InSession proxy)"
proof -
  obtain st where st: "nc_state c = Some st"
    using assms by (auto simp: negotiation_poll_def)
  from negotiation_poll_start [OF assms st] obtain p st' f where
    s: "negotiation_start V P (c\<lparr>nc_state := None\<rparr>) st' n =
      Inr (c', f, NStart ag resp rr proxy ps prx req sid)" "ng_id st' = ng_id st"
    by fastforce
  from negotiation_start_result [OF s(1)] s(2) st show ?thesis
    by (auto simp: keeps_def room_inv_def room_view_defs proxy_new_def)
qed

lemma keeps_negotiation_abort:
  assumes "negotiation_poll V P c n = Inr (c', cmds, Ready (NAbort room ch tx resp))"
  shows "keeps (InNegotiation c) [] [] [] (InPhase1 ch)"
  using negotiation_poll_abort [OF assms]
  by (auto simp: keeps_def room_inv_def room_view_defs phase1_new_def)

lemma forward_or_reject_settled:
  "settled (forward_or_reject a m sid ps) = {#ir_pending_response m#}"
  by (auto simp: forward_or_reject_def Let_def split: option.splits)

lemma keeps_proxy:
  assumes "proxy_poll s j = Inr (s', es, out)"
  shows "(out = Pending \<longrightarrow>
      keeps (InSession s) (if rp_buffered s = [] then opt_list (pi_try_next j) else []) es [] (InSession s')) \<and>
    (\<forall>room ch tx. out = Ready (room, ch, tx) \<longrightarrow>
      keeps (InSession s) [] (es @ map Discard (rp_buffered s')) [] (InPhase1 ch))"
  using assms
  by (auto simp: proxy_poll_def keeps_def room_inv_def room_view_defs phase1_new_def comp_def
      forward_or_reject_settled split: if_splits list.splits option.splits)

lemma room_step_keeps: "room_step V P r ms es txs r' \<Longrightarrow> keeps r ms es txs r'"
proof (induction rule: room_step.induct)
  case (p2_refused s i es room ch tx)
  then show ?case
    by (auto simp: phase2_abort_def phase2_to_phase1_def phase1_new_def keeps_def room_inv_def
        room_view_defs)
qed (auto dest: keeps_phase1 keeps_phase2 keeps_negotiation_pending keeps_negotiation_start
    keeps_negotiation_abort keeps_proxy)

lemma room_path_keeps: "room_path V P r ms es txs r' \<Longrightarrow> keeps r ms es txs r'"
proof (induction rule: room_path.induct)
  case (path_refl r)
  show ?case by (simp add: keeps_def)
next
  case (path_step r ms es txs r' ms' es' txs' r'')
  with room_step_keeps [OF path_step(2)] show ?case
    by (auto simp: keeps_def) (metis (no_types, lifting) add.assoc add.commute)
qed

section \<open>Properties\<close>

text \<open>
  C9: a room never loses its receiver: through every sequence of proposals, refusals,
  negotiations, sessions, timeouts and aborts, the room that started in phase 1 is in
  exactly one of its states, that state owns the receiver and the name the room was
  created with, and at most 1024 early requests are buffered in it.
\<close>

theorem room_keeps_receiver:
  assumes "room_path V P (InPhase1 (fst (phase1_new name rx me ch))) ms es txs r"
  shows "room_receiver r = Some rx \<and> room_name r = Some name \<and> length (room_buffered r) \<le> 1024"
proof -
  have "room_inv rx name (InPhase1 (fst (phase1_new name rx me ch)))"
    by (simp add: room_inv_def room_view_defs phase1_new_def)
  with room_path_keeps [OF assms] show ?thesis by (simp add: keeps_def room_inv_def)
qed

text \<open>One step of a room: an early computation message of peer 30 is buffered.\<close>

definition sample_phase_input :: "byte phase_input" where
  "sample_phase_input =
     \<lparr>ph_now = 0, ph_try_next = Some (peer_request 7 30 2), ph_try_recv = Empty,
      ph_uuid = replicate 16 7, ph_channel = 6, ph_peerset_rx = 7, ph_oneshot = 8\<rparr>"

lemma sample_room_path:
  "\<exists>r. room_path V P (InPhase1 (fst (phase1_new ''a1'' 3 (20 :: byte) 1)))
     ([] @ opt_list (ph_try_next sample_phase_input)) ([] @ []) ([] @ []) r \<and> length (room_buffered r) = 1"
proof -
  obtain s' where p: "phase1_poll (fst (phase1_new ''a1'' 3 (20 :: byte) 1)) sample_phase_input = Inr (s', [], Pending)"
    and l: "length (p1_buffered s') = 1"
    by (simp add: phase1_poll_def phase1_new_def sample_phase_input_def peer_request_def
        buffer_early_computation_def MAX_EARLY_COMPUTATION_MESSAGES_def phase1_local_def)
  from path_step [OF path_refl p1_pending [OF p]] l show ?thesis
    by (fastforce simp: room_view_defs)
qed

theorem room_keeps_receiver_witness:
  "\<exists>ms es txs r. room_path leb128 byte_peer_ops (InPhase1 (fst (phase1_new ''a1'' 3 20 1))) ms es txs r \<and>
    length (room_buffered r) = 1 \<and> room_receiver r = Some 3"
proof -
  obtain r where r: "room_path leb128 byte_peer_ops (InPhase1 (fst (phase1_new ''a1'' 3 20 1)))
     ([] @ opt_list (ph_try_next sample_phase_input)) ([] @ []) ([] @ []) r" "length (room_buffered r) = 1"
    using sample_room_path by blast
  from room_keeps_receiver [OF r(1)] r show ?thesis by blast
qed

text \<open>
  C10: no request of a room is lost: whatever the room goes through, the requests taken
  from its receiver are, counted by response channel, exactly those that were answered,
  forwarded to a session or explicitly dropped, those whose response channel the worker
  holds, and those still buffered.
\<close>

theorem room_conserves_requests:
  assumes "room_path V P (InPhase1 (fst (phase1_new name rx me ch))) ms es txs r"
  shows "responses ms = settled es + mset txs + responses (room_buffered r)"
  using room_path_keeps [OF assms] by (simp add: keeps_def room_view_defs phase1_new_def)

theorem room_conserves_requests_witness:
  "\<exists>ms es txs r. room_path leb128 byte_peer_ops (InPhase1 (fst (phase1_new ''a1'' 3 20 1))) ms es txs r \<and>
    responses ms = {#2#} \<and> settled es + mset txs + responses (room_buffered r) = {#2#}"
proof -
  obtain r where r: "room_path leb128 byte_peer_ops (InPhase1 (fst (phase1_new ''a1'' 3 20 1)))
     ([] @ opt_list (ph_try_next sample_phase_input)) ([] @ []) ([] @ []) r"
    using sample_room_path by blast
  have "responses ([] @ opt_list (ph_try_next sample_phase_input)) = {#2#}"
    by (simp add: sample_phase_input_def peer_request_def)
  with room_conserves_requests [OF r] r show ?thesis by metis
qed

text \<open>
  C11: proposer and joiner agree on the session: when a negotiation starts a session, the
  encodings of its peerset and of its start message fit the buffer of 8192 bytes, and the
  start message reaches a node that waits in phase 2 of the same session id, that
  node starts a session with the same id, the same request body and the same peers and
  parties, so every peer has the same index on both sides; early computation messages
  that the joiner buffered are passed to its session.
\<close>

theorem proposer_and_joiner_agree:
  assumes "varint_laws V" and "peer_id_laws P"
    and "negotiation_run V P (negotiation_new t uuid room rx n req me ag resp) is =
      Inr (c', cmds, Ready (NStart ag' resp' rr proxy ps prx req' sid))"
    and "sendable V P \<lparr>sm_peerset = ps, sm_body = req\<rparr>"
    and "last cmds = Request room ctx (Multicast qs payload None)"
    and "ph_try_next i = Some msg" and "ir_context msg = ctx" and "ir_payload msg = payload"
    and "p2_session_id s = uuid" and "p2_rx s = Some rx2"
  shows "\<exists>s' proxy2. phase2_poll V P s i = Inr (s', [Discard msg],
      Ready (P2Start (p2_id s) (ph_channel i) proxy2 (ps\<lparr>local_peer_id := p2_network_service s\<rparr>)
        (ph_peerset_rx i) req sid)) \<and>
    rp_session_id proxy2 = rp_session_id proxy \<and> rp_buffered proxy2 = p2_buffered s \<and>
    (\<forall>p. index_of (rp_peerset proxy2) p = index_of (rp_peerset proxy) p)"
proof -
  obtain qs' cmds0 where r: "sid = uuid" "(proxy, rr) = proxy_new room rx me ps uuid [] rr"
      "cmds = cmds0 @ [multicast_message room qs'
        \<lparr>message_type = Coordination, protocol_id = ag_protocol_id ag, session_id = uuid, message_id = 0\<rparr>
        (start_msg_to_bytes V P \<lparr>sm_peerset = ps, sm_body = req\<rparr>) None]"
    using negotiation_run_start [OF assms(3)] by blast
  from r(3) assms(5) have ctx: "message_type ctx = Coordination" "session_id ctx = uuid"
    and payload: "payload = start_msg_to_bytes V P \<lparr>sm_peerset = ps, sm_body = req\<rparr>"
    by (auto simp: multicast_message_def)
  have "phase2_poll V P s i = phase2_start V P s msg i"
    using assms(6,7,9,10) ctx by (simp add: phase2_poll_def)
  moreover have "start_msg_from_bytes V P payload (p2_network_service s) =
      Inr \<lparr>sm_peerset = ps\<lparr>local_peer_id := p2_network_service s\<rparr>, sm_body = req\<rparr>"
    using start_msg_decodes [OF assms(1,2,4)] by (simp add: payload)
  ultimately show ?thesis
    using assms(8-10) r(1,2) by (simp add: phase2_start_def proxy_new_def index_of_def)
qed

definition duo :: "byte peerset" where
  "duo = \<lparr>local_peer_id = 20, peers = [20, 30], parties = [0, 1]\<rparr>"

lemma duo_negotiation:
  "\<exists>c' cmds proxy. negotiation_run leb128 byte_peer_ops (sample_negotiation 2)
      [sample_poll 0 Pending, sample_poll 10 (Ready (Some (Inr (30, []))))] =
      Inr (c', cmds, Ready (NStart \<lparr>ag_protocol_id = 0\<rparr> 5 6 proxy duo 7 [1] (replicate 16 7))) \<and>
    last cmds = Request ''a1'' \<lparr>message_type = Coordination, protocol_id = 0, session_id = replicate 16 7,
      message_id = 0\<rparr> (Multicast [20, 30] (start_msg_to_bytes leb128 byte_peer_ops
        \<lparr>sm_peerset = duo, sm_body = [1]\<rparr>) None)"
  by (simp add: negotiation_defs sample_poll_def Let_def duo_def peerset_new_def byte_peer_ops_def
      multicast_message_def upt_rec)

lemma duo_sendable: "sendable leb128 byte_peer_ops \<lparr>sm_peerset = duo, sm_body = [1]\<rparr>"
proof -
  have b: "peerset_bytes leb128 byte_peer_ops duo = [1, 20, 2, 1, 20, 1, 30, 2, 0, 1]"
    by (simp add: peerset_bytes_def peerset_chunks_def put_peer_id_def duo_def byte_peer_ops_def
        leb128_encode_small)
  have u: "usize_peerset duo" by (simp add: usize_peerset_def duo_def)
  have "peerset_to_bytes leb128 byte_peer_ops duo = peerset_bytes leb128 byte_peer_ops duo"
    using byte_peers.to_bytes_complete_iff [OF u] by (simp add: b DEFAULT_BUF_SIZE_def)
  with b u show ?thesis
    by (simp add: sendable_def start_msg_bytes_def start_msg_chunks_def Let_def leb128_encode_small)
qed

theorem proposer_and_joiner_agree_witness:
  "\<exists>c' cmds proxy payload. negotiation_run leb128 byte_peer_ops (sample_negotiation 2)
      [sample_poll 0 Pending, sample_poll 10 (Ready (Some (Inr (30, []))))] =
      Inr (c', cmds, Ready (NStart \<lparr>ag_protocol_id = 0\<rparr> 5 6 proxy duo 7 [1] (replicate 16 7))) \<and>
    (\<exists>s' es proxy2. phase2_poll leb128 byte_peer_ops
      \<lparr>p2_id = ''a1'', p2_session_id = replicate 16 7, p2_rx = Some 3, p2_buffered = [],
       p2_timeout = 15000, p2_network_service = 30\<rparr>
      (sample_phase_input\<lparr>ph_try_next := Some ((peer_request 7 20 2)
         \<lparr>ir_context := \<lparr>message_type = Coordination, protocol_id = 0, session_id = replicate 16 7, message_id = 0\<rparr>,
          ir_payload := payload\<rparr>)\<rparr>) =
      Inr (s', es, Ready (P2Start ''a1'' 6 proxy2 (duo\<lparr>local_peer_id := 30\<rparr>) 7 [1] (replicate 16 7))))"
proof -
  let ?ctx = "\<lparr>message_type = Coordination, protocol_id = 0, session_id = replicate 16 7, message_id = 0\<rparr>"
  obtain c' cmds proxy payload where r: "negotiation_run leb128 byte_peer_ops (sample_negotiation 2)
      [sample_poll 0 Pending, sample_poll 10 (Ready (Some (Inr (30, []))))] =
      Inr (c', cmds, Ready (NStart \<lparr>ag_protocol_id = 0\<rparr> 5 6 proxy duo 7 [1] (replicate 16 7)))"
    and l: "last cmds = Request ''a1'' ?ctx (Multicast [20, 30] payload None)"
    using duo_negotiation by blast
  let ?msg = "(peer_request 7 20 2)\<lparr>ir_context := ?ctx, ir_payload := payload\<rparr>"
  let ?s = "\<lparr>p2_id = ''a1'', p2_session_id = replicate 16 7, p2_rx = Some 3, p2_buffered = [],
       p2_timeout = 15000, p2_network_service = 30\<rparr>"
  have "\<exists>s' es proxy2. phase2_poll leb128 byte_peer_ops ?s (sample_phase_input\<lparr>ph_try_next := Some ?msg\<rparr>) =
      Inr (s', es, Ready (P2Start ''a1'' 6 proxy2 (duo\<lparr>local_peer_id := 30\<rparr>) 7 [1] (replicate 16 7)))"
    using proposer_and_joiner_agree [OF leb128_laws byte_peer_laws r duo_sendable l,
        of "sample_phase_input\<lparr>ph_try_next := Some ?msg\<rparr>" ?msg ?s 3]
    by (auto simp: sample_phase_input_def)
  with r show ?thesis by blast
qed

end
