(* ===== verification/Btree.thy ===== *)
theory Btree
  imports "HOL-Library.Multiset"
begin

text \<open>
  The part of \<open>std::collections::BTreeMap\<close> that the sources use: an association list
  whose keys are strictly increasing, which is also the order of iteration.
\<close>

type_synonym ('k, 'v) btree = "('k \<times> 'v) list"

definition bt_wf :: "('k :: linorder, 'v) btree \<Rightarrow> bool" where
  "bt_wf m \<longleftrightarrow> sorted_wrt (<) (map fst m)"

definition bt_get :: "'k \<Rightarrow> ('k, 'v) btree \<Rightarrow> 'v option" where
  "bt_get k m = map_of m k"

fun bt_insert :: "'k :: linorder \<Rightarrow> 'v \<Rightarrow> ('k, 'v) btree \<Rightarrow> ('k, 'v) btree" where
  "bt_insert k v [] = [(k, v)]"
| "bt_insert k v ((k', v') # m) =
     (if k < k' then (k, v) # (k', v') # m
      else if k = k' then (k, v) # m
      else (k', v') # bt_insert k v m)"

definition bt_remove :: "'k \<Rightarrow> ('k, 'v) btree \<Rightarrow> ('k, 'v) btree" where
  "bt_remove k m = filter (\<lambda>e. fst e \<noteq> k) m"

lemma bt_wf_simps [simp]:
  "bt_wf []"
  "bt_wf ((k, v) # m) \<longleftrightarrow> (\<forall>k' \<in> fst ` set m. k < k') \<and> bt_wf m"
  by (auto simp: bt_wf_def)

lemma keys_bt_insert: "fst ` set (bt_insert k v m) = insert k (fst ` set m)"
  by (induction k v m rule: bt_insert.induct) (simp_all add: insert_commute)

lemma bt_wf_insert [simp]: "bt_wf m \<Longrightarrow> bt_wf (bt_insert k v m)"
proof (induction m)
  case Nil
  then show ?case by simp
next
  case (Cons e m)
  obtain k' v' where e: "e = (k', v')" by fastforce
  with Cons show ?case by (auto simp: keys_bt_insert)
qed

lemma length_bt_insert_new: "bt_get k m = None \<Longrightarrow> length (bt_insert k v m) = Suc (length m)"
  by (induction m) (auto simp: bt_get_def split: if_splits)

lemma length_bt_insert_le: "length m \<le> length (bt_insert k v m)"
  by (induction m) auto

lemma bt_wf_remove [simp]: "bt_wf m \<Longrightarrow> bt_wf (bt_remove k m)"
  unfolding bt_wf_def bt_remove_def by (induction m) auto

lemma bt_get_insert [simp]:
  "bt_get j (bt_insert k v m) = (if j = k then Some v else bt_get j m)"
  by (induction m) (auto simp: bt_get_def)

lemma bt_get_remove [simp]:
  "bt_get j (bt_remove k m) = (if j = k then None else bt_get j m)"
  by (induction m) (auto simp: bt_get_def bt_remove_def)

lemma bt_get_None_iff: "bt_get k m = None \<longleftrightarrow> k \<notin> fst ` set m"
  by (simp add: bt_get_def map_of_eq_None_iff)

lemma bt_wf_distinct: "bt_wf m \<Longrightarrow> distinct (map fst m)"
  unfolding bt_wf_def by (induction m) auto

lemma bt_get_Some_iff: "bt_wf m \<Longrightarrow> bt_get k m = Some v \<longleftrightarrow> (k, v) \<in> set m"
  using bt_wf_distinct [of m] by (simp add: bt_get_def)

text \<open>Maps with the same entries are the same list, so equality of maps is equality of
  lists.\<close>

lemma bt_ext:
  assumes "bt_wf m" and "bt_wf m'" and "\<And>k. bt_get k m = bt_get k m'"
  shows "m = m'"
proof -
  have "set m = set m'"
    using bt_get_Some_iff [OF assms(1)] bt_get_Some_iff [OF assms(2)] assms(3) by auto
  with assms(1,2) show ?thesis
  proof (induction m arbitrary: m')
    case Nil
    then show ?case by simp
  next
    case (Cons e m)
    then obtain e' n where m': "m' = e' # n" by (cases m') auto
    obtain k v k' v' where e: "e = (k, v)" "e' = (k', v')" by fastforce
    have "k = k'"
    proof (rule ccontr)
      assume "k \<noteq> k'"
      with Cons.prems m' e have "(k, v) \<in> set n" "(k', v') \<in> set m" by auto
      with Cons.prems(1,2) m' e have "k' < k" "k < k'" by force+
      then show False by simp
    qed
    moreover from this have "v = v'"
      using Cons.prems m' e by (metis bt_get_Some_iff bt_get_def list.set_intros(1) map_of_Cons_code(2) option.inject)
    ultimately have "e = e'" by (simp add: e)
    moreover have "set m = set n"
      using Cons.prems m' e \<open>e = e'\<close> by auto (metis imageI order_less_irrefl fst_conv insert_iff prod.inject)+
    ultimately show ?case using Cons m' e by auto
  qed
qed

lemma bt_ext_Some:
  assumes "bt_wf m" and "bt_wf m'" and "\<And>k v. bt_get k m = Some v \<longleftrightarrow> bt_get k m' = Some v"
  shows "m = m'"
  using assms(1,2)
proof (rule bt_ext)
  show "bt_get k m = bt_get k m'" for k
    using assms(3) [of k] by (metis not_None_eq)
qed

text \<open>The elements of a map of lists: what an insertion adds and a removal takes away.\<close>

definition bt_elems :: "('k, 'a list) btree \<Rightarrow> 'a multiset" where
  "bt_elems m = mset (concat (map snd m))"

definition bt_list :: "'k \<Rightarrow> ('k, 'a list) btree \<Rightarrow> 'a list" where
  "bt_list k m = (case bt_get k m of None \<Rightarrow> [] | Some xs \<Rightarrow> xs)"

lemma bt_remove_absent: "bt_get k m = None \<Longrightarrow> bt_remove k m = m"
  by (auto simp: bt_get_None_iff bt_remove_def filter_id_conv)

lemma bt_elems_Cons [simp]: "bt_elems ((k, xs) # m) = mset xs + bt_elems m" "bt_elems [] = {#}"
  by (simp_all add: bt_elems_def)

lemma bt_list_Cons [simp]:
  "bt_list k ((k', xs) # m) = (if k = k' then xs else bt_list k m)" "bt_list k [] = []"
  by (simp_all add: bt_list_def bt_get_def)

lemma bt_elems_remove:
  assumes "bt_wf m"
  shows "mset (bt_list k m) + bt_elems (bt_remove k m) = bt_elems m"
  using assms
proof (induction m)
  case (Cons e m)
  obtain k' xs where e: "e = (k', xs)" by fastforce
  with Cons.prems have "k = k' \<Longrightarrow> bt_get k m = None" by (auto simp: bt_get_None_iff)
  with Cons e bt_remove_absent [of k m] show ?case by (auto simp: bt_remove_def)
qed (simp add: bt_remove_def)

lemma bt_remove_insert [simp]: "bt_remove k (bt_insert k v m) = bt_remove k m"
  by (induction m) (auto simp: bt_remove_def)

lemma bt_insert_again [simp]: "bt_insert k v (bt_insert k w m) = bt_insert k v m"
  by (induction m) auto

lemma bt_elems_insert:
  assumes "bt_wf m"
  shows "bt_elems (bt_insert k xs m) = mset xs + bt_elems (bt_remove k m)"
  using bt_elems_remove [of "bt_insert k xs m" k] assms by (simp add: bt_list_def)

end
