(* ===== verification/Echo.thy ===== *)
theory Echo
  imports Channels Btree
begin

text \<open>
  \<open>service/src/echo.rs\<close>: the echo broadcast. Every party hashes the messages of a round
  in the order of their senders, answers each sender with that hash and compares the
  hashes that the others return for its own message.

  The channels are inputs: a round reads its messages from the list \<open>inbox\<close>, the
  sender side being closed or not behind it, and the responses to the local message from
  the list that belongs to its response channel. A round that has to wait for more input
  is \<open>Blocked\<close>. BLAKE2s is the parameter \<open>H\<close>.
\<close>

section \<open>Data\<close>

datatype service_error =
    Busy
  | InconsistentEcho u16
  | EchoFailed request_failure
  | UnknownProtocolId u64
  | InternalError anyhow

datatype echo_response =
    Incoming oneshot
  | Outgoing receiver

record echo_message =
  em_message_id :: u64
  em_sender :: u16
  em_payload :: bytes
  em_response :: echo_response

text \<open>The heap of a message id is kept as the list of its elements; the code only uses its
  size, searches it and drains it into a vector that it sorts.\<close>

record echo_gadget =
  eg_r :: u16
  eg_n :: nat
  eg_msgs :: "(u64, echo_message list) btree"

definition echo_new :: "nat \<Rightarrow> echo_gadget" where
  "echo_new n = \<lparr>eg_r = 0, eg_n = n, eg_msgs = []\<rparr>"

section \<open>Collecting a round\<close>

definition is_outgoing :: "echo_message \<Rightarrow> bool" where
  "is_outgoing m = (case em_response m of Outgoing _ \<Rightarrow> True | Incoming _ \<Rightarrow> False)"

definition push_msg :: "echo_message \<Rightarrow> (u64, echo_message list) btree \<Rightarrow> (u64, echo_message list) btree" where
  "push_msg m msgs =
     bt_insert (em_message_id m)
       (bt_list (em_message_id m) msgs @ [m]) msgs"

definition ready_message_id :: "echo_gadget \<Rightarrow> u64 option" where
  "ready_message_id g =
     map_option fst (List.find (\<lambda>(_, ms). length ms = eg_n g \<and> list_ex is_outgoing ms) (eg_msgs g))"

type_synonym echo_acks = "(oneshot \<times> outgoing_response) list"

text \<open>The end of a part of a round: it has a result, the channel is closed with nothing
  pending (\<open>Ok(None)\<close>), or it waits, having sent some acknowledgements.\<close>

datatype 'a progress = Done 'a | Closed | Blocked echo_acks

definition bindP ::
    "('e, 'a progress) res \<Rightarrow> ('a \<Rightarrow> ('e, 'b progress) res) \<Rightarrow> ('e, 'b progress) res" where
  "bindP m f =
     bindR m (\<lambda>p. case p of
       Done x \<Rightarrow> f x | Closed \<Rightarrow> Inr Closed | Blocked acks \<Rightarrow> Inr (Blocked acks))"

lemma bindP_simps [simp]:
  "bindP (Inl e) f = Inl e" "bindP (Inr (Done x)) f = f x" "bindP (Inr Closed) f = Inr Closed"
  "bindP (Inr (Blocked acks)) f = Inr (Blocked acks)"
  by (simp_all add: bindP_def)

lemma bindP_Done [simp]:
  "bindP m f = Inr (Done y) \<longleftrightarrow> (\<exists>x. m = Inr (Done x) \<and> f x = Inr (Done y))"
  by (auto simp: bindP_def bindR_def split: sum.splits progress.splits)

fun await_ready ::
    "echo_gadget \<Rightarrow> echo_message list \<Rightarrow> bool \<Rightarrow>
     (service_error, (u64 \<times> echo_gadget \<times> echo_message list) progress) res" where
  "await_ready g inbox closed =
     (case ready_message_id g of
        Some mid \<Rightarrow> Inr (Done (mid, g, inbox))
      | None \<Rightarrow>
          (case inbox of
             m # rest \<Rightarrow> await_ready (g\<lparr>eg_msgs := push_msg m (eg_msgs g)\<rparr>) rest closed
           | [] \<Rightarrow>
               if \<not> closed then Inr (Blocked [])
               else if eg_msgs g = [] then Inr Closed
               else Inl (Fail (InternalError ''echo channel closed with pending messages''))))"

declare await_ready.simps [simp del]

text \<open>The second loop of the round, which completes the group.\<close>

fun complete_group ::
    "echo_gadget \<Rightarrow> u64 \<Rightarrow> echo_message list \<Rightarrow> echo_message list \<Rightarrow> bool \<Rightarrow>
     (service_error, (echo_message list \<times> echo_gadget \<times> echo_message list) progress) res" where
  "complete_group g mid grp inbox closed =
     (if length grp = eg_n g then Inr (Done (grp, g, inbox))
      else case inbox of
        m # rest \<Rightarrow>
          if em_message_id m = mid then complete_group g mid (grp @ [m]) rest closed
          else complete_group (g\<lparr>eg_msgs := push_msg m (eg_msgs g)\<rparr>) mid grp rest closed
      | [] \<Rightarrow>
          if closed then Inl (Fail (InternalError ''echo channel closed before message completed''))
          else Inr (Blocked []))"

declare complete_group.simps [simp del]

section \<open>Hashing a group\<close>

record group_scan =
  gs_hashed :: bytes
  gs_acks :: "oneshot list"
  gs_outgoing :: "receiver option"

fun scan_group ::
    "u16 list \<Rightarrow> group_scan \<Rightarrow> echo_message list \<Rightarrow> (service_error, group_scan) res" where
  "scan_group senders acc [] = Inr acc"
| "scan_group senders acc (m # ms) =
     (if em_sender m \<in> set senders then Inl (Fail (InconsistentEcho (em_sender m)))
      else scan_group (em_sender m # senders)
        (case em_response m of
           Incoming tx \<Rightarrow> acc\<lparr>gs_hashed := gs_hashed acc @ em_payload m, gs_acks := gs_acks acc @ [tx]\<rparr>
         | Outgoing rx \<Rightarrow> acc\<lparr>gs_hashed := gs_hashed acc @ em_payload m, gs_outgoing := Some rx\<rparr>)
        ms)"

definition empty_scan :: group_scan where
  "empty_scan = \<lparr>gs_hashed = [], gs_acks = [], gs_outgoing = None\<rparr>"

section \<open>Comparing the echoes\<close>

type_synonym 'p echo_answer = "request_failure + 'p \<times> bytes"

text \<open>Answers are pushed before the count is compared with \<open>n - 1\<close>; the acknowledgements
  of the group have been sent by then. \<open>select_next_some\<close> panics once every sender of the
  answers is gone.\<close>

fun await_echoes ::
    "echo_acks \<Rightarrow> bool \<Rightarrow> nat \<Rightarrow> 'p echo_answer list \<Rightarrow> 'p echo_answer list \<Rightarrow>
     (service_error, ('p echo_answer list) progress) res" where
  "await_echoes acks closed n hashes [] =
     (if closed then Inl (Panic ''SelectNextSome polled after terminated'') else Inr (Blocked acks))"
| "await_echoes acks closed n hashes (a # answers) =
     (if n = 0 then Inl (Panic ''attempt to subtract with overflow'')
      else if length (hashes @ [a]) = n - 1 then Inr (Done (hashes @ [a]))
      else await_echoes acks closed n (hashes @ [a]) answers)"

fun check_echoes :: "bytes \<Rightarrow> nat \<Rightarrow> 'p echo_answer list \<Rightarrow> (service_error, unit) res" where
  "check_echoes echo_hash k [] = Inr ()"
| "check_echoes echo_hash k (Inr (p, h) # rest) =
     (if h \<noteq> echo_hash then Inl (Fail (InconsistentEcho (of_nat k)))
      else check_echoes echo_hash (Suc k) rest)"
| "check_echoes echo_hash k (Inl e # rest) = Inl (Fail (EchoFailed e))"

section \<open>A round\<close>

text \<open>\<open>listening\<close> tells which response channels still have their receiver; sending an
  acknowledgement to one that has not panics. The answers are looked up by the response
  channel of the local message, and \<open>ee_answers_closed\<close> tells whether its senders are gone
  after them.\<close>

record 'p echo_env =
  ee_hash :: "bytes \<Rightarrow> bytes"
  ee_listening :: "oneshot \<Rightarrow> bool"
  ee_answers :: "receiver \<Rightarrow> 'p echo_answer list"
  ee_answers_closed :: "receiver \<Rightarrow> bool"

definition send_acks :: "'p echo_env \<Rightarrow> bytes \<Rightarrow> oneshot list \<Rightarrow> (service_error, echo_acks) res" where
  "send_acks E echo_hash txs =
     (if list_all (ee_listening E) txs
      then Inr (map (\<lambda>tx. (tx, \<lparr>or_result = Inr echo_hash, or_sent_feedback = None\<rparr>)) txs)
      else Inl (Panic ''expected to be able to send acknowledgment with echoing module''))"

text \<open>What follows the collection of a group: hash it, acknowledge, await and compare.\<close>

definition finish_round ::
    "'p echo_env \<Rightarrow> echo_gadget \<Rightarrow> echo_message list \<Rightarrow>
     (service_error, (echo_gadget \<times> echo_acks) progress) res" where
  "finish_round E g grp =
     bindR (scan_group [] empty_scan (sort_key em_sender grp)) (\<lambda>sc.
     bindR (ok_or (Panic ''outgoing message was expected'') (gs_outgoing sc)) (\<lambda>out_rx.
       let echo_hash = ee_hash E (gs_hashed sc) in
       bindR (send_acks E echo_hash (gs_acks sc)) (\<lambda>acks.
       bindP (await_echoes acks (ee_answers_closed E out_rx) (eg_n g) [] (ee_answers E out_rx)) (\<lambda>hashes.
       bindR (check_echoes echo_hash 0 hashes) (\<lambda>_.
         if eg_r g = 65535 then Inl (Panic ''attempt to add with overflow'')
         else Inr (Done (g\<lparr>eg_r := eg_r g + 1\<rparr>, acks)))))))"

definition proceed_round ::
    "'p echo_env \<Rightarrow> echo_gadget \<Rightarrow> echo_message list \<Rightarrow> bool \<Rightarrow>
     (service_error, (echo_gadget \<times> echo_acks \<times> echo_message list) progress) res" where
  "proceed_round E g0 inbox0 closed =
     bindP (await_ready g0 inbox0 closed) (\<lambda>(mid, g1, inbox1).
     bindR (ok_or (Panic ''ready message group must exist'') (bt_get mid (eg_msgs g1))) (\<lambda>grp0.
     bindP (complete_group (g1\<lparr>eg_msgs := bt_remove mid (eg_msgs g1)\<rparr>) mid grp0 inbox1 closed)
       (\<lambda>(grp, g2, inbox2).
     bindP (finish_round E g2 grp) (\<lambda>(g3, acks).
       Inr (Done (g3, acks, inbox2))))))"

section \<open>Wrapping the computation\<close>

text \<open>What the \<open>select!\<close> of \<open>wrap_execution\<close> sees next: a round's result (\<open>True\<close> for a
  completed round, \<open>False\<close> for \<open>Ok(None)\<close>) or the result of the computation. The result
  is \<open>None\<close> while the loop waits.\<close>

datatype wrap_event =
    EchoResult "service_error + bool"
  | ComputationResult "service_error + unit"

fun await_computation :: "wrap_event list \<Rightarrow> (service_error + unit) option" where
  "await_computation [] = None"
| "await_computation (ComputationResult r # es) = Some r"
| "await_computation (EchoResult r # es) = await_computation es"

fun wrap_execution :: "bool \<Rightarrow> wrap_event list \<Rightarrow> (service_error + unit) option" where
  "wrap_execution computation_done [] = None"
| "wrap_execution computation_done (EchoResult (Inl e) # es) = Some (Inl e)"
| "wrap_execution computation_done (EchoResult (Inr True) # es) = wrap_execution computation_done es"
| "wrap_execution computation_done (EchoResult (Inr False) # es) =
     (if computation_done then Some (Inr ()) else await_computation es)"
| "wrap_execution computation_done (ComputationResult r # es) =
     (if computation_done then wrap_execution computation_done es
      else case r of Inl e \<Rightarrow> Some (Inl e) | Inr _ \<Rightarrow> wrap_execution True es)"

section \<open>The collection loops\<close>

text \<open>A message sits in the group of its own id.\<close>

definition echo_wf :: "echo_gadget \<Rightarrow> bool" where
  "echo_wf g \<longleftrightarrow> bt_wf (eg_msgs g) \<and>
     (\<forall>k ms. bt_get k (eg_msgs g) = Some ms \<longrightarrow> (\<forall>m \<in> set ms. em_message_id m = k))"

abbreviation held :: "echo_gadget \<Rightarrow> echo_message multiset" where
  "held g \<equiv> bt_elems (eg_msgs g)"

lemma echo_new_wf: "echo_wf (echo_new n)" "held (echo_new n) = {#}"
  by (simp_all add: echo_wf_def echo_new_def bt_get_def)

lemma push_msg_wf:
  "echo_wf g \<Longrightarrow> echo_wf (g\<lparr>eg_msgs := push_msg m (eg_msgs g)\<rparr>)"
  by (cases "bt_get (em_message_id m) (eg_msgs g)") (auto simp: echo_wf_def push_msg_def bt_list_def split: if_splits)

lemma held_push:
  "bt_wf msgs \<Longrightarrow> bt_elems (push_msg m msgs) = add_mset m (bt_elems msgs)"
  using bt_elems_remove [of msgs "em_message_id m"] by (simp add: push_msg_def bt_elems_insert)

lemma ready_message_idD:
  assumes "echo_wf g" and "ready_message_id g = Some mid"
  obtains grp where "bt_get mid (eg_msgs g) = Some grp" "length grp = eg_n g" "list_ex is_outgoing grp"
proof -
  obtain grp where "List.find (\<lambda>(_, ms). length ms = eg_n g \<and> list_ex is_outgoing ms) (eg_msgs g) = Some (mid, grp)"
    using assms(2) by (auto simp: ready_message_id_def)
  then have "(mid, grp) \<in> set (eg_msgs g)" "length grp = eg_n g" "list_ex is_outgoing grp"
    by (auto simp: find_Some_iff) (metis nth_mem)
  with assms(1) that show ?thesis by (simp add: echo_wf_def bt_get_Some_iff)
qed

text \<open>The first loop ends with a complete group of messages that were stored or received.\<close>

lemma await_ready_Done:
  assumes "await_ready g inbox closed = Inr (Done (mid, g', inbox'))" and "echo_wf g"
  shows "echo_wf g' \<and> eg_n g' = eg_n g \<and> eg_r g' = eg_r g \<and> ready_message_id g' = Some mid \<and>
    held g' + mset inbox' = held g + mset inbox"
  using assms
proof (induction inbox arbitrary: g)
  case Nil
  then show ?case
    by (simp add: await_ready.simps [of _ "[]"] split: option.split_asm if_split_asm)
next
  case (Cons m inbox)
  show ?case
  proof (cases "ready_message_id g")
    case None
    let ?g = "g\<lparr>eg_msgs := push_msg m (eg_msgs g)\<rparr>"
    have "await_ready ?g inbox closed = Inr (Done (mid, g', inbox'))"
      using Cons.prems(1) None by (simp add: await_ready.simps [of _ "m # inbox"])
    from Cons.IH [OF this push_msg_wf [OF Cons.prems(2)]] Cons.prems(2)
    show ?thesis by (simp add: echo_wf_def held_push)
  next
    case (Some x)
    with Cons.prems show ?thesis by (simp add: await_ready.simps [of _ "m # inbox"])
  qed
qed

text \<open>A ready group is complete, so the second loop returns it at once.\<close>

lemma complete_group_full:
  "length grp = eg_n g \<Longrightarrow> complete_group g mid grp inbox closed = Inr (Done (grp, g, inbox))"
  by (simp add: complete_group.simps [of _ _ grp])

section \<open>Scanning and comparing\<close>

definition incoming_acks :: "echo_message list \<Rightarrow> oneshot list" where
  "incoming_acks ms = concat (map (\<lambda>m. case em_response m of Incoming tx \<Rightarrow> [tx] | Outgoing _ \<Rightarrow> []) ms)"

definition outgoing_rxs :: "echo_message list \<Rightarrow> receiver list" where
  "outgoing_rxs ms = concat (map (\<lambda>m. case em_response m of Incoming _ \<Rightarrow> [] | Outgoing rx \<Rightarrow> [rx]) ms)"

lemma scan_group_ok:
  assumes "distinct (map em_sender ms)" and "set (map em_sender ms) \<inter> set ss = {}"
  shows "scan_group ss acc ms = Inr
    \<lparr>gs_hashed = gs_hashed acc @ concat (map em_payload ms), gs_acks = gs_acks acc @ incoming_acks ms,
     gs_outgoing = (if outgoing_rxs ms = [] then gs_outgoing acc else Some (last (outgoing_rxs ms)))\<rparr>"
  using assms
  by (induction ms arbitrary: ss acc) (auto simp: incoming_acks_def outgoing_rxs_def split: echo_response.split)

text \<open>The first sender that appears again.\<close>

fun first_dup :: "u16 list \<Rightarrow> u16 list \<Rightarrow> u16 option" where
  "first_dup seen [] = None"
| "first_dup seen (x # xs) = (if x \<in> set seen then Some x else first_dup (x # seen) xs)"

lemma scan_group_first_dup:
  "first_dup ss (map em_sender ms) = Some x \<Longrightarrow> scan_group ss acc ms = Inl (Fail (InconsistentEcho x))"
  by (induction ms arbitrary: ss acc) (auto split: if_splits)

lemma first_dup_None_iff: "first_dup ss xs = None \<longleftrightarrow> distinct xs \<and> set xs \<inter> set ss = {}"
  by (induction xs arbitrary: ss) auto

lemma await_echoes_Done:
  "await_echoes acks closed n hs as = Inr (Done out) \<Longrightarrow> length hs < n - 1 \<Longrightarrow>
   out = hs @ take (n - 1 - length hs) as \<and> length out = n - 1"
proof (induction acks closed n hs as rule: await_echoes.induct)
  case (1 acks closed n hs)
  then show ?case by (simp split: if_splits)
next
  case (2 acks closed n hs a as)
  show ?case
  proof (cases "length (hs @ [a]) = n - 1")
    case True
    with 2 show ?thesis by (auto split: if_splits)
  next
    case False
    with 2 have IH: "out = (hs @ [a]) @ take (n - 1 - length (hs @ [a])) as \<and> length out = n - 1"
      by (intro "2.IH") (auto split: if_splits)
    moreover have "n - 1 - length hs = Suc (n - 1 - length (hs @ [a]))" using 2(3) False by simp
    ultimately have "out = hs @ take (n - 1 - length hs) (a # as)" by simp
    with IH show ?thesis by blast
  qed
qed

lemma await_echoes_single: "n \<le> Suc (length hs) \<Longrightarrow> await_echoes acks closed n hs as \<noteq> Inr (Done out)"
  by (induction acks closed n hs as rule: await_echoes.induct) auto

lemma check_echoes_ok: "check_echoes h k as = Inr () \<longleftrightarrow> (\<forall>a \<in> set as. \<exists>p. a = Inr (p, h))"
  by (induction h k as rule: check_echoes.induct) auto

section \<open>Rounds\<close>

text \<open>The reference digest of a group: the hash of the payloads in the order of senders.\<close>

definition echo_digest :: "(bytes \<Rightarrow> bytes) \<Rightarrow> echo_message list \<Rightarrow> bytes" where
  "echo_digest H ms = H (concat (map em_payload (sort_key em_sender ms)))"

lemma set_outgoing_rxs: "rx \<in> set (outgoing_rxs ms) \<longleftrightarrow> Outgoing rx \<in> em_response ` set ms"
  by (induction ms) (auto simp: outgoing_rxs_def split: echo_response.split)

lemma set_incoming_acks: "tx \<in> set (incoming_acks ms) \<longleftrightarrow> Incoming tx \<in> em_response ` set ms"
  by (induction ms) (auto simp: incoming_acks_def split: echo_response.split)

lemma finish_round_Done:
  assumes "finish_round E g grp = Inr (Done (g', acks))"
  shows "distinct (map em_sender grp) \<and> 2 \<le> eg_n g \<and> g' = g\<lparr>eg_r := eg_r g + 1\<rparr> \<and>
    acks = map (\<lambda>tx. (tx, \<lparr>or_result = Inr (echo_digest (ee_hash E) grp), or_sent_feedback = None\<rparr>))
      (incoming_acks (sort_key em_sender grp)) \<and>
    (\<exists>rx. Outgoing rx \<in> em_response ` set grp \<and> eg_n g - 1 \<le> length (ee_answers E rx) \<and>
      (\<forall>a \<in> set (take (eg_n g - 1) (ee_answers E rx)). \<exists>p. a = Inr (p, echo_digest (ee_hash E) grp)))"
proof -
  let ?ms = "sort_key em_sender grp"
  have d: "distinct (map em_sender ?ms)"
  proof (rule ccontr)
    assume "\<not> distinct (map em_sender ?ms)"
    then obtain x where "first_dup [] (map em_sender ?ms) = Some x"
      using first_dup_None_iff [of "[]" "map em_sender ?ms"] by auto
    from scan_group_first_dup [OF this, of empty_scan] assms show False
      by (simp add: finish_round_def)
  qed
  have "mset (map em_sender ?ms) = mset (map em_sender grp)" by simp
  with d have dg: "distinct (map em_sender grp)" by (metis mset_eq_imp_distinct_iff)
  obtain sc rx hs where sc: "scan_group [] empty_scan ?ms = Inr sc" "gs_outgoing sc = Some rx"
    and acks: "send_acks E (ee_hash E (gs_hashed sc)) (gs_acks sc) = Inr acks"
    and hs: "await_echoes acks (ee_answers_closed E rx) (eg_n g) [] (ee_answers E rx) = Inr (Done hs)"
      "check_echoes (ee_hash E (gs_hashed sc)) 0 hs = Inr ()"
    and g': "g' = g\<lparr>eg_r := eg_r g + 1\<rparr>"
    using assms by (auto simp: finish_round_def Let_def split: if_split_asm)
  have sc': "gs_hashed sc = concat (map em_payload ?ms)" "gs_acks sc = incoming_acks ?ms"
    "rx \<in> set (outgoing_rxs ?ms)"
    using sc scan_group_ok [OF d, of "[]" empty_scan] by (auto simp: empty_scan_def split: if_splits)
  have n: "2 \<le> eg_n g"
    using await_echoes_single [of "eg_n g" "[]" acks "ee_answers_closed E rx"] hs(1) by (cases "2 \<le> eg_n g") auto
  have "hs = take (eg_n g - 1) (ee_answers E rx)" "length hs = eg_n g - 1"
    using await_echoes_Done [OF hs(1)] n by auto
  then show ?thesis
    using dg n g' acks hs(2) sc' set_outgoing_rxs [of rx ?ms]
    by (auto simp: check_echoes_ok echo_digest_def send_acks_def split: if_splits)
qed

text \<open>A completed round takes one whole group out of the messages that were stored or
  received; the others stay stored or in the channel.\<close>

lemma proceed_round_Done:
  assumes "proceed_round E g inbox closed = Inr (Done (g', acks, inbox'))" and "echo_wf g"
  shows "\<exists>mid grp g1. finish_round E g1 grp = Inr (Done (g', acks)) \<and> length grp = eg_n g \<and> eg_n g1 = eg_n g \<and>
    eg_r g1 = eg_r g \<and> echo_wf g1 \<and> (\<forall>m \<in> set grp. em_message_id m = mid) \<and>
    mset grp + held g1 + mset inbox' = held g + mset inbox"
proof -
  obtain mid g1 inbox1 where a: "await_ready g inbox closed = Inr (Done (mid, g1, inbox1))"
    using assms(1) by (auto simp: proceed_round_def)
  note r = await_ready_Done [OF a assms(2)]
  then obtain grp where grp: "bt_get mid (eg_msgs g1) = Some grp" "length grp = eg_n g1"
    using ready_message_idD by blast
  let ?g = "g1\<lparr>eg_msgs := bt_remove mid (eg_msgs g1)\<rparr>"
  have "finish_round E ?g grp = Inr (Done (g', acks))" "inbox' = inbox1"
    using assms(1) a grp
    by (auto simp: proceed_round_def complete_group_full)
  moreover have "\<forall>m \<in> set grp. em_message_id m = mid" using r grp(1) by (auto simp: echo_wf_def)
  moreover have "echo_wf ?g" using r by (auto simp: echo_wf_def split: if_splits)
  moreover have "mset grp + held ?g = held g1"
    using r grp(1) bt_elems_remove [of "eg_msgs g1" mid] by (simp add: echo_wf_def bt_list_def)
  ultimately show ?thesis
    using r grp(2) by (intro exI [of _ mid] exI [of _ grp] exI [of _ ?g]) simp
qed

text \<open>The result of a round does not depend on the order in which its group arrived.\<close>

lemma sort_key_senders: "map em_sender (sort_key em_sender ms) = sort (map em_sender ms)"
  by (rule properties_for_sort [symmetric]) simp_all

lemma finish_round_perm:
  assumes "mset xs = mset ys"
  shows "finish_round E g xs = finish_round E g ys"
proof (cases "distinct (map em_sender xs)")
  case True
  then have "inj_on em_sender (set xs)" by (simp add: distinct_map)
  then have "sort_key em_sender xs = sort_key em_sender ys"
    using assms by (intro sort_key_inj_key_eq) simp_all
  then show ?thesis by (simp add: finish_round_def)
next
  case False
  have s: "map em_sender (sort_key em_sender xs) = map em_sender (sort_key em_sender ys)"
    unfolding sort_key_senders using assms by (intro properties_for_sort) simp_all
  have "mset (map em_sender (sort_key em_sender xs)) = mset (map em_sender xs)" by simp
  with False have "\<not> distinct (map em_sender (sort_key em_sender xs))" by (metis mset_eq_imp_distinct_iff)
  then obtain x where "first_dup [] (map em_sender (sort_key em_sender xs)) = Some x"
    using first_dup_None_iff [of "[]" "map em_sender (sort_key em_sender xs)"] by auto
  with s show ?thesis by (simp add: finish_round_def scan_group_first_dup)
qed

lemma finish_round_dup:
  assumes "\<not> distinct (map em_sender xs)"
  shows "\<exists>s. finish_round E g xs = Inl (Fail (InconsistentEcho s))"
proof -
  have "\<not> distinct (map em_sender (sort_key em_sender xs))"
    using assms by (metis mset_eq_imp_distinct_iff mset_map mset_sort)
  then obtain x where "first_dup [] (map em_sender (sort_key em_sender xs)) = Some x"
    using first_dup_None_iff [of "[]" "map em_sender (sort_key em_sender xs)"] by auto
  from scan_group_first_dup [OF this] show ?thesis by (simp add: finish_round_def)
qed

section \<open>The messages that complete a group\<close>

lemma ready_message_id_None:
  "echo_wf g \<Longrightarrow> ready_message_id g = None \<longleftrightarrow>
    (\<forall>k ms. bt_get k (eg_msgs g) = Some ms \<longrightarrow> \<not> (length ms = eg_n g \<and> list_ex is_outgoing ms))"
  by (auto simp: ready_message_id_def find_None_iff echo_wf_def bt_get_Some_iff)

lemma ready_message_id_unique:
  assumes "echo_wf g" and "bt_get mid (eg_msgs g) = Some grp" "length grp = eg_n g" "list_ex is_outgoing grp"
    and "\<And>k ms. bt_get k (eg_msgs g) = Some ms \<Longrightarrow> k \<noteq> mid \<Longrightarrow> \<not> (length ms = eg_n g \<and> list_ex is_outgoing ms)"
  shows "ready_message_id g = Some mid"
proof -
  obtain k where k: "ready_message_id g = Some k"
    using ready_message_id_None [OF assms(1)] assms(2-4) by fastforce
  then obtain ms where "bt_get k (eg_msgs g) = Some ms" "length ms = eg_n g" "list_ex is_outgoing ms"
    using ready_message_idD [OF assms(1)] by blast
  with assms(5) k show ?thesis by blast
qed

definition group_completed_by :: "echo_gadget \<Rightarrow> u64 \<Rightarrow> echo_message list \<Rightarrow> bool" where
  "group_completed_by g mid xs \<longleftrightarrow> (\<forall>m \<in> set xs. em_message_id m = mid) \<and>
     length (bt_list mid (eg_msgs g) @ xs) = eg_n g \<and> list_ex is_outgoing (bt_list mid (eg_msgs g) @ xs)"

lemma group_completed_by_perm:
  assumes "mset xs = mset ys" and "group_completed_by g mid xs"
  shows "group_completed_by g mid ys"
  using assms(2) mset_eq_setD [OF assms(1)] mset_eq_length [OF assms(1)]
  by (simp add: group_completed_by_def list_ex_iff)

lemma await_ready_group:
  assumes "echo_wf g" and "ready_message_id g = None" and "group_completed_by g mid xs"
  shows "await_ready g (xs @ rest) closed =
    Inr (Done (mid, g\<lparr>eg_msgs := bt_insert mid (bt_list mid (eg_msgs g) @ xs) (eg_msgs g)\<rparr>, rest))"
  using assms
proof (induction xs arbitrary: g)
  case Nil
  then show ?case
    using ready_message_id_None [of g]
    by (auto simp: group_completed_by_def bt_list_def split: option.splits)
next
  case (Cons m xs)
  let ?grp = "bt_list mid (eg_msgs g) @ [m]"
  let ?g = "g\<lparr>eg_msgs := bt_insert mid ?grp (eg_msgs g)\<rparr>"
  have m: "em_message_id m = mid" using Cons.prems(3) by (simp add: group_completed_by_def)
  have wf: "echo_wf ?g" using push_msg_wf [OF Cons.prems(1), of m] m by (simp add: push_msg_def)
  have others: "\<not> (length ms = eg_n g \<and> list_ex is_outgoing ms)"
    if "bt_get k (eg_msgs ?g) = Some ms" "k \<noteq> mid" for k ms
    using that Cons.prems(1,2) by (simp add: ready_message_id_None)
  have step: "await_ready g ((m # xs) @ rest) closed = await_ready ?g (xs @ rest) closed"
    using Cons.prems(2) m by (simp add: await_ready.simps [of g] push_msg_def)
  show ?case
  proof (cases "xs = []")
    case True
    then have "ready_message_id ?g = Some mid"
      using Cons.prems(3) others wf by (intro ready_message_id_unique [of ?g mid ?grp]) (auto simp: group_completed_by_def)
    with True step show ?thesis by (simp add: await_ready.simps [of ?g])
  next
    case False
    then have "length ?grp \<noteq> eg_n g"
      using Cons.prems(3) by (cases xs) (simp_all add: group_completed_by_def)
    then have "ready_message_id ?g = None"
      using others wf by (auto simp: ready_message_id_None split: if_splits)
    moreover have "group_completed_by ?g mid xs"
      using Cons.prems(3) by (simp add: group_completed_by_def bt_list_def)
    ultimately show ?thesis using Cons.IH [OF wf] step by (simp add: bt_list_def)
  qed
qed

lemma proceed_round_group:
  assumes "echo_wf g" and "ready_message_id g = None" and "group_completed_by g mid xs"
  shows "proceed_round E g (xs @ rest) closed =
    bindP (finish_round E (g\<lparr>eg_msgs := bt_remove mid (eg_msgs g)\<rparr>) (bt_list mid (eg_msgs g) @ xs))
      (\<lambda>(g', acks). Inr (Done (g', acks, rest)))"
  using assms(3) unfolding proceed_round_def await_ready_group [OF assms]
  by (simp add: complete_group_full group_completed_by_def)

section \<open>A session of rounds\<close>

text \<open>The gadget of a session: it starts fresh, messages arrive on its channel, and a round
  is completed over what has arrived. \<open>rcvd\<close> lists everything that arrived so far; the
  environment moves on between the steps.\<close>

inductive echo_session :: "nat \<Rightarrow> 'p echo_env \<Rightarrow> echo_gadget \<Rightarrow> echo_message list \<Rightarrow> echo_message list \<Rightarrow> bool" for n where
  start: "echo_session n E (echo_new n) [] []"
| environment: "echo_session n E g inbox rcvd \<Longrightarrow> echo_session n E' g inbox rcvd"
| arrive: "echo_session n E g inbox rcvd \<Longrightarrow> echo_session n E g (inbox @ [m]) (rcvd @ [m])"
| round: "echo_session n E g inbox rcvd \<Longrightarrow> proceed_round E g inbox closed = Inr (Done (g', acks, inbox')) \<Longrightarrow>
    echo_session n E g' inbox' rcvd"

lemma echo_session_invariant:
  "echo_session n E g inbox rcvd \<Longrightarrow> echo_wf g \<and> eg_n g = n \<and> held g + mset inbox \<subseteq># mset rcvd"
proof (induction rule: echo_session.induct)
  case (start E)
  then show ?case by (simp add: echo_new_wf) (simp add: echo_new_def)
next
  case (environment E g inbox rcvd E')
  then show ?case by simp
next
  case (arrive E g inbox rcvd m)
  then show ?case by simp
next
  case (round E g inbox rcvd closed g' acks inbox')
  then obtain grp g1 where f: "finish_round E g1 grp = Inr (Done (g', acks))"
    and g1: "eg_n g1 = eg_n g" "echo_wf g1" "mset grp + held g1 + mset inbox' = held g + mset inbox"
    using proceed_round_Done by blast
  have "held g1 + mset inbox' \<subseteq># held g + mset inbox"
    unfolding g1(3) [symmetric] by (simp add: add.assoc)
  moreover have "g' = g1\<lparr>eg_r := eg_r g1 + 1\<rparr>" using finish_round_Done [OF f] by blast
  ultimately show ?case using round.IH g1(1,2) by (auto simp: echo_wf_def intro: subset_mset.order_trans)
qed

section \<open>Properties\<close>

text \<open>Round 0 of two parties: the local message of party 1 and one of party 2.\<close>

definition sample_group :: "echo_message list" where
  "sample_group =
     [\<lparr>em_message_id = 0, em_sender = 2, em_payload = [5], em_response = Incoming 9\<rparr>,
      \<lparr>em_message_id = 0, em_sender = 1, em_payload = [4], em_response = Outgoing 8\<rparr>]"

definition sample_env :: "byte echo_env" where
  "sample_env = \<lparr>ee_hash = id, ee_listening = (\<lambda>_. True), ee_answers = (\<lambda>_. [Inr (30, [4, 5])]),
     ee_answers_closed = (\<lambda>_. False)\<rparr>"

lemma sample_round:
  "proceed_round sample_env (echo_new 2) sample_group False =
     Inr (Done (\<lparr>eg_r = 1, eg_n = 2, eg_msgs = []\<rparr>,
       [(9, \<lparr>or_result = Inr [4, 5], or_sent_feedback = None\<rparr>)], []))"
  by (simp add: proceed_round_def echo_new_def sample_group_def sample_env_def await_ready.simps
      complete_group.simps ready_message_id_def push_msg_def bt_get_def bt_remove_def is_outgoing_def
      finish_round_def empty_scan_def send_acks_def word_le_nat_alt)

text \<open>
  C18: a completed echo round is an agreement, in every round of a session. The round took
  exactly \<open>n\<close> received messages of one message id from \<open>n\<close> different senders, the local
  one among them, out of what was stored or in the channel, and left the rest there; every
  remote message of the group was acknowledged with the digest of the whole group in sender
  order; and the first \<open>n - 1\<close> answers on the response channel of the local message all
  carry that same digest. In particular a round never completes with fewer than two parties.
\<close>

theorem echo_round_agreement:
  assumes "echo_session n E g inbox rcvd" and "proceed_round E g inbox closed = Inr (Done (g', acks, inbox'))"
  shows "\<exists>mid grp rx. length grp = n \<and> 2 \<le> n \<and> set grp \<subseteq> set rcvd \<and>
    mset grp + held g' + mset inbox' = held g + mset inbox \<and>
    distinct (map em_sender grp) \<and> (\<forall>m \<in> set grp. em_message_id m = mid) \<and>
    (\<forall>tx. Incoming tx \<in> em_response ` set grp \<longleftrightarrow>
       (tx, \<lparr>or_result = Inr (echo_digest (ee_hash E) grp), or_sent_feedback = None\<rparr>) \<in> set acks) \<and>
    Outgoing rx \<in> em_response ` set grp \<and> n - 1 \<le> length (ee_answers E rx) \<and>
    (\<forall>a \<in> set (take (n - 1) (ee_answers E rx)). \<exists>p. a = Inr (p, echo_digest (ee_hash E) grp))"
proof -
  note inv = echo_session_invariant [OF assms(1)]
  then obtain mid grp g1 where f: "finish_round E g1 grp = Inr (Done (g', acks))"
    and g: "length grp = n" "eg_n g1 = n" "\<forall>m \<in> set grp. em_message_id m = mid"
      "mset grp + held g1 + mset inbox' = held g + mset inbox"
    using proceed_round_Done [OF assms(2)] by auto
  note r = finish_round_Done [OF f]
  have "mset grp \<subseteq># mset rcvd"
    using inv unfolding g(4) [symmetric] by (meson mset_subset_eq_add_left subset_mset.order_trans)
  then have "set grp \<subseteq> set rcvd" by (metis set_mset_mono set_mset_mset)
  moreover have "held g' = held g1" using r by auto
  moreover have "Incoming tx \<in> em_response ` set grp \<longleftrightarrow>
      (tx, \<lparr>or_result = Inr (echo_digest (ee_hash E) grp), or_sent_feedback = None\<rparr>) \<in> set acks" for tx
    using r set_incoming_acks [of tx "sort_key em_sender grp"] by auto
  ultimately show ?thesis using r g by metis
qed

lemma sample_session: "echo_session 2 sample_env (echo_new 2) sample_group sample_group"
  unfolding sample_group_def
  using echo_session.arrive [OF echo_session.arrive [OF echo_session.start]] by force

theorem echo_round_agreement_witness:
  "\<exists>g' acks. proceed_round sample_env (echo_new 2) sample_group False = Inr (Done (g', acks, [])) \<and>
    (\<exists>grp. length grp = 2 \<and> set grp \<subseteq> set sample_group \<and> distinct (map em_sender grp))"
  using echo_round_agreement [OF sample_session sample_round] sample_round by blast

text \<open>
  C19: the messages that complete a group can arrive in any order. In a gadget with no
  group ready, the outcome of the round, with the digest, the acknowledgements, the gadget
  and every error, is the same for every order in which the missing messages of one id
  arrive, whatever comes behind them; and if the group they complete has two messages of one
  sender the round fails with \<open>InconsistentEcho\<close> in every order.
\<close>

theorem echo_order_independent:
  assumes "echo_wf g" and "ready_message_id g = None" and "group_completed_by g mid xs" and "mset xs = mset ys"
  shows "proceed_round E g (xs @ rest) closed = proceed_round E g (ys @ rest) closed \<and>
    (\<not> distinct (map em_sender (bt_list mid (eg_msgs g) @ xs)) \<longrightarrow>
      (\<exists>s. proceed_round E g (xs @ rest) closed = Inl (Fail (InconsistentEcho s))))"
proof -
  let ?ms = "bt_list mid (eg_msgs g)" and ?g = "g\<lparr>eg_msgs := bt_remove mid (eg_msgs g)\<rparr>"
  have "finish_round E ?g (?ms @ xs) = finish_round E ?g (?ms @ ys)"
    using assms(4) by (intro finish_round_perm) simp
  moreover have "\<exists>s. finish_round E ?g (?ms @ xs) = Inl (Fail (InconsistentEcho s))"
    if "\<not> distinct (map em_sender (?ms @ xs))"
    using that by (rule finish_round_dup)
  ultimately show ?thesis
    unfolding proceed_round_group [OF assms(1-3)]
      proceed_round_group [OF assms(1,2) group_completed_by_perm [OF assms(4,3)]] by (metis bindP_simps(1))
qed

theorem echo_order_independent_witness:
  "proceed_round sample_env (echo_new 2) (rev sample_group @ []) False =
     Inr (Done (\<lparr>eg_r = 1, eg_n = 2, eg_msgs = []\<rparr>, [(9, \<lparr>or_result = Inr [4, 5], or_sent_feedback = None\<rparr>)], []))"
proof -
  have "ready_message_id (echo_new 2) = None" by (simp add: ready_message_id_def echo_new_def)
  moreover have "group_completed_by (echo_new 2) 0 sample_group"
    by (simp add: group_completed_by_def echo_new_def sample_group_def is_outgoing_def)
  moreover have "mset sample_group = mset (rev sample_group)" by simp
  ultimately show ?thesis
    using echo_order_independent [OF echo_new_wf(1), of 2 0 sample_group "rev sample_group" sample_env "[]" False]
      sample_round by simp
qed

text \<open>
  What equal digests establish: two parties whose rounds have the same digest under a
  collision-free hash received the same payload from every sender, provided that the
  payloads of each sender have the same length at both.
\<close>

lemma echo_digest_agreement:
  assumes "inj H" and "echo_digest H xs = echo_digest H ys"
    and "map em_sender (sort_key em_sender xs) = map em_sender (sort_key em_sender ys)"
    and "map (length \<circ> em_payload) (sort_key em_sender xs) = map (length \<circ> em_payload) (sort_key em_sender ys)"
  shows "map (\<lambda>m. (em_sender m, em_payload m)) (sort_key em_sender xs) =
    map (\<lambda>m. (em_sender m, em_payload m)) (sort_key em_sender ys)"
proof -
  let ?x = "map em_payload (sort_key em_sender xs)" and ?y = "map em_payload (sort_key em_sender ys)"
  have "concat ?x = concat ?y" using assms(1,2) by (simp add: echo_digest_def inj_eq)
  then have p: "?x = ?y" by (rule concat_eq_lengths) (use assms(4) in simp)
  have "zip (map em_sender (sort_key em_sender xs)) ?x = zip (map em_sender (sort_key em_sender ys)) ?y"
    by (simp only: assms(3) p)
  then show ?thesis by (simp add: zip_map_map zip_same_conv_map comp_def)
qed

text \<open>Groups that differ only in where one payload ends and the next one begins have the
  same outcome.\<close>

lemma scan_group_split:
  "scan_group ss acc (xs @ m\<lparr>em_payload := a @ b\<rparr> # k\<lparr>em_payload := c\<rparr> # ys) =
   scan_group ss acc (xs @ m\<lparr>em_payload := a\<rparr> # k\<lparr>em_payload := b @ c\<rparr> # ys)"
  by (induction xs arbitrary: ss acc) (auto split: echo_response.split)

lemma finish_round_split:
  assumes "sorted (map em_sender (xs @ m # k # ys))"
    and "mset grp = mset (xs @ m\<lparr>em_payload := a @ b\<rparr> # k\<lparr>em_payload := c\<rparr> # ys)"
    and "mset grp' = mset (xs @ m\<lparr>em_payload := a\<rparr> # k\<lparr>em_payload := b @ c\<rparr> # ys)"
  shows "finish_round E g grp = finish_round E g grp'"
proof -
  have s: "sort_key em_sender (xs @ m\<lparr>em_payload := p\<rparr> # k\<lparr>em_payload := q\<rparr> # ys) =
      xs @ m\<lparr>em_payload := p\<rparr> # k\<lparr>em_payload := q\<rparr> # ys" for p q
    using assms(1) by (intro sort_key_id_if_sorted) simp
  have "finish_round E g (xs @ m\<lparr>em_payload := a @ b\<rparr> # k\<lparr>em_payload := c\<rparr> # ys) =
      finish_round E g (xs @ m\<lparr>em_payload := a\<rparr> # k\<lparr>em_payload := b @ c\<rparr> # ys)"
    unfolding finish_round_def s scan_group_split [of _ _ xs a b m c k ys] ..
  then show ?thesis using finish_round_perm [OF assms(2)] finish_round_perm [OF assms(3)] by metis
qed

text \<open>
  C20: without that proviso the digest does not pin the messages down: the payloads are
  hashed without separators. In a group of any size, received in any order, take two senders
  that are adjacent in the order of senders, neither of them necessarily the local party:
  bytes moved from the end of the payload of the one to the front of the payload of the other
  leave the outcome of the round, its digest and its acknowledgements as they are. Two such
  senders can tell different parties different things and no round notices.
\<close>

theorem echo_equivocation_undetected:
  assumes "echo_wf g" and "ready_message_id g = None" and "bt_get mid (eg_msgs g) = None"
    and "group_completed_by g mid grp" and "group_completed_by g mid grp'"
    and "sorted (map em_sender (xs @ m # k # ys))"
    and "mset grp = mset (xs @ m\<lparr>em_payload := a @ b\<rparr> # k\<lparr>em_payload := c\<rparr> # ys)"
    and "mset grp' = mset (xs @ m\<lparr>em_payload := a\<rparr> # k\<lparr>em_payload := b @ c\<rparr> # ys)"
  shows "proceed_round E g (grp @ rest) closed = proceed_round E g (grp' @ rest) closed"
proof -
  have "bt_list mid (eg_msgs g) = []" using assms(3) by (simp add: bt_list_def)
  with finish_round_split [OF assms(6-8), of E] show ?thesis
    unfolding proceed_round_group [OF assms(1,2,4)] proceed_round_group [OF assms(1,2,5)] by simp
qed

text \<open>Party 3 of three parties: whether parties 1 and 2 sent \<open>1\<close> and \<open>23\<close> or \<open>12\<close> and \<open>3\<close>, its
  round completes.\<close>

definition split_group :: "bytes \<Rightarrow> bytes \<Rightarrow> echo_message list" where
  "split_group p q =
     [\<lparr>em_message_id = 0, em_sender = 3, em_payload = [4], em_response = Outgoing 8\<rparr>,
      \<lparr>em_message_id = 0, em_sender = 2, em_payload = q, em_response = Incoming 9\<rparr>,
      \<lparr>em_message_id = 0, em_sender = 1, em_payload = p, em_response = Incoming 7\<rparr>]"

definition split_env :: "byte echo_env" where
  "split_env = \<lparr>ee_hash = id, ee_listening = (\<lambda>_. True),
     ee_answers = (\<lambda>_. [Inr (30, [1, 2, 3, 4]), Inr (31, [1, 2, 3, 4])]), ee_answers_closed = (\<lambda>_. False)\<rparr>"

lemma split_round:
  "proceed_round split_env (echo_new 3) (split_group [1, 2] [3] @ []) False =
     Inr (Done (\<lparr>eg_r = 1, eg_n = 3, eg_msgs = []\<rparr>,
       [(7, \<lparr>or_result = Inr [1, 2, 3, 4], or_sent_feedback = None\<rparr>),
        (9, \<lparr>or_result = Inr [1, 2, 3, 4], or_sent_feedback = None\<rparr>)], []))"
  by (simp add: proceed_round_def echo_new_def split_group_def split_env_def await_ready.simps
      complete_group.simps ready_message_id_def push_msg_def bt_get_def bt_remove_def is_outgoing_def
      finish_round_def empty_scan_def send_acks_def word_le_nat_alt Let_def)

theorem echo_equivocation_undetected_witness:
  "proceed_round split_env (echo_new 3) (split_group [1] [2, 3] @ []) False =
     Inr (Done (\<lparr>eg_r = 1, eg_n = 3, eg_msgs = []\<rparr>,
       [(7, \<lparr>or_result = Inr [1, 2, 3, 4], or_sent_feedback = None\<rparr>),
        (9, \<lparr>or_result = Inr [1, 2, 3, 4], or_sent_feedback = None\<rparr>)], []))"
proof -
  let ?m = "split_group [] [] ! 2" and ?k = "split_group [] [] ! 1" and ?own = "split_group [] [] ! 0"
  have "ready_message_id (echo_new 3) = None" "bt_get 0 (eg_msgs (echo_new 3)) = None"
    by (simp_all add: ready_message_id_def echo_new_def bt_get_def)
  moreover have "group_completed_by (echo_new 3) 0 (split_group p q)" for p q
    by (simp add: group_completed_by_def echo_new_def split_group_def is_outgoing_def)
  moreover have "sorted (map em_sender ([] @ ?m # ?k # [?own]))"
    by (simp add: split_group_def word_le_nat_alt)
  moreover have "mset (split_group [1, 2] [3]) = mset ([] @ ?m\<lparr>em_payload := [1] @ [2]\<rparr> # ?k\<lparr>em_payload := [3]\<rparr> # [?own])"
    "mset (split_group [1] [2, 3]) = mset ([] @ ?m\<lparr>em_payload := [1]\<rparr> # ?k\<lparr>em_payload := [2] @ [3]\<rparr> # [?own])"
    by (simp_all add: split_group_def)
  ultimately have "proceed_round split_env (echo_new 3) (split_group [1, 2] [3] @ []) False =
      proceed_round split_env (echo_new 3) (split_group [1] [2, 3] @ []) False"
    by (intro echo_equivocation_undetected [OF echo_new_wf(1)])
  with split_round show ?thesis by simp
qed

text \<open>
  A disagreement is reported with the position at which the diverging answer arrived
  and not with the party it came from: with every earlier answer equal to the own hash,
  the error carries the number of earlier answers, whoever the peer is.
\<close>

lemma echo_blames_arrival_position:
  assumes "\<forall>a \<in> set earlier. \<exists>q. a = Inr (q, h)" and "h' \<noteq> h"
  shows "check_echoes h 0 (earlier @ Inr (p, h') # later) = Inl (Fail (InconsistentEcho (of_nat (length earlier))))"
proof -
  have "check_echoes h k (earlier @ Inr (p, h') # later) =
      Inl (Fail (InconsistentEcho (of_nat (k + length earlier))))" for k
    using assms by (induction earlier arbitrary: k) auto
  from this [of 0] show ?thesis by simp
qed

text \<open>The echo side of a run ended well: its channel was closed before any round failed.\<close>

definition echo_closed_cleanly :: "wrap_event list \<Rightarrow> bool" where
  "echo_closed_cleanly es \<longleftrightarrow>
     (\<exists>xs ys. es = xs @ EchoResult (Inr False) # ys \<and> (\<forall>e. EchoResult (Inl e) \<notin> set xs))"

lemma echo_closed_cleanly_simps:
  "\<not> echo_closed_cleanly []"
  "echo_closed_cleanly (EchoResult (Inr False) # es)"
  "\<not> echo_closed_cleanly (EchoResult (Inl e) # es)"
  "echo_closed_cleanly (EchoResult (Inr True) # es) \<longleftrightarrow> echo_closed_cleanly es"
  "echo_closed_cleanly (ComputationResult r # es) \<longleftrightarrow> echo_closed_cleanly es"
proof -
  show "echo_closed_cleanly (EchoResult (Inr False) # es)"
    unfolding echo_closed_cleanly_def by (rule exI [of _ "[]"]) simp
  have skip: "echo_closed_cleanly (x # es) \<longleftrightarrow> echo_closed_cleanly es"
    if "x \<noteq> EchoResult (Inr False)" "\<And>e. x \<noteq> EchoResult (Inl e)" for x
  proof
    assume "echo_closed_cleanly es"
    then obtain xs ys where "es = xs @ EchoResult (Inr False) # ys" "\<forall>e. EchoResult (Inl e) \<notin> set xs"
      by (auto simp: echo_closed_cleanly_def)
    with that(2) show "echo_closed_cleanly (x # es)"
      unfolding echo_closed_cleanly_def by (intro exI [of _ "x # xs"] exI [of _ ys]) auto
  qed (use that in \<open>auto simp: echo_closed_cleanly_def Cons_eq_append_conv\<close>)
  show "echo_closed_cleanly (EchoResult (Inr True) # es) \<longleftrightarrow> echo_closed_cleanly es"
    "echo_closed_cleanly (ComputationResult r # es) \<longleftrightarrow> echo_closed_cleanly es"
    by (simp_all add: skip)
qed (auto simp: echo_closed_cleanly_def Cons_eq_append_conv)

lemma wrap_execution_done: "wrap_execution True es = Some (Inr ()) \<longleftrightarrow> echo_closed_cleanly es"
  by (induction True es rule: wrap_execution.induct) (simp_all add: echo_closed_cleanly_simps)

text \<open>
  The wrapped execution succeeds exactly when the computation itself returned \<open>Ok\<close>
  and the echo channel was closed with no round pending before any round failed: an
  inconsistent echo always fails the execution, whichever of the two finishes first.
\<close>

lemma wrap_execution_ok_iff:
  "wrap_execution False es = Some (Inr ()) \<longleftrightarrow>
     await_computation es = Some (Inr ()) \<and> echo_closed_cleanly es"
  by (induction False es rule: wrap_execution.induct)
    (auto simp: echo_closed_cleanly_simps wrap_execution_done split: sum.splits)

end
