(* ===== verification/Execution.thy ===== *)
theory Execution
  imports Echo "HOL-Library.Product_Lexorder"
begin

text \<open>
  \<open>service/src/execution.rs\<close>: the running session. One poll serves the peerset cache,
  sends one message of the protocol, takes one message of the network, releases complete
  groups of broadcast messages in the order of their ids, and then looks at the
  completion timer or at the agent.

  The channels to the echo gadget and to the protocol belong to other crates: whether the
  \<open>k\<close>-th \<open>try_send\<close> of a poll succeeds is an input, and a failing one panics as the
  \<open>expect\<close> in the code does. The queue of message futures is drained within the poll that
  fills it, so it is always empty between polls.
\<close>

section \<open>Data\<close>

record protocol_request =
  pr_from :: u16
  pr_to :: "u16 option"
  pr_payload :: bytes

record protocol_response =
  om_body :: bytes
  om_to :: "u16 option"
  om_sent_feedback :: "oneshot option"

datatype 'p peerset_msg =
    ReadFromCache oneshot
  | WriteToCache "'p peerset" oneshot

record 'p exec_state =
  ex_room_id :: room_id
  ex_session_id :: session_id
  ex_local_peer_id :: 'p
  ex_protocol_id :: u64
  ex_peerset :: "'p peerset"
  ex_agent_running :: bool
  ex_agent_result :: "(anyhow + bytes) option"
  ex_completion_delay :: "instant option"
  ex_storage :: "'p local_storage"
  ex_pending_response :: "oneshot option"
  ex_next_outgoing_broadcast_id :: u64
  ex_next_incoming_broadcast_id :: u64
  ex_pending_incoming :: "(u16 \<times> u64, 'p incoming_request) btree"
  ex_i :: u16
  ex_n :: u16

text \<open>Effects of a poll, in order.\<close>

datatype 'p exec_effect =
    CacheRead oneshot "'p peerset option"
  | CacheWritten oneshot bool
  | NetSend "'p service_to_worker_msg"
  | Feedback oneshot
  | ToEcho echo_message
  | ToProtocol protocol_request
  | Answer "'p incoming_request" outgoing_response
  | RpcResult oneshot "anyhow + bytes"

record 'p exec_input =
  xi_now :: instant
  xi_peerset_msg :: "'p peerset_msg option"
  xi_from_protocol :: "protocol_response option"
  xi_from_network :: "'p incoming_request option"
  xi_agent :: "(anyhow + bytes) poll"
  xi_echo_ok :: "nat \<Rightarrow> bool"
  xi_protocol_ok :: "nat \<Rightarrow> bool"
  xi_mkdir :: "io_kind option"
  xi_write :: "io_kind option"
  xi_channel :: receiver

definition COMPLETION_QUIET_PERIOD :: nat where
  "COMPLETION_QUIET_PERIOD = 500"

section \<open>Creation\<close>

text \<open>\<open>async_channel::bounded\<close> panics on capacity 0, which is \<open>n - 1\<close> for a single party.\<close>

definition execution_new ::
    "room_id \<Rightarrow> session_id \<Rightarrow> agent \<Rightarrow> 'p \<Rightarrow> 'p peerset \<Rightarrow> 'p local_storage \<Rightarrow> oneshot option \<Rightarrow>
     (anyhow, 'p exec_state) res" where
  "execution_new room_id sid agent service ps store pending_response =
     (let n = of_nat (peerset_size ps) in
      bindR (unwrap (index_of ps (local_peer_id ps))) (\<lambda>i.
      bindR (checked_dec n) (\<lambda>capacity.
        if capacity = 0 then Inl (Panic ''capacity cannot be zero'')
        else Inr
          \<lparr>ex_room_id = room_id, ex_session_id = sid, ex_local_peer_id = service,
           ex_protocol_id = ag_protocol_id agent, ex_peerset = ps, ex_agent_running = True,
           ex_agent_result = None, ex_completion_delay = None, ex_storage = store,
           ex_pending_response = pending_response, ex_next_outgoing_broadcast_id = 0,
           ex_next_incoming_broadcast_id = 0, ex_pending_incoming = [], ex_i = i, ex_n = n\<rparr>)))"

section \<open>The parts of a poll\<close>

definition serve_peerset ::
    "varint_ops \<Rightarrow> 'p peer_id_ops \<Rightarrow> 'p exec_state \<Rightarrow> 'p exec_input \<Rightarrow> disk \<Rightarrow>
     (anyhow, disk \<times> 'p exec_effect list) res" where
  "serve_peerset V P st i d =
     (case xi_peerset_msg i of
        None \<Rightarrow> Inr (d, [])
      | Some (ReadFromCache tx) \<Rightarrow>
          (case local_read V P (ex_storage st) d (ex_room_id st) of
             Inl (Panic e) \<Rightarrow> Inl (Panic e)
           | Inl (Fail e) \<Rightarrow> Inr (d, [CacheRead tx None])
           | Inr ps \<Rightarrow> Inr (d, [CacheRead tx (Some ps)]))
      | Some (WriteToCache ps tx) \<Rightarrow>
          (case local_write V P (xi_mkdir i) (xi_write i) (ex_storage st) d (ex_room_id st) ps of
             Inl (Panic e) \<Rightarrow> Inl (Panic e)
           | Inl (Fail e) \<Rightarrow> Inr (d, [CacheWritten tx False])
           | Inr d' \<Rightarrow> Inr (d', [CacheWritten tx True])))"

definition echo_sends :: "'p exec_effect list \<Rightarrow> nat" where
  "echo_sends es = length (filter (\<lambda>e. case e of ToEcho _ \<Rightarrow> True | _ \<Rightarrow> False) es)"

definition protocol_sends :: "'p exec_effect list \<Rightarrow> nat" where
  "protocol_sends es = length (filter (\<lambda>e. case e of ToProtocol _ \<Rightarrow> True | _ \<Rightarrow> False) es)"

definition to_echo ::
    "'p exec_input \<Rightarrow> 'p exec_effect list \<Rightarrow> echo_message \<Rightarrow> (anyhow, 'p exec_effect list) res" where
  "to_echo i es m =
     (if xi_echo_ok i (echo_sends es) then Inr (es @ [ToEcho m])
      else Inl (Panic ''echo channel is expected to be open''))"

definition to_protocol ::
    "'p exec_input \<Rightarrow> 'p exec_effect list \<Rightarrow> protocol_request \<Rightarrow> (anyhow, 'p exec_effect list) res" where
  "to_protocol i es r =
     (if xi_protocol_ok i (protocol_sends es) then Inr (es @ [ToProtocol r])
      else Inl (Panic ''application channel is expected to be open''))"

definition computation_context :: "'p exec_state \<Rightarrow> u64 \<Rightarrow> message_context" where
  "computation_context st mid =
     \<lparr>message_type = Computation, protocol_id = ex_protocol_id st, session_id = ex_session_id st,
      message_id = mid\<rparr>"

text \<open>A message of the protocol: to one party, or to all of them through the echo. The
  network message is sent when the queue of futures is drained.\<close>

definition send_direct ::
    "'p exec_state \<Rightarrow> 'p exec_input \<Rightarrow> 'p exec_effect list \<Rightarrow> protocol_response \<Rightarrow> u16 \<Rightarrow>
     (anyhow, 'p exec_effect list) res" where
  "send_direct st i es m remote_index =
     bindR (checked_dec remote_index) (\<lambda>k.
     bindR (peerset_index (ex_peerset st) k) (\<lambda>peer.
       Inr (es @ (case om_sent_feedback m of None \<Rightarrow> [] | Some tx \<Rightarrow> [Feedback tx]) @
            [NetSend (send_message (ex_room_id st) peer (computation_context st 0) (om_body m)
               (xi_channel i))])))"

definition send_broadcast_msg ::
    "'p exec_state \<Rightarrow> 'p exec_input \<Rightarrow> 'p exec_effect list \<Rightarrow> protocol_response \<Rightarrow>
     (anyhow, 'p exec_state \<times> 'p exec_effect list) res" where
  "send_broadcast_msg st i es m =
     (let mid = ex_next_outgoing_broadcast_id st in
      bindR (checked_inc mid) (\<lambda>next.
      bindR (checked_dec (ex_n st)) (\<lambda>_.
      bindR (checked_inc (ex_i st)) (\<lambda>sender.
      bindR (to_echo i es \<lparr>em_message_id = mid, em_sender = sender, em_payload = om_body m,
                           em_response = Outgoing (xi_channel i)\<rparr>) (\<lambda>es'.
        Inr (st\<lparr>ex_next_outgoing_broadcast_id := next\<rparr>,
             es' @ [NetSend (multicast_message (ex_room_id st) (remotes_iter (ex_peerset st))
                      (computation_context st mid) (om_body m) (Some (xi_channel i)))]))))))"

definition send_outgoing ::
    "'p exec_state \<Rightarrow> 'p exec_input \<Rightarrow> 'p exec_effect list \<Rightarrow>
     (anyhow, 'p exec_state \<times> 'p exec_effect list) res" where
  "send_outgoing st i es =
     (case xi_from_protocol i of
        None \<Rightarrow> Inr (st, es)
      | Some m \<Rightarrow>
          (case om_to m of
             Some remote_index \<Rightarrow> bindR (send_direct st i es m remote_index) (\<lambda>es'. Inr (st, es'))
           | None \<Rightarrow> send_broadcast_msg st i es m))"

definition forward_direct_message ::
    "'p exec_input \<Rightarrow> 'p exec_effect list \<Rightarrow> 'p incoming_request \<Rightarrow> u16 \<Rightarrow>
     (anyhow, 'p exec_effect list) res" where
  "forward_direct_message i es msg local_index =
     bindR (checked_inc (ir_peer_index msg)) (\<lambda>sender.
     bindR (checked_inc local_index) (\<lambda>me.
       to_protocol i (es @ [Answer msg \<lparr>or_result = Inr [], or_sent_feedback = None\<rparr>])
         \<lparr>pr_from = sender, pr_to = Some me, pr_payload = ir_payload msg\<rparr>))"

text \<open>A message of the network. \<open>True\<close> marks the early return for a foreign one.\<close>

definition accept_message ::
    "'p exec_state \<Rightarrow> 'p exec_input \<Rightarrow> 'p exec_effect list \<Rightarrow> 'p incoming_request \<Rightarrow>
     (anyhow, 'p exec_state \<times> 'p exec_effect list) res" where
  "accept_message st i es msg =
     bindR
       (if ir_is_broadcast msg then
          bindR (checked_inc (ir_peer_index msg)) (\<lambda>sender.
            Inr (st\<lparr>ex_pending_incoming :=
                   bt_insert (sender, message_id (ir_context msg)) msg (ex_pending_incoming st)\<rparr>, es))
        else bindR (forward_direct_message i es msg (ex_i st)) (\<lambda>es'. Inr (st, es')))
       (\<lambda>(st', es').
          Inr (if ex_agent_result st' \<noteq> None
               then st'\<lparr>ex_completion_delay := Some (sleep (xi_now i) COMPLETION_QUIET_PERIOD)\<rparr>
               else st', es'))"

definition receive_network ::
    "'p exec_state \<Rightarrow> 'p exec_input \<Rightarrow> 'p exec_effect list \<Rightarrow>
     (anyhow, 'p exec_state \<times> 'p exec_effect list \<times> bool) res" where
  "receive_network st i es =
     (case xi_from_network i of
        None \<Rightarrow> Inr (st, es, False)
      | Some msg \<Rightarrow>
          if session_id (ir_context msg) \<noteq> ex_session_id st \<or>
             message_type (ir_context msg) \<noteq> Computation
          then Inr (st, es @ [Answer msg \<lparr>or_result = Inl (), or_sent_feedback = None\<rparr>], True)
          else bindR (accept_message st i es msg) (\<lambda>(st', es'). Inr (st', es', False)))"

section \<open>Releasing groups of broadcasts\<close>

definition ready_senders :: "(u16 \<times> u64, 'v) btree \<Rightarrow> u64 \<Rightarrow> u16 list" where
  "ready_senders pending mid =
     map fst (filter (\<lambda>k. snd k = mid) (map fst pending))"

fun forward_group ::
    "'p exec_input \<Rightarrow> u64 \<Rightarrow> u16 list \<Rightarrow> (u16 \<times> u64, 'p incoming_request) btree \<Rightarrow> 'p exec_effect list \<Rightarrow>
     (anyhow, (u16 \<times> u64, 'p incoming_request) btree \<times> 'p exec_effect list) res" where
  "forward_group i mid [] pending es = Inr (pending, es)"
| "forward_group i mid (sender # senders) pending es =
     bindR (ok_or (Panic ''ready key must exist'') (bt_get (sender, mid) pending)) (\<lambda>msg.
     bindR (to_echo i es \<lparr>em_message_id = mid, em_sender = sender, em_payload = ir_payload msg,
                          em_response = Incoming (ir_pending_response msg)\<rparr>) (\<lambda>es1.
     bindR (to_protocol i es1 \<lparr>pr_from = sender, pr_to = None, pr_payload = ir_payload msg\<rparr>) (\<lambda>es2.
       forward_group i mid senders (bt_remove (sender, mid) pending) es2)))"

text \<open>The loop has no bound of its own, so not returning is a possible value.\<close>

partial_function (option) forward_buffered_messages ::
    "'p exec_input \<Rightarrow> u16 \<Rightarrow> (u16 \<times> u64, 'p incoming_request) btree \<Rightarrow> u64 \<Rightarrow> 'p exec_effect list \<Rightarrow>
     (anyhow fault + (u16 \<times> u64, 'p incoming_request) btree \<times> u64 \<times> 'p exec_effect list) option" where
  "forward_buffered_messages i n pending mid es =
     (if n = 0 then Some (Inl (Panic ''attempt to subtract with overflow''))
      else if length (ready_senders pending mid) \<noteq> unat (n - 1) then Some (Inr (pending, mid, es))
      else case forward_group i mid (ready_senders pending mid) pending es of
          Inl e \<Rightarrow> Some (Inl e)
        | Inr (pending', es') \<Rightarrow>
            if mid = - 1 then Some (Inl (Panic ''attempt to add with overflow''))
            else forward_buffered_messages i n pending' (mid + 1) es')"

declare forward_buffered_messages.simps [code]

section \<open>Completion\<close>

definition complete ::
    "'p exec_state \<Rightarrow> 'p exec_input \<Rightarrow> 'p exec_effect list \<Rightarrow>
     (anyhow, 'p exec_state \<times> 'p exec_effect list \<times> (service_error + unit) poll) res" where
  "complete st i es =
     (case ex_completion_delay st of
        Some delay \<Rightarrow>
          if fired (xi_now i) delay then
            bindR (ok_or (Panic ''completion delay is only set after agent completion'')
                (ex_agent_result st)) (\<lambda>res.
              let out = (case ex_pending_response st of None \<Rightarrow> [] | Some tx \<Rightarrow> [RpcResult tx res]) in
              Inr (st\<lparr>ex_agent_result := None\<rparr>, es @ out,
                   Ready (case res of Inl e \<Rightarrow> Inl (InternalError e) | Inr _ \<Rightarrow> Inr ())))
          else Inr (st, es, Pending)
      | None \<Rightarrow>
          if ex_agent_running st then
            (case xi_agent i of
               Ready res \<Rightarrow>
                 Inr (st\<lparr>ex_agent_result := Some res, ex_agent_running := False,
                         ex_completion_delay := Some (sleep (xi_now i) COMPLETION_QUIET_PERIOD)\<rparr>,
                      es, Pending)
             | Pending \<Rightarrow> Inr (st, es, Pending))
          else Inr (st, es, Pending))"

section \<open>A poll\<close>

text \<open>The futures that hand messages to the network worker are driven to their end in the poll
  that creates them: the code repeats that branch until none of them is pending, before it
  reads from the network.\<close>

definition execution_poll ::
    "varint_ops \<Rightarrow> 'p peer_id_ops \<Rightarrow> 'p exec_state \<Rightarrow> 'p exec_input \<Rightarrow> disk \<Rightarrow>
     (anyhow fault + 'p exec_state \<times> disk \<times> 'p exec_effect list \<times> (service_error + unit) poll) option" where
  "execution_poll V P st0 i d0 =
     (case bindR (serve_peerset V P st0 i d0) (\<lambda>(d, es0).
           bindR (send_outgoing st0 i es0) (\<lambda>(st1, es1).
           bindR (receive_network st1 i es1) (\<lambda>(st2, es2, foreign).
             Inr (d, st2, es2, foreign)))) of
        Inl e \<Rightarrow> Some (Inl e)
      | Inr (d, st2, es2, foreign) \<Rightarrow>
          if foreign then Some (Inr (st2, d, es2, Pending))
          else case forward_buffered_messages i (ex_n st2) (ex_pending_incoming st2)
                  (ex_next_incoming_broadcast_id st2) es2 of
              None \<Rightarrow> None
            | Some (Inl e) \<Rightarrow> Some (Inl e)
            | Some (Inr (pending, mid, es3)) \<Rightarrow>
                (case complete (st2\<lparr>ex_pending_incoming := pending,
                                   ex_next_incoming_broadcast_id := mid\<rparr>) i es3 of
                   Inl e \<Rightarrow> Some (Inl e)
                 | Inr (st3, es4, out) \<Rightarrow> Some (Inr (st3, d, es4, out))))"

section \<open>What the release loop does\<close>

text \<open>The group of a message id: its senders with their requests, in the order of the map,
  and what delivering it amounts to.\<close>

definition group_of :: "(u16 \<times> u64, 'v) btree \<Rightarrow> u64 \<Rightarrow> (u16 \<times> 'v) list" where
  "group_of pending mid = map (\<lambda>e. (fst (fst e), snd e)) (filter (\<lambda>e. snd (fst e) = mid) pending)"

definition deliver :: "u64 \<Rightarrow> (u16 \<times> 'p incoming_request) list \<Rightarrow> 'p exec_effect list" where
  "deliver mid grp = concat (map (\<lambda>(sender, msg).
     [ToEcho \<lparr>em_message_id = mid, em_sender = sender, em_payload = ir_payload msg,
              em_response = Incoming (ir_pending_response msg)\<rparr>,
      ToProtocol \<lparr>pr_from = sender, pr_to = None, pr_payload = ir_payload msg\<rparr>]) grp)"

abbreviation without :: "(u16 \<times> u64, 'v) btree \<Rightarrow> u64 \<Rightarrow> (u16 \<times> u64, 'v) btree" where
  "without pending mid \<equiv> filter (\<lambda>e. snd (fst e) \<noteq> mid) pending"

lemma ready_senders_group: "ready_senders pending mid = map fst (group_of pending mid)"
  by (induction pending) (simp_all add: ready_senders_def group_of_def)

lemma group_of_without: "k \<noteq> mid \<Longrightarrow> group_of (without pending mid) k = group_of pending k"
  by (simp add: group_of_def) (metis (no_types, lifting) filter_cong)

lemma bt_wf_filter: "bt_wf m \<Longrightarrow> bt_wf (filter p m)"
  unfolding bt_wf_def by (induction m) auto

lemma group_of_sorted: "bt_wf pending \<Longrightarrow> sorted_wrt (<) (map fst (group_of pending mid))"
proof (induction pending)
  case Nil
  then show ?case by (simp add: group_of_def)
next
  case (Cons e pending)
  then show ?case by (cases e) (auto simp: group_of_def less_prod_def)
qed

lemma group_of_entries: "((s, mid), msg) \<in> set pending \<longleftrightarrow> (s, msg) \<in> set (group_of pending mid)"
  by (force simp: group_of_def)

lemma length_without: "group_of pending mid \<noteq> [] \<Longrightarrow> length (without pending mid) < length pending"
  by (auto simp: group_of_def filter_empty_conv intro: length_filter_less)

text \<open>Delivering a group panics when a channel refuses, and otherwise removes exactly it.\<close>

lemma forward_group_entries:
  assumes "bt_wf pending" and "distinct (map fst grp)"
    and "\<And>s msg. (s, msg) \<in> set grp \<Longrightarrow> ((s, mid), msg) \<in> set pending"
  shows "(\<exists>e. forward_group i mid (map fst grp) pending es = Inl (Panic e)) \<or>
    forward_group i mid (map fst grp) pending es =
      Inr (filter (\<lambda>e. fst e \<notin> (\<lambda>s. (s, mid)) ` set (map fst grp)) pending, es @ deliver mid grp)"
  using assms
proof (induction grp arbitrary: pending es)
  case Nil
  then show ?case by (simp add: deliver_def)
next
  case (Cons x grp)
  obtain s msg where x: "x = (s, msg)" by fastforce
  have get: "bt_get (s, mid) pending = Some msg"
    using Cons.prems(1,3) x by (simp add: bt_get_Some_iff)
  let ?p = "bt_remove (s, mid) pending"
  have entries: "((t, mid), m) \<in> set ?p" if "(t, m) \<in> set grp" for t m
    using Cons.prems(2,3) that x by (auto simp: bt_remove_def image_iff)
  have d: "distinct (map fst grp)" using Cons.prems(2) by simp
  note IH = Cons.IH [OF bt_wf_remove [OF Cons.prems(1)] d entries]
  have "filter (\<lambda>e. fst e \<notin> (\<lambda>s. (s, mid)) ` set (map fst grp)) ?p =
      filter (\<lambda>e. fst e \<notin> (\<lambda>s. (s, mid)) ` set (map fst (x # grp))) pending"
    unfolding bt_remove_def filter_filter by (rule filter_cong) (auto simp: x)
  with IH get x show ?case
    by (force simp: to_echo_def to_protocol_def deliver_def)
qed

lemma forward_group_ready:
  assumes "bt_wf pending"
  shows "(\<exists>e. forward_group i mid (ready_senders pending mid) pending es = Inl (Panic e)) \<or>
    forward_group i mid (ready_senders pending mid) pending es =
      Inr (without pending mid, es @ deliver mid (group_of pending mid))"
proof -
  have d: "distinct (map fst (group_of pending mid))"
    using group_of_sorted [OF assms] by (metis strict_sorted_iff)
  have "filter (\<lambda>e. fst e \<notin> (\<lambda>s. (s, mid)) ` set (map fst (group_of pending mid))) pending =
      without pending mid"
    by (rule filter_cong) (force simp: group_of_def image_iff)+
  with forward_group_entries [OF assms d, of mid i es] show ?thesis
    by (simp add: ready_senders_group group_of_entries)
qed


text \<open>The ids that one call releases: \<open>k\<close> of them from \<open>mid\<close> on, each complete, and the next
  one is not.\<close>

definition releases ::
    "u16 \<Rightarrow> (u16 \<times> u64, 'p incoming_request) btree \<Rightarrow> u64 \<Rightarrow> 'p exec_effect list \<Rightarrow>
     nat \<Rightarrow> (u16 \<times> u64, 'p incoming_request) btree \<Rightarrow> u64 \<Rightarrow> 'p exec_effect list \<Rightarrow> bool" where
  "releases n pending mid es k pending' mid' es' \<longleftrightarrow>
     mid' = mid + of_nat k \<and> unat mid + k < 2 ^ 64 \<and>
     (\<forall>j < k. length (group_of pending (mid + of_nat j)) = unat n - 1) \<and>
     length (group_of pending mid') \<noteq> unat n - 1 \<and>
     es' = es @ concat (map (\<lambda>j. deliver (mid + of_nat j) (group_of pending (mid + of_nat j))) [0..<k]) \<and>
     pending' = filter (\<lambda>e. \<forall>j < k. snd (fst e) \<noteq> mid + of_nat j) pending"

lemma later_id_neq:
  assumes "mid \<noteq> - 1" and "unat (mid + 1) + k < 2 ^ 64"
  shows "mid + 1 + of_nat k \<noteq> (mid :: u64)"
proof
  assume "mid + 1 + of_nat k = mid"
  then have "of_nat (Suc k) = (0 :: u64)" by (simp add: algebra_simps)
  moreover have "Suc k < 2 ^ 64" using assms unat_checked_inc [OF assms(1)] by simp
  ultimately show False by (simp add: word_of_nat_eq_0_iff nat_dvd_not_less del: of_nat_Suc)
qed

lemma releases_step:
  assumes "releases n (without pending mid) (mid + 1) (es @ deliver mid (group_of pending mid)) k p' m' es'"
    and "length (group_of pending mid) = unat n - 1" and "mid \<noteq> - 1"
  shows "releases n pending mid es (Suc k) p' m' es'"
proof -
  have b: "unat (mid + 1) + k < 2 ^ 64" and m': "m' = mid + 1 + of_nat k"
    using assms(1) by (simp_all add: releases_def)
  have g: "group_of (without pending mid) (mid + 1 + of_nat j) = group_of pending (mid + of_nat (Suc j))"
    if "j \<le> k" for j
  proof -
    have "unat (mid + 1) + j < 2 ^ 64" using b that by simp
    from later_id_neq [OF assms(3) this] show ?thesis by (simp add: group_of_without algebra_simps)
  qed
  have "unat mid + Suc k < 2 ^ 64" using b unat_checked_inc [OF assms(3)] by simp
  moreover have "length (group_of pending m') \<noteq> unat n - 1"
    using assms(1) g [of k] m' by (simp add: releases_def algebra_simps)
  moreover have "\<forall>j < Suc k. length (group_of pending (mid + of_nat j)) = unat n - 1"
    using assms(1,2) g by (auto simp: releases_def less_Suc_eq_0_disj)
  moreover have "es' = es @ concat (map (\<lambda>j. deliver (mid + of_nat j) (group_of pending (mid + of_nat j))) [0..<Suc k])"
  proof -
    have "map (\<lambda>j. deliver (mid + 1 + of_nat j) (group_of (without pending mid) (mid + 1 + of_nat j))) [0..<k] =
        map (\<lambda>j. deliver (mid + of_nat j) (group_of pending (mid + of_nat j))) (map Suc [0..<k])"
      unfolding map_map by (rule map_cong) (use g in \<open>auto simp: algebra_simps\<close>)
    then show ?thesis using assms(1) unfolding releases_def upt_conv_Cons [OF zero_less_Suc]
      by (simp add: map_Suc_upt del: upt_Suc)
  qed
  moreover have "p' = filter (\<lambda>e. \<forall>j < Suc k. snd (fst e) \<noteq> mid + of_nat j) pending"
    using assms(1) by (auto simp: releases_def less_Suc_eq_0_disj algebra_simps intro!: filter_cong)
  moreover have "m' = mid + of_nat (Suc k)" using m' by (simp add: algebra_simps)
  ultimately show ?thesis unfolding releases_def by blast
qed

lemma forward_buffered_result:
  assumes "2 \<le> unat n" and "bt_wf pending"
    and "forward_buffered_messages i n pending mid es = Some (Inr (pending', mid', es'))"
  shows "\<exists>k. releases n pending mid es k pending' mid' es'"
  using assms(2,3)
proof (induction "length pending" arbitrary: pending mid es rule: less_induct)
  case less
  have "n \<noteq> 0" using assms(1) by auto
  with assms(1) have n: "n \<noteq> 0" "unat (n - 1) = unat n - 1" "0 < unat n - 1" by (simp_all add: unat_minus_one)
  show ?case
  proof (cases "length (ready_senders pending mid) = unat (n - 1)")
    case True
    then have l: "length (group_of pending mid) = unat n - 1" using n by (simp add: ready_senders_group)
    have "mid \<noteq> - 1 \<and> forward_buffered_messages i n (without pending mid) (mid + 1)
        (es @ deliver mid (group_of pending mid)) = Some (Inr (pending', mid', es'))"
      using less.prems(2) forward_group_ready [OF less.prems(1), of i mid es] True n
      by (subst (asm) forward_buffered_messages.simps) (auto split: if_splits)
    moreover have "length (without pending mid) < length pending"
      by (rule length_without) (use l n in auto)
    ultimately show ?thesis
      using less.hyps [of "without pending mid"] releases_step [OF _ l] less.prems(1)
      by (meson bt_wf_filter)
  next
    case False
    then have "pending' = pending \<and> mid' = mid \<and> es' = es"
      using less.prems(2) n by (subst (asm) forward_buffered_messages.simps) simp
    with False n have "releases n pending mid es 0 pending' mid' es'"
      using unsigned_less [of mid, where 'a = nat] by (simp add: releases_def ready_senders_group)
    then show ?thesis by blast
  qed
qed

section \<open>Runs\<close>

fun execution_run ::
    "varint_ops \<Rightarrow> 'p peer_id_ops \<Rightarrow> 'p exec_state \<Rightarrow> 'p exec_input list \<Rightarrow> disk \<Rightarrow>
     (anyhow fault + 'p exec_state \<times> disk \<times> 'p exec_effect list \<times> (service_error + unit) poll) option" where
  "execution_run V P st [] d = Some (Inr (st, d, [], Pending))"
| "execution_run V P st (i # is) d =
     (case execution_poll V P st i d of
        None \<Rightarrow> None
      | Some (Inl e) \<Rightarrow> Some (Inl e)
      | Some (Inr (st1, d1, es, Ready r)) \<Rightarrow> Some (Inr (st1, d1, es, Ready r))
      | Some (Inr (st1, d1, es, Pending)) \<Rightarrow>
          (case execution_run V P st1 is d1 of
             None \<Rightarrow> None
           | Some (Inl e) \<Rightarrow> Some (Inl e)
           | Some (Inr (st2, d2, es', out)) \<Rightarrow> Some (Inr (st2, d2, es @ es', out))))"

text \<open>The remote broadcasts that reached the echo gadget and the protocol.\<close>

fun delivered :: "'p exec_effect list \<Rightarrow> (u64 \<times> u16 \<times> bytes) list" where
  "delivered [] = []"
| "delivered (ToEcho m # es) =
     (case em_response m of
        Incoming _ \<Rightarrow> (em_message_id m, em_sender m, em_payload m) # delivered es
      | Outgoing _ \<Rightarrow> delivered es)"
| "delivered (_ # es) = delivered es"

fun protocol_broadcasts :: "'p exec_effect list \<Rightarrow> (u16 \<times> bytes) list" where
  "protocol_broadcasts [] = []"
| "protocol_broadcasts (ToProtocol r # es) =
     (if pr_to r = None then (pr_from r, pr_payload r) # protocol_broadcasts es else protocol_broadcasts es)"
| "protocol_broadcasts (_ # es) = protocol_broadcasts es"

text \<open>The results reported to the local caller.\<close>

fun rpc_results :: "'p exec_effect list \<Rightarrow> (oneshot \<times> (anyhow + bytes)) list" where
  "rpc_results [] = []"
| "rpc_results (RpcResult tx r # es) = (tx, r) # rpc_results es"
| "rpc_results (_ # es) = rpc_results es"

lemma effects_append [simp]:
  "delivered (xs @ ys) = delivered xs @ delivered ys"
  "protocol_broadcasts (xs @ ys) = protocol_broadcasts xs @ protocol_broadcasts ys"
  "rpc_results (xs @ ys) = rpc_results xs @ rpc_results ys"
proof -
  show "delivered (xs @ ys) = delivered xs @ delivered ys"
    by (induction xs rule: delivered.induct) (simp_all split: echo_response.split)
  show "protocol_broadcasts (xs @ ys) = protocol_broadcasts xs @ protocol_broadcasts ys"
    by (induction xs rule: protocol_broadcasts.induct) simp_all
  show "rpc_results (xs @ ys) = rpc_results xs @ rpc_results ys"
    by (induction xs rule: rpc_results.induct) simp_all
qed

lemma deliver_effects [simp]:
  "delivered (deliver mid grp) = map (\<lambda>(s, m). (mid, s, ir_payload m)) grp"
  "protocol_broadcasts (deliver mid grp) = map (\<lambda>(s, m). (s, ir_payload m)) grp"
  "rpc_results (deliver mid grp) = []"
  by (induction grp) (auto simp: deliver_def)

lemma concat_deliver_effects:
  "delivered (concat (map (\<lambda>j. deliver (f j) (g j)) js)) =
     concat (map (\<lambda>j. map (\<lambda>(s, m). (f j, s, ir_payload m)) (g j)) js)"
  "protocol_broadcasts (concat (map (\<lambda>j. deliver (f j) (g j)) js)) =
     map snd (delivered (concat (map (\<lambda>j. deliver (f j) (g j)) js)))"
  "rpc_results (concat (map (\<lambda>j. deliver (f j) (g j)) js)) = []"
  by (induction js) (auto simp: comp_def case_prod_beta)

text \<open>The parts of a poll before the release loop.\<close>

definition silent :: "'p exec_effect list \<Rightarrow> bool" where
  "silent es \<longleftrightarrow> delivered es = [] \<and> protocol_broadcasts es = [] \<and> rpc_results es = []"

lemma serve_peerset_silent: "serve_peerset V P st i d = Inr (d', es) \<Longrightarrow> silent es"
  by (auto simp: serve_peerset_def silent_def split: option.splits peerset_msg.splits sum.splits fault.splits)

definition exec_wf :: "'p exec_state \<Rightarrow> bool" where
  "exec_wf st \<longleftrightarrow> 2 \<le> unat (ex_n st) \<and> bt_wf (ex_pending_incoming st) \<and>
     (ex_completion_delay st \<noteq> None \<longleftrightarrow> ex_agent_result st \<noteq> None) \<and>
     (ex_agent_running st \<longleftrightarrow> ex_agent_result st = None)"

text \<open>What the sending and receiving parts leave alone.\<close>

definition exec_same :: "'p exec_state \<Rightarrow> 'p exec_state \<Rightarrow> bool" where
  "exec_same st st' \<longleftrightarrow>
     ex_n st' = ex_n st \<and> ex_next_incoming_broadcast_id st' = ex_next_incoming_broadcast_id st \<and>
     ex_agent_result st' = ex_agent_result st \<and> ex_agent_running st' = ex_agent_running st \<and>
     ex_pending_response st' = ex_pending_response st \<and> ex_session_id st' = ex_session_id st"

lemma send_outgoing_frame:
  assumes "send_outgoing st i es = Inr (st', es')" and "silent es"
  shows "silent es' \<and> exec_same st st' \<and> ex_pending_incoming st' = ex_pending_incoming st \<and>
    ex_completion_delay st' = ex_completion_delay st"
  using assms
  by (auto simp: send_outgoing_def send_direct_def send_broadcast_msg_def to_echo_def silent_def
      exec_same_def Let_def split: option.splits if_splits)

lemma receive_network_frame:
  assumes "receive_network st i es = Inr (st', es', foreign)" and "silent es" and "exec_wf st"
  shows "silent es' \<and> exec_same st st' \<and> exec_wf st' \<and>
    (ex_completion_delay st' = ex_completion_delay st \<or>
     ex_completion_delay st' = Some (xi_now i + 500))"
  using assms
  by (auto simp: receive_network_def accept_message_def forward_direct_message_def to_protocol_def
      silent_def exec_same_def exec_wf_def sleep_def COMPLETION_QUIET_PERIOD_def
      split: option.splits if_splits)

lemma execution_poll_cases:
  assumes "execution_poll V P st i d = Some (Inr (st', d', es, out))" and "exec_wf st"
  obtains st2 es2 k pending mid es3 where
    "silent es2" "exec_same st st2" "exec_wf st2"
    "ex_completion_delay st2 = ex_completion_delay st \<or> ex_completion_delay st2 = Some (xi_now i + 500)"
    "(out = Pending \<and> st' = st2 \<and> es = es2) \<or>
     (releases (ex_n st) (ex_pending_incoming st2) (ex_next_incoming_broadcast_id st) es2 k pending mid es3 \<and>
      complete (st2\<lparr>ex_pending_incoming := pending, ex_next_incoming_broadcast_id := mid\<rparr>) i es3 =
        Inr (st', es, out))"
proof -
  obtain d1 es0 st1 es1 st2 es2 foreign where
    a: "serve_peerset V P st i d = Inr (d1, es0)" "send_outgoing st i es0 = Inr (st1, es1)"
      "receive_network st1 i es1 = Inr (st2, es2, foreign)"
    and b: "if foreign then (st', d', es, out) = (st2, d1, es2, Pending)
      else \<exists>pending mid es3. forward_buffered_messages i (ex_n st2) (ex_pending_incoming st2)
          (ex_next_incoming_broadcast_id st2) es2 = Some (Inr (pending, mid, es3)) \<and>
        complete (st2\<lparr>ex_pending_incoming := pending, ex_next_incoming_broadcast_id := mid\<rparr>) i es3 =
          Inr (st', es, out)"
    using assms(1)
    by (auto simp: execution_poll_def split: sum.split_asm option.split_asm if_split_asm)
  have s1: "silent es1" "exec_same st st1" "ex_pending_incoming st1 = ex_pending_incoming st"
    "ex_completion_delay st1 = ex_completion_delay st"
    using send_outgoing_frame [OF a(2) serve_peerset_silent [OF a(1)]] by simp_all
  then have "exec_wf st1" using assms(2) by (simp add: exec_wf_def exec_same_def)
  from receive_network_frame [OF a(3) s1(1) this] s1
  have s2: "silent es2" "exec_same st st2" "exec_wf st2"
    "ex_completion_delay st2 = ex_completion_delay st \<or> ex_completion_delay st2 = Some (xi_now i + 500)"
    by (auto simp: exec_same_def)
  show ?thesis
  proof (cases foreign)
    case True
    with b that [OF s2] show ?thesis by simp
  next
    case False
    with b obtain pending mid es3 where f: "forward_buffered_messages i (ex_n st2) (ex_pending_incoming st2)
          (ex_next_incoming_broadcast_id st2) es2 = Some (Inr (pending, mid, es3))"
      and c: "complete (st2\<lparr>ex_pending_incoming := pending, ex_next_incoming_broadcast_id := mid\<rparr>) i es3 =
          Inr (st', es, out)" by auto
    from forward_buffered_result [OF _ _ f] s2(3) obtain k where
      "releases (ex_n st2) (ex_pending_incoming st2) (ex_next_incoming_broadcast_id st2) es2 k pending mid es3"
      by (auto simp: exec_wf_def)
    moreover have "ex_n st2 = ex_n st"
      "ex_next_incoming_broadcast_id st2 = ex_next_incoming_broadcast_id st"
      using s2(2) by (simp_all add: exec_same_def)
    ultimately show ?thesis using c that [OF s2] by (metis (no_types, lifting))
  qed
qed

lemma complete_frame:
  assumes "complete st i es = Inr (st', es', out)" and "exec_wf st"
  shows "delivered es' = delivered es \<and> protocol_broadcasts es' = protocol_broadcasts es \<and>
    ex_n st' = ex_n st \<and> ex_next_incoming_broadcast_id st' = ex_next_incoming_broadcast_id st \<and>
    ex_pending_response st' = ex_pending_response st \<and>
    (out = Pending \<longrightarrow> exec_wf st')"
  using assms
  by (auto simp: complete_def exec_wf_def Let_def split: option.splits if_splits poll.splits)

text \<open>The groups of a sequence of deliveries: complete, of consecutive ids, in sender order.\<close>

definition grouped :: "u16 \<Rightarrow> nat \<Rightarrow> (u64 \<times> u16 \<times> bytes) list list \<Rightarrow> bool" where
  "grouped n from gs \<longleftrightarrow>
     (\<forall>j < length gs. length (gs ! j) = unat n - 1 \<and> (\<forall>x \<in> set (gs ! j). fst x = of_nat (from + j)) \<and>
        sorted_wrt (<) (map (fst \<circ> snd) (gs ! j)))"

lemma grouped_append:
  "grouped n a xs \<Longrightarrow> grouped n (a + length xs) ys \<Longrightarrow> grouped n a (xs @ ys)"
proof (unfold grouped_def, intro allI impI)
  fix j
  assume xs: "\<forall>j<length xs. length (xs ! j) = unat n - 1 \<and> (\<forall>x\<in>set (xs ! j). fst x = of_nat (a + j)) \<and>
      sorted_wrt (<) (map (fst \<circ> snd) (xs ! j))"
    and ys: "\<forall>j<length ys. length (ys ! j) = unat n - 1 \<and>
      (\<forall>x\<in>set (ys ! j). fst x = of_nat (a + length xs + j)) \<and> sorted_wrt (<) (map (fst \<circ> snd) (ys ! j))"
    and j: "j < length (xs @ ys)"
  show "length ((xs @ ys) ! j) = unat n - 1 \<and> (\<forall>x\<in>set ((xs @ ys) ! j). fst x = of_nat (a + j)) \<and>
      sorted_wrt (<) (map (fst \<circ> snd) ((xs @ ys) ! j))"
  proof (cases "j < length xs")
    case True
    with xs show ?thesis by (simp add: nth_append)
  next
    case False
    then have "j - length xs < length ys" "a + length xs + (j - length xs) = a + j" using j by auto
    with False ys show ?thesis by (metis nth_append)
  qed
qed

lemma releases_grouped:
  assumes "releases n pending mid es k pending' mid' es'" and "bt_wf pending" and "silent es"
  shows "\<exists>gs. delivered es' = concat gs \<and> protocol_broadcasts es' = map snd (delivered es') \<and>
    length gs = k \<and> unat mid' = unat mid + k \<and> grouped n (unat mid) gs"
proof -
  let ?g = "\<lambda>j. map (\<lambda>(s, m). (mid + of_nat j, s, ir_payload m)) (group_of pending (mid + of_nat j))"
  have r: "es' = es @ concat (map (\<lambda>j. deliver (mid + of_nat j) (group_of pending (mid + of_nat j))) [0..<k])"
    "mid' = mid + of_nat k" "unat mid + k < 2 ^ 64"
    "\<forall>j < k. length (group_of pending (mid + of_nat j)) = unat n - 1"
    using assms(1) by (simp_all add: releases_def)
  have "delivered es' = concat (map ?g [0..<k])" "protocol_broadcasts es' = map snd (delivered es')"
    using assms(3) by (simp_all add: r(1) silent_def concat_deliver_effects)
  moreover have "sorted_wrt (<) (map (fst \<circ> snd) (?g j))" for j
    using group_of_sorted [OF assms(2), of "mid + of_nat j"] by (simp add: comp_def case_prod_beta)
  then have "grouped n (unat mid) (map ?g [0..<k])"
    using r(4) by (auto simp: grouped_def)
  moreover have "unat mid' = unat mid + k"
    using r(2,3) by (simp add: unat_word_ariths unat_of_nat)
  ultimately show ?thesis by (intro exI [of _ "map ?g [0..<k]"]) simp
qed

lemma execution_poll_delivers:
  assumes "execution_poll V P st i d = Some (Inr (st', d', es, out))" and "exec_wf st"
  shows "\<exists>gs. delivered es = concat gs \<and> protocol_broadcasts es = map snd (delivered es) \<and>
    unat (ex_next_incoming_broadcast_id st') = unat (ex_next_incoming_broadcast_id st) + length gs \<and>
    grouped (ex_n st) (unat (ex_next_incoming_broadcast_id st)) gs \<and> ex_n st' = ex_n st \<and>
    ex_pending_response st' = ex_pending_response st \<and> (out = Pending \<longrightarrow> exec_wf st')"
  using assms
proof (rule execution_poll_cases)
  fix st2 es2 k pending mid es3
  assume s: "silent es2" "exec_same st st2" "exec_wf st2"
    and c: "(out = Pending \<and> st' = st2 \<and> es = es2) \<or>
     (releases (ex_n st) (ex_pending_incoming st2) (ex_next_incoming_broadcast_id st) es2 k pending mid es3 \<and>
      complete (st2\<lparr>ex_pending_incoming := pending, ex_next_incoming_broadcast_id := mid\<rparr>) i es3 =
        Inr (st', es, out))"
  from c show ?thesis
  proof
    assume "out = Pending \<and> st' = st2 \<and> es = es2"
    with s show ?thesis by (intro exI [of _ "[]"]) (auto simp: silent_def exec_same_def grouped_def)
  next
    assume r: "releases (ex_n st) (ex_pending_incoming st2) (ex_next_incoming_broadcast_id st) es2 k pending mid es3 \<and>
      complete (st2\<lparr>ex_pending_incoming := pending, ex_next_incoming_broadcast_id := mid\<rparr>) i es3 =
        Inr (st', es, out)"
    let ?st = "st2\<lparr>ex_pending_incoming := pending, ex_next_incoming_broadcast_id := mid\<rparr>"
    have "exec_wf ?st" using r s(3) by (auto simp: exec_wf_def releases_def bt_wf_filter)
    with r s releases_grouped [of "ex_n st" "ex_pending_incoming st2"] complete_frame [of ?st i es3 st' es out]
    show ?thesis by (fastforce simp: exec_wf_def exec_same_def)
  qed
qed

text \<open>How a poll moves towards completion.\<close>

definition report :: "anyhow + bytes \<Rightarrow> service_error + unit" where
  "report res = (case res of Inl e \<Rightarrow> Inl (InternalError e) | Inr _ \<Rightarrow> Inr ())"

definition quiet_until :: "'p exec_state \<Rightarrow> (anyhow + bytes) \<Rightarrow> instant \<Rightarrow> bool" where
  "quiet_until st res dl \<longleftrightarrow> ex_agent_result st = Some res \<and> ex_completion_delay st = Some dl"

lemma complete_result:
  assumes "complete st i es = Inr (st', es', out)" and "exec_wf st" and "rpc_results es = []"
  shows "case out of
      Pending \<Rightarrow> rpc_results es' = [] \<and>
        (\<forall>res dl. quiet_until st res dl \<longrightarrow> quiet_until st' res dl) \<and>
        (ex_agent_result st = None \<longrightarrow> ex_agent_result st' = None \<or>
          (\<exists>res. xi_agent i = Ready res \<and> quiet_until st' res (xi_now i + 500)))
    | Ready r \<Rightarrow> \<exists>res dl. quiet_until st res dl \<and> dl \<le> xi_now i \<and> r = report res \<and>
        rpc_results es' = map (\<lambda>tx. (tx, res)) (opt_list (ex_pending_response st))"
  using assms
  by (auto simp: complete_def quiet_until_def report_def exec_wf_def fired_def sleep_def
      COMPLETION_QUIET_PERIOD_def Let_def split: option.splits if_splits poll.splits)

lemma execution_poll_completion:
  assumes "execution_poll V P st i d = Some (Inr (st', d', es, out))" and "exec_wf st"
  shows "case out of
      Pending \<Rightarrow> rpc_results es = [] \<and>
        (\<forall>res dl. quiet_until st res dl \<longrightarrow> quiet_until st' res dl \<or> quiet_until st' res (xi_now i + 500)) \<and>
        (ex_agent_result st = None \<longrightarrow> ex_agent_result st' = None \<or>
          (\<exists>res. xi_agent i = Ready res \<and> quiet_until st' res (xi_now i + 500)))
    | Ready r \<Rightarrow> \<exists>res dl. quiet_until st res dl \<and> dl \<le> xi_now i \<and> r = report res \<and>
        rpc_results es = map (\<lambda>tx. (tx, res)) (opt_list (ex_pending_response st))"
  using assms
proof (rule execution_poll_cases)
  fix st2 es2 k pending mid es3
  assume s: "silent es2" "exec_same st st2" "exec_wf st2"
    and dl: "ex_completion_delay st2 = ex_completion_delay st \<or> ex_completion_delay st2 = Some (xi_now i + 500)"
    and c: "(out = Pending \<and> st' = st2 \<and> es = es2) \<or>
     (releases (ex_n st) (ex_pending_incoming st2) (ex_next_incoming_broadcast_id st) es2 k pending mid es3 \<and>
      complete (st2\<lparr>ex_pending_incoming := pending, ex_next_incoming_broadcast_id := mid\<rparr>) i es3 =
        Inr (st', es, out))"
  have q: "quiet_until st2 res x \<longrightarrow> quiet_until st res x \<or> x = xi_now i + 500"
    "quiet_until st res x \<longrightarrow> quiet_until st2 res x \<or> quiet_until st2 res (xi_now i + 500)" for res x
    using s(2) dl by (auto simp: quiet_until_def exec_same_def)
  have none: "ex_agent_result st2 = ex_agent_result st" "ex_pending_response st2 = ex_pending_response st"
    using s(2) by (simp_all add: exec_same_def)
  from c show ?thesis
  proof
    assume "out = Pending \<and> st' = st2 \<and> es = es2"
    with s q none show ?thesis by (auto simp: silent_def)
  next
    assume r: "releases (ex_n st) (ex_pending_incoming st2) (ex_next_incoming_broadcast_id st) es2 k pending mid es3 \<and>
      complete (st2\<lparr>ex_pending_incoming := pending, ex_next_incoming_broadcast_id := mid\<rparr>) i es3 =
        Inr (st', es, out)"
    let ?st = "st2\<lparr>ex_pending_incoming := pending, ex_next_incoming_broadcast_id := mid\<rparr>"
    have "exec_wf ?st" using r s(3) by (auto simp: exec_wf_def releases_def bt_wf_filter)
    moreover have "rpc_results es3 = []"
      using r s(1) by (auto simp: releases_def silent_def concat_deliver_effects)
    moreover have "quiet_until ?st = quiet_until st2" "ex_agent_result ?st = ex_agent_result st2"
      "ex_pending_response ?st = ex_pending_response st2"
      by (simp_all add: fun_eq_iff quiet_until_def)
    ultimately have "case out of
      Pending \<Rightarrow> rpc_results es = [] \<and>
        (\<forall>res dl. quiet_until st2 res dl \<longrightarrow> quiet_until st' res dl) \<and>
        (ex_agent_result st2 = None \<longrightarrow> ex_agent_result st' = None \<or>
          (\<exists>res. xi_agent i = Ready res \<and> quiet_until st' res (xi_now i + 500)))
    | Ready r \<Rightarrow> \<exists>res dl. quiet_until st2 res dl \<and> dl \<le> xi_now i \<and> r = report res \<and>
        rpc_results es = map (\<lambda>tx. (tx, res)) (opt_list (ex_pending_response st2))"
      using complete_result [of ?st i es3 st' es out] r by (cases out) simp_all
    with q none show ?thesis by (cases out) (simp_all, blast, fastforce)
  qed
qed

lemma execution_new_wf:
  assumes "execution_new room sid ag svc ps store resp = Inr st"
  shows "exec_wf st \<and> ex_next_incoming_broadcast_id st = 0 \<and> ex_agent_result st = None \<and>
    ex_pending_response st = resp \<and> ex_n st = of_nat (peerset_size ps) \<and> ex_completion_delay st = None \<and>
    ex_session_id st = sid"
proof -
  have "n \<noteq> 0 \<Longrightarrow> n - 1 \<noteq> 0 \<Longrightarrow> 2 \<le> unat n" for n :: u16
    by (metis One_nat_def Suc_1 diff_self less_2_cases not_less unat_0 unat_1 word_unat_eq_iff)
  with assms show ?thesis by (auto simp: execution_new_def exec_wf_def Let_def split: if_splits)
qed

text \<open>A run of pending polls, one poll at a time.\<close>

lemma execution_run_Cons:
  assumes "execution_run V P st (i # is) d = Some (Inr (st', d', es, out))"
  obtains (decided) r where "execution_poll V P st i d = Some (Inr (st', d', es, Ready r))" "out = Ready r"
  | (goes_on) st1 d1 es1 es2 where "execution_poll V P st i d = Some (Inr (st1, d1, es1, Pending))"
      "execution_run V P st1 is d1 = Some (Inr (st', d', es2, out))" "es = es1 @ es2"
  using assms by (auto split: option.split_asm sum.split_asm poll.split_asm)

lemma execution_run_delivers:
  assumes "execution_run V P st is d = Some (Inr (st', d', es, out))" and "exec_wf st"
  shows "\<exists>gs. delivered es = concat gs \<and> protocol_broadcasts es = map snd (delivered es) \<and>
    unat (ex_next_incoming_broadcast_id st') = unat (ex_next_incoming_broadcast_id st) + length gs \<and>
    grouped (ex_n st) (unat (ex_next_incoming_broadcast_id st)) gs"
  using assms
proof (induction "is" arbitrary: st d es)
  case Nil
  then show ?case by (intro exI [of _ "[]"]) (simp add: grouped_def)
next
  case (Cons i "is")
  from Cons.prems(1) show ?case
  proof (cases rule: execution_run_Cons)
    case (decided r)
    from execution_poll_delivers [OF decided(1) Cons.prems(2)] show ?thesis by blast
  next
    case (goes_on st1 d1 es1 es2)
    obtain gs where g: "delivered es1 = concat gs" "protocol_broadcasts es1 = map snd (delivered es1)"
      "unat (ex_next_incoming_broadcast_id st1) = unat (ex_next_incoming_broadcast_id st) + length gs"
      "grouped (ex_n st) (unat (ex_next_incoming_broadcast_id st)) gs" "ex_n st1 = ex_n st" "exec_wf st1"
      using execution_poll_delivers [OF goes_on(1) Cons.prems(2)] by auto
    obtain hs where h: "delivered es2 = concat hs" "protocol_broadcasts es2 = map snd (delivered es2)"
      "unat (ex_next_incoming_broadcast_id st') = unat (ex_next_incoming_broadcast_id st1) + length hs"
      "grouped (ex_n st1) (unat (ex_next_incoming_broadcast_id st1)) hs"
      using Cons.IH [OF goes_on(2) g(6)] by blast
    have "grouped (ex_n st) (unat (ex_next_incoming_broadcast_id st)) (gs @ hs)"
      using g h by (intro grouped_append) simp_all
    with g h goes_on(3) show ?thesis by (intro exI [of _ "gs @ hs"]) simp
  qed
qed

lemma quiet_until_origin:
  assumes "execution_poll V P st i d = Some (Inr (st1, d1, es1, Pending))" and "exec_wf st"
    and q: "quiet_until st1 res dl"
  shows "(\<exists>dl'. quiet_until st res dl' \<and> (dl = dl' \<or> dl = xi_now i + 500)) \<or>
    (xi_agent i = Ready res \<and> dl = xi_now i + 500)"
proof (cases "ex_agent_result st")
  case None
  with execution_poll_completion [OF assms(1,2)] q show ?thesis by (auto simp: quiet_until_def)
next
  case (Some res')
  then obtain dl' where "quiet_until st res' dl'"
    using assms(2) by (auto simp: quiet_until_def exec_wf_def)
  moreover from this have "quiet_until st1 res' dl' \<or> quiet_until st1 res' (xi_now i + 500)"
    using execution_poll_completion [OF assms(1,2)] by simp
  ultimately show ?thesis using q by (auto simp: quiet_until_def)
qed

text \<open>When a session whose agent gave \<open>res\<close> may end: the quiet period is over, or the agent has
  returned and the quiet period that began then is over.\<close>

definition reported_after :: "'p exec_state \<Rightarrow> 'p exec_input list \<Rightarrow> (anyhow + bytes) \<Rightarrow> bool" where
  "reported_after st is res \<longleftrightarrow>
     (\<exists>dl j. quiet_until st res dl \<and> j \<in> set is \<and> dl \<le> xi_now j) \<or>
     (\<exists>i j. i \<in> set is \<and> j \<in> set is \<and> xi_agent i = Ready res \<and> xi_now i + 500 \<le> xi_now j)"

lemma reported_after_step:
  assumes "execution_poll V P st i d = Some (Inr (st1, d1, es1, Pending))" and "exec_wf st"
    and "\<And>dl. quiet_until st res dl \<Longrightarrow> dl \<le> xi_now i + 500" and "reported_after st1 is res"
  shows "reported_after st (i # is) res"
  using assms(4) unfolding reported_after_def
proof (elim disjE exE conjE)
  fix dl j
  assume j: "quiet_until st1 res dl" "j \<in> set is" "dl \<le> xi_now j"
  have "(\<exists>dl'. quiet_until st res dl' \<and> dl' \<le> dl) \<or> (xi_agent i = Ready res \<and> dl = xi_now i + 500)"
    using quiet_until_origin [OF assms(1,2) j(1)] assms(3) by fastforce
  with j show "(\<exists>dl j. quiet_until st res dl \<and> j \<in> set (i # is) \<and> dl \<le> xi_now j) \<or>
      (\<exists>k j. k \<in> set (i # is) \<and> j \<in> set (i # is) \<and> xi_agent k = Ready res \<and> xi_now k + 500 \<le> xi_now j)"
    by (meson le_trans list.set_intros(1,2) order_eq_refl)
qed auto

lemma execution_run_reports:
  assumes "execution_run V P st is d = Some (Inr (st', d', es, out))" and "exec_wf st"
    and "sorted (map xi_now is)"
    and "\<And>res dl i. quiet_until st res dl \<Longrightarrow> i \<in> set is \<Longrightarrow> dl \<le> xi_now i + 500"
  shows "case out of
      Pending \<Rightarrow> rpc_results es = [] \<and> ex_pending_response st' = ex_pending_response st
    | Ready r \<Rightarrow> \<exists>res. r = report res \<and>
        rpc_results es = map (\<lambda>tx. (tx, res)) (opt_list (ex_pending_response st)) \<and> reported_after st is res"
  using assms
proof (induction "is" arbitrary: st d es)
  case Nil
  then show ?case by auto
next
  case (Cons i "is")
  from Cons.prems(1) show ?case
  proof (cases rule: execution_run_Cons)
    case (decided r)
    with execution_poll_completion [OF decided(1) Cons.prems(2)] show ?thesis
      unfolding reported_after_def by fastforce
  next
    case (goes_on st1 d1 es1 es2)
    have wf: "exec_wf st1" and resp: "ex_pending_response st1 = ex_pending_response st"
      using execution_poll_delivers [OF goes_on(1) Cons.prems(2)] by auto
    have es1: "rpc_results es1 = []" using execution_poll_completion [OF goes_on(1) Cons.prems(2)] by simp
    have q1: "dl \<le> xi_now j + 500" if "quiet_until st1 res dl" "j \<in> set is" for res dl j
    proof -
      have "xi_now i \<le> xi_now j" using Cons.prems(3) that(2) by simp
      with quiet_until_origin [OF goes_on(1) Cons.prems(2) that(1)] Cons.prems(4) that(2) show ?thesis by fastforce
    qed
    have step: "reported_after st1 is res \<Longrightarrow> reported_after st (i # is) res" for res
      using reported_after_step [OF goes_on(1) Cons.prems(2)] Cons.prems(4) by simp
    have "case out of Pending \<Rightarrow> rpc_results es2 = [] \<and> ex_pending_response st' = ex_pending_response st1
      | Ready r \<Rightarrow> \<exists>res. r = report res \<and>
          rpc_results es2 = map (\<lambda>tx. (tx, res)) (opt_list (ex_pending_response st1)) \<and> reported_after st1 is res"
      using Cons.IH [OF goes_on(2) wf _ q1] Cons.prems(3) by simp
    with es1 resp step goes_on(3) show ?thesis by (cases out) auto
  qed
qed

section \<open>Properties\<close>

text \<open>A session of parties 10, 20 and 30 at party 20, and its inputs: nothing, or one request.\<close>

definition sample_storage :: "byte local_storage" where
  "sample_storage = \<lparr>ls_local_peer_id = 20, ls_path = ''peerset''\<rparr>"

definition sample_exec :: "byte exec_state" where
  "sample_exec =
     \<lparr>ex_room_id = ''a1'', ex_session_id = replicate 16 7, ex_local_peer_id = 20, ex_protocol_id = 0,
      ex_peerset = sample_peerset, ex_agent_running = True, ex_agent_result = None,
      ex_completion_delay = None, ex_storage = sample_storage, ex_pending_response = Some 5,
      ex_next_outgoing_broadcast_id = 0, ex_next_incoming_broadcast_id = 0,
      ex_pending_incoming = [], ex_i = 1, ex_n = 3\<rparr>"

lemma sample_exec_new:
  "execution_new ''a1'' (replicate 16 7) \<lparr>ag_protocol_id = 0\<rparr> 20 sample_peerset sample_storage (Some 5) =
     Inr sample_exec"
  by (simp add: execution_new_def sample_exec_def sample_peerset_eq peerset_size_def index_of_def
      checked_dec_def Let_def)

definition exec_event :: "instant \<Rightarrow> byte incoming_request option \<Rightarrow> (anyhow + bytes) poll \<Rightarrow> byte exec_input" where
  "exec_event now m ag =
     \<lparr>xi_now = now, xi_peerset_msg = None, xi_from_protocol = None, xi_from_network = m, xi_agent = ag,
      xi_echo_ok = (\<lambda>_. True), xi_protocol_ok = (\<lambda>_. True), xi_mkdir = None, xi_write = None,
      xi_channel = 11\<rparr>"

definition broadcast_from :: "byte \<Rightarrow> u16 \<Rightarrow> oneshot \<Rightarrow> byte incoming_request" where
  "broadcast_from p k ch = (peer_request 7 p ch)\<lparr>ir_is_broadcast := True, ir_peer_index := k\<rparr>"

lemmas execution_defs = execution_poll_def serve_peerset_def send_outgoing_def receive_network_def
  accept_message_def complete_def exec_event_def broadcast_from_def peer_request_def
  checked_inc_def checked_dec_def ready_senders_def to_echo_def to_protocol_def echo_sends_def
  protocol_sends_def bt_get_def bt_remove_def sleep_def fired_def COMPLETION_QUIET_PERIOD_def

text \<open>
  C21: remote broadcasts reach the protocol in order and complete: over any run of a
  session, what the protocol receives is exactly what the echo gadget checks, and it is a
  sequence of groups with the consecutive ids 0, 1, 2 and so on, each with one message of
  \<open>n - 1\<close> different senders in increasing order. No message of round \<open>k + 1\<close> is seen before
  round \<open>k\<close> is complete, whatever the network's order.
\<close>

theorem broadcasts_in_rounds:
  assumes "execution_new room sid ag svc ps store resp = Inr st"
    and "execution_run V P st is d = Some (Inr (st', d', es, out))"
  shows "\<exists>gs. delivered es = concat gs \<and> protocol_broadcasts es = map snd (delivered es) \<and>
    length gs = unat (ex_next_incoming_broadcast_id st') \<and>
    (\<forall>j < length gs. length (gs ! j) = unat (of_nat (peerset_size ps) :: u16) - 1 \<and>
       (\<forall>x \<in> set (gs ! j). fst x = of_nat j) \<and> sorted_wrt (<) (map (fst \<circ> snd) (gs ! j)))"
  using execution_run_delivers [OF assms(2)] execution_new_wf [OF assms(1)]
  by (fastforce simp: grouped_def)

lemma sample_run:
  "\<exists>st' es. execution_run leb128 byte_peer_ops sample_exec
     [exec_event 0 (Some (broadcast_from 30 2 1)) Pending, exec_event 1 (Some (broadcast_from 10 0 2)) Pending] Map.empty =
     Some (Inr (st', Map.empty, es, Pending)) \<and> delivered es = [(0, 1, [1]), (0, 3, [1])]"
  by (simp add: execution_defs sample_exec_def forward_buffered_messages.simps)

theorem broadcasts_in_rounds_witness:
  "\<exists>st' es. execution_run leb128 byte_peer_ops sample_exec
     [exec_event 0 (Some (broadcast_from 30 2 1)) Pending, exec_event 1 (Some (broadcast_from 10 0 2)) Pending] Map.empty =
     Some (Inr (st', Map.empty, es, Pending)) \<and> protocol_broadcasts es = [(1, [1]), (3, [1])]"
proof -
  obtain st' es where r: "execution_run leb128 byte_peer_ops sample_exec
     [exec_event 0 (Some (broadcast_from 30 2 1)) Pending, exec_event 1 (Some (broadcast_from 10 0 2)) Pending] Map.empty =
     Some (Inr (st', Map.empty, es, Pending))" and d: "delivered es = [(0, 1, [1]), (0, 3, [1])]"
    using sample_run by blast
  have "protocol_broadcasts es = map snd (delivered es)"
    using broadcasts_in_rounds [OF sample_exec_new r] by blast
  then have "protocol_broadcasts es = [(1, [1]), (3, [1])]" by (simp add: d)
  with r show ?thesis by blast
qed



text \<open>
  C23: an execution answers its local caller exactly once, when it returns: while it is
  pending nothing has been reported and it still holds the caller's channel; when
  \<open>ProtocolExecution\<close> returns, the caller's channel has received precisely the agent's result,
  the outcome of the execution is that result, and at least the quiet period of 500 ms has
  passed since the agent finished. A session that a failed echo round ends is not covered:
  there the execution never returns.
\<close>

theorem result_reported_once:
  assumes "execution_new room sid ag svc ps store (Some tx) = Inr st"
    and "execution_run V P st is d = Some (Inr (st', d', es, out))" and "sorted (map xi_now is)"
  shows "case out of
      Pending \<Rightarrow> rpc_results es = [] \<and> ex_pending_response st' = Some tx
    | Ready r \<Rightarrow> \<exists>res i j. r = report res \<and> rpc_results es = [(tx, res)] \<and>
        i \<in> set is \<and> j \<in> set is \<and> xi_agent i = Ready res \<and> xi_now i + 500 \<le> xi_now j"
proof -
  have st: "exec_wf st" "ex_pending_response st = Some tx" "\<And>res dl. \<not> quiet_until st res dl"
    using execution_new_wf [OF assms(1)] by (auto simp: quiet_until_def)
  have "\<And>res dl i. quiet_until st res dl \<Longrightarrow> i \<in> set is \<Longrightarrow> dl \<le> xi_now i + 500" using st(3) by blast
  from execution_run_reports [OF assms(2) st(1) assms(3) this] st(2,3) show ?thesis
    unfolding reported_after_def
    by (cases out) auto
qed

theorem result_reported_once_witness:
  "\<exists>st' es r. execution_run leb128 byte_peer_ops sample_exec
     [exec_event 0 None (Ready (Inr [9])), exec_event 500 None Pending] Map.empty =
     Some (Inr (st', Map.empty, es, Ready r)) \<and> rpc_results es = [(5, Inr [9])]"
proof -
  let ?is = "[exec_event 0 None (Ready (Inr [9])), exec_event 500 None Pending]"
  obtain st' es r where run: "execution_run leb128 byte_peer_ops sample_exec ?is Map.empty =
     Some (Inr (st', Map.empty, es, Ready r))"
    by (simp add: execution_defs sample_exec_def forward_buffered_messages.simps)
  have "sorted (map xi_now ?is)" by (simp add: exec_event_def)
  from result_reported_once [OF sample_exec_new run this] obtain res i where
    res: "rpc_results es = [(5, res)]" "i \<in> set ?is" "xi_agent i = Ready res" by auto
  then have "res = Inr [9]" by (auto simp: exec_event_def)
  with run res(1) show ?thesis by blast
qed

text \<open>
  A failed echo round ends the session in the middle: the wrapper returns the error of the
  round and the execution is dropped with the caller's channel still in it and nothing
  reported, so the caller only sees its channel closed.
\<close>

lemma echo_failure_reports_nothing:
  assumes "execution_new room sid ag svc ps store (Some tx) = Inr st"
    and "execution_run V P st is d = Some (Inr (st', d', es, Pending))" and "sorted (map xi_now is)"
  shows "wrap_execution False (replicate k (EchoResult (Inr True)) @ EchoResult (Inl e) # later) = Some (Inl e) \<and>
    ex_pending_response st' = Some tx \<and> rpc_results es = []"
proof -
  have "wrap_execution False (replicate k (EchoResult (Inr True)) @ EchoResult (Inl e) # later) = Some (Inl e)"
    by (induction k) simp_all
  moreover have st: "exec_wf st" "ex_pending_response st = Some tx" "\<And>res dl. \<not> quiet_until st res dl"
    using execution_new_wf [OF assms(1)] by (auto simp: quiet_until_def)
  moreover have "\<And>res dl i. quiet_until st res dl \<Longrightarrow> i \<in> set is \<Longrightarrow> dl \<le> xi_now i + 500" using st(3) by blast
  ultimately show ?thesis using execution_run_reports [OF assms(2) st(1) assms(3)] by simp
qed

text \<open>
  A request that does not belong to the session (another session id, or not a
  computation message) is answered with an error and changes nothing of the session.
\<close>

lemma foreign_request_refused:
  assumes "xi_from_network i = Some msg" and "xi_peerset_msg i = None" and "xi_from_protocol i = None"
    and "session_id (ir_context msg) \<noteq> ex_session_id st \<or> message_type (ir_context msg) \<noteq> Computation"
  shows "execution_poll V P st i d =
    Some (Inr (st, d, [Answer msg \<lparr>or_result = Inl (), or_sent_feedback = None\<rparr>], Pending))"
  using assms by (simp add: execution_poll_def serve_peerset_def send_outgoing_def receive_network_def)

text \<open>
  A direct message that arrives after the agent has finished aborts the session with
  a panic: the finished agent has dropped its end of the application channel, so the send
  fails and is expected not to. The quiet period keeps the session open for such messages.
\<close>

lemma late_direct_message_panics:
  assumes "ex_agent_result st \<noteq> None" and "xi_protocol_ok i 0 = False"
    and "xi_from_network i = Some msg" and "xi_peerset_msg i = None" and "xi_from_protocol i = None"
    and "session_id (ir_context msg) = ex_session_id st" and "message_type (ir_context msg) = Computation"
    and "\<not> ir_is_broadcast msg"
  shows "\<exists>e. execution_poll V P st i d = Some (Inl (Panic e))"
  using assms
  by (auto simp: execution_poll_def serve_peerset_def send_outgoing_def receive_network_def
      accept_message_def forward_direct_message_def to_protocol_def protocol_sends_def checked_inc_def)

text \<open>
  An execution can be created exactly when the peerset contains the local peer and
  its size, as a 16-bit number, is at least two. The peerset of a joiner comes from the
  proposer's start message and is not checked, so a start message that leaves the
  receiver out, or names it alone, makes the receiver panic.
\<close>

lemma execution_new_ok_iff:
  "(\<exists>st. execution_new room sid ag svc ps store resp = Inr st) \<longleftrightarrow>
     local_peer_id ps \<in> set (peers ps) \<and> 2 \<le> unat (of_nat (peerset_size ps) :: u16)"
proof -
  have two: "2 \<le> unat n \<longleftrightarrow> n \<noteq> 0 \<and> n - 1 \<noteq> 0" for n :: u16
    by (metis One_nat_def Suc_1 diff_self eq_iff_diff_eq_0 less_2_cases not_less numeral_le_one_iff
        semiring_norm(69) unat_0 unat_1 word_unat_eq_iff zero_neq_one not_numeral_le_zero)
  show ?thesis
    using index_of_None_iff [of ps "local_peer_id ps"]
    by (auto simp: execution_new_def two Let_def checked_dec_def unwrap_def ok_or_def
        split: if_splits option.splits)
qed

end
