(* ===== verification/Worker.thy ===== *)
theory Worker
  imports Room Execution
begin

text \<open>
  \<open>service/src/worker.rs\<close> with the messages of \<open>service/src/lib.rs\<close> and the agent
  factory of \<open>service/src/handler.rs\<close>: the event loop that owns the rooms. Each branch
  of its \<open>select!\<close> is a handler, a function of the loop's local variables. The branches
  that await a phase 2 channel or a negotiation inside the loop take the message that
  the awaited future returned; the loop serves nothing else meanwhile.
\<close>

section \<open>Messages and the factory\<close>

datatype service_msg =
    KeySign u16 room_id bytes oneshot
  | KeyGen u16 u16 room_id bytes oneshot

definition service_keygen :: "u16 \<Rightarrow> u16 \<Rightarrow> bytes \<Rightarrow> room_id \<Rightarrow> oneshot \<Rightarrow> service_msg" where
  "service_keygen t n payload room sender = KeyGen t n room payload sender"

definition service_keysign :: "u16 \<Rightarrow> room_id \<Rightarrow> bytes \<Rightarrow> oneshot \<Rightarrow> service_msg" where
  "service_keysign n room payload sender = KeySign n room payload sender"

record agent_factory =
  af_make :: "u64 \<Rightarrow> service_error + agent"
  af_keygen :: agent
  af_keysign :: agent

section \<open>The loop's state\<close>

text \<open>Executions are kept with the room they report and the echo gadget that wraps them;
  proxies are owned by the room they return.\<close>

record 'p running_session =
  rs_room :: room_id
  rs_execution :: "'p exec_state"
  rs_echo :: echo_gadget

record 'p worker_state =
  wk_executions :: "'p running_session list"
  wk_proxies :: "'p receiver_proxy list"
  wk_coordination :: "'p phase1_channel list"
  wk_rooms_rpc :: "room_id \<rightharpoonup> oneshot"
  wk_busy_rooms :: "room_id set"
  wk_pending_room_restores :: "room_id \<rightharpoonup> 'p phase1_channel \<times> oneshot"
  wk_pending_local :: "room_id \<rightharpoonup> service_msg list"

text \<open>What the loop does to the outside: a local request is sent into a room, is refused with
  a message, or is dropped by a failed send; a proposal is answered or its response
  channel dropped; early requests of a refused proposal are rejected.\<close>

datatype 'p worker_effect =
    ToRoom room_id oneshot local_rpc_msg
  | LocalError room_id oneshot string
  | LocalDropped room_id oneshot
  | Accepted oneshot outgoing_response
  | ProposalDropped oneshot
  | OnRequest "'p effect"

text \<open>Inputs of a dispatch: whether the room's request channel is cancelled, whether the send
  succeeds, and the identities of the channels it may create.\<close>

record dispatch_input =
  di_is_canceled :: bool
  di_send_ok :: bool
  di_virtual_rx :: receiver
  di_oneshot :: oneshot

definition service_msg_room_id :: "service_msg \<Rightarrow> room_id" where
  "service_msg_room_id msg =
     (case msg of KeySign _ room_id _ _ \<Rightarrow> room_id | KeyGen _ _ room_id _ _ \<Rightarrow> room_id)"

definition service_msg_sender :: "service_msg \<Rightarrow> oneshot" where
  "service_msg_sender msg = (case msg of KeySign _ _ _ s \<Rightarrow> s | KeyGen _ _ _ _ s \<Rightarrow> s)"

text \<open>The rooms come from a map keyed by the room id, so the list has every room once; a node has
  one.\<close>

definition worker_new :: "'p \<Rightarrow> (room_id \<times> receiver \<times> oneshot) list \<Rightarrow> 'p worker_state" where
  "worker_new me rooms =
     \<lparr>wk_executions = [], wk_proxies = [],
      wk_coordination = map (\<lambda>(r, rx, ch). fst (phase1_new r rx me ch)) rooms,
      wk_rooms_rpc = map_of (map (\<lambda>(r, rx, ch). (r, snd (phase1_new r rx me ch))) (rev rooms)),
      wk_busy_rooms = {}, wk_pending_room_restores = Map.empty, wk_pending_local = Map.empty\<rparr>"

section \<open>Dispatching local requests\<close>

definition dispatch_to_room ::
    "'p \<Rightarrow> dispatch_input \<Rightarrow> room_id \<Rightarrow> local_rpc_msg \<Rightarrow> 'p worker_state \<Rightarrow>
     'p worker_state \<times> 'p worker_effect list \<times> bool" where
  "dispatch_to_room me i room_id local_msg w =
     (let (w1, tx) =
            (case wk_rooms_rpc w room_id of
               Some tx \<Rightarrow> (w\<lparr>wk_rooms_rpc := (wk_rooms_rpc w)(room_id := None)\<rparr>, tx)
             | None \<Rightarrow>
                 let (ch, tx) = phase1_new room_id (di_virtual_rx i) me (di_oneshot i) in
                 (w\<lparr>wk_coordination := wk_coordination w @ [ch]\<rparr>, tx)) in
      if di_is_canceled i then (w1, [LocalError room_id (lr_pending_response local_msg) ''sender is canceled''], False)
      else if \<not> di_send_ok i then (w1, [LocalDropped room_id (lr_pending_response local_msg)], False)
      else (w1, [ToRoom room_id tx local_msg], True))"

definition dispatch_local_msg ::
    "agent_factory \<Rightarrow> 'p \<Rightarrow> dispatch_input \<Rightarrow> service_msg \<Rightarrow> 'p worker_state \<Rightarrow>
     'p worker_state \<times> 'p worker_effect list \<times> bool" where
  "dispatch_local_msg F me i msg w =
     (case msg of
        KeyGen _ n room_id payload sender \<Rightarrow>
          dispatch_to_room me i room_id
            \<lparr>lr_n = n, lr_payload = payload, lr_agent = af_keygen F, lr_pending_response = sender\<rparr> w
      | KeySign n room_id payload sender \<Rightarrow>
          dispatch_to_room me i room_id
            \<lparr>lr_n = n, lr_payload = payload, lr_agent = af_keysign F, lr_pending_response = sender\<rparr> w)"

definition mark_busy :: "room_id \<Rightarrow> 'p worker_state \<times> 'p worker_effect list \<times> bool \<Rightarrow> 'p worker_state \<times> 'p worker_effect list" where
  "mark_busy room_id = (\<lambda>(w, es, sent).
     (if sent then w\<lparr>wk_busy_rooms := insert room_id (wk_busy_rooms w)\<rparr> else w, es))"

definition dispatch_pending_local ::
    "agent_factory \<Rightarrow> 'p \<Rightarrow> dispatch_input \<Rightarrow> room_id \<Rightarrow> 'p worker_state \<Rightarrow>
     'p worker_state \<times> 'p worker_effect list" where
  "dispatch_pending_local F me i room_id w =
     (if room_id \<in> wk_busy_rooms w then (w, [])
      else case wk_pending_local w room_id of
          None \<Rightarrow> (w, [])
        | Some [] \<Rightarrow> (w\<lparr>wk_pending_local := (wk_pending_local w)(room_id := None)\<rparr>, [])
        | Some (msg # queue) \<Rightarrow>
            mark_busy room_id (dispatch_local_msg F me i msg
              (w\<lparr>wk_pending_local := (wk_pending_local w)
                   (room_id := (if queue = [] then None else Some queue))\<rparr>)))"

section \<open>The branches of the loop\<close>

text \<open>A message of the service.\<close>

definition on_service ::
    "agent_factory \<Rightarrow> 'p \<Rightarrow> dispatch_input \<Rightarrow> service_msg \<Rightarrow> 'p worker_state \<Rightarrow>
     'p worker_state \<times> 'p worker_effect list" where
  "on_service F me i msg w =
     (let room_id = service_msg_room_id msg in
      if room_id \<in> wk_busy_rooms w then
        (w\<lparr>wk_pending_local := (wk_pending_local w)
             (room_id \<mapsto> (case wk_pending_local w room_id of None \<Rightarrow> [] | Some q \<Rightarrow> q) @ [msg])\<rparr>, [])
      else mark_busy room_id (dispatch_local_msg F me i msg w))"

text \<open>A room comes back to phase 1 with its request channel.\<close>

definition restore_room ::
    "agent_factory \<Rightarrow> 'p \<Rightarrow> dispatch_input \<Rightarrow> room_id \<Rightarrow> 'p phase1_channel \<Rightarrow> oneshot \<Rightarrow>
     'p worker_state \<Rightarrow> 'p worker_state \<times> 'p worker_effect list" where
  "restore_room F me i room_id phase1 rpc_tx w =
     dispatch_pending_local F me i room_id
       (w\<lparr>wk_coordination := wk_coordination w @ [phase1],
          wk_rooms_rpc := (wk_rooms_rpc w)(room_id \<mapsto> rpc_tx)\<rparr>)"

text \<open>A session starts: its proxy and its execution are added, the room is busy.\<close>

definition start_session ::
    "room_id \<Rightarrow> session_id \<Rightarrow> agent \<Rightarrow> 'p \<Rightarrow> 'p receiver_proxy \<Rightarrow> 'p peerset \<Rightarrow> 'p local_storage \<Rightarrow>
     nat \<Rightarrow> oneshot option \<Rightarrow> 'p worker_state \<Rightarrow> (anyhow, 'p worker_state) res" where
  "start_session room_id sid agent me proxy ps store echo_n pending_response w =
     bindR (execution_new room_id sid agent me ps store pending_response) (\<lambda>st.
       Inr (w\<lparr>wk_busy_rooms := insert room_id (wk_busy_rooms w),
              wk_proxies := wk_proxies w @ [proxy],
              wk_executions := wk_executions w @
                [\<lparr>rs_room = room_id, rs_execution = st, rs_echo = echo_new echo_n\<rparr>]\<rparr>))"

text \<open>A remote proposal: the factory decides, then phase 2 is awaited. The completed channel
  leaves the set of coordinated rooms. \<open>ph\<close> is the input of \<open>abort\<close>.\<close>

definition on_remote ::
    "agent_factory \<Rightarrow> 'p \<Rightarrow> 'p local_storage \<Rightarrow> dispatch_input \<Rightarrow> 'p phase_input \<Rightarrow> 'p phase1_channel \<Rightarrow>
     u64 \<Rightarrow> oneshot \<Rightarrow> 'p phase2_channel \<Rightarrow> 'p phase2_msg \<Rightarrow> 'p worker_state \<Rightarrow>
     (anyhow, 'p worker_state \<times> 'p worker_effect list) res" where
  "on_remote F me store i ph completed pid response_tx channel awaited w0 =
     (let w = w0\<lparr>wk_coordination := remove1 completed (wk_coordination w0),
                 wk_busy_rooms := insert (p2_id channel) (wk_busy_rooms w0)\<rparr> in
      case af_make F pid of
        Inl _ \<Rightarrow>
          bindR (phase2_abort channel ph) (\<lambda>(rejected, room, ch, tx).
            let (w', es) = restore_room F me i room ch tx
                  (w\<lparr>wk_busy_rooms := wk_busy_rooms w - {room}\<rparr>) in
            Inr (w', map OnRequest rejected @ es @ [ProposalDropped response_tx]))
      | Inr agent \<Rightarrow>
          let accepted = Accepted response_tx \<lparr>or_result = Inr [], or_sent_feedback = None\<rparr> in
          (case awaited of
             P2Start room_id rr proxy ps prx body sid \<Rightarrow>
               bindR (start_session room_id sid agent me proxy ps store (peerset_size ps) None w) (\<lambda>w'.
                 Inr (w', [accepted]))
           | P2Abort room_id ch tx \<Rightarrow>
               let (w', es) = restore_room F me i room_id ch tx
                     (w\<lparr>wk_busy_rooms := wk_busy_rooms w - {room_id}\<rparr>) in
               Inr (w', accepted # es)))"

text \<open>A local request that entered negotiation, and what the negotiation returned.\<close>

definition on_local ::
    "agent_factory \<Rightarrow> 'p \<Rightarrow> 'p local_storage \<Rightarrow> dispatch_input \<Rightarrow> 'p phase1_channel \<Rightarrow>
     room_id \<Rightarrow> u16 \<Rightarrow> 'p negotiation_msg \<Rightarrow> 'p worker_state \<Rightarrow>
     (anyhow, 'p worker_state \<times> 'p worker_effect list) res" where
  "on_local F me store i completed room n awaited w0 =
     (let w = w0\<lparr>wk_coordination := remove1 completed (wk_coordination w0)\<rparr> in
      case awaited of
        NStart agent pending_response rr proxy ps prx request sid \<Rightarrow>
          bindR (start_session room sid agent me proxy ps store (unat n) (Some pending_response) w) (\<lambda>w'.
            Inr (w', []))
      | NAbort room_id phase1 rpc_tx pending_response \<Rightarrow>
          let (w', es) = restore_room F me i room_id phase1 rpc_tx
                (w\<lparr>wk_busy_rooms := wk_busy_rooms w - {room_id}\<rparr>) in
          Inr (w', (case pending_response of
                      Some sender \<Rightarrow>
                        [LocalError room_id sender ''Negotiation aborted: timeout or failed to assemble peerset'']
                    | None \<Rightarrow> []) @ es))"

text \<open>An execution has ended; both results are treated alike.\<close>

definition on_execution ::
    "agent_factory \<Rightarrow> 'p \<Rightarrow> dispatch_input \<Rightarrow> 'p running_session \<Rightarrow> service_error + unit \<Rightarrow> 'p worker_state \<Rightarrow>
     'p worker_state \<times> 'p worker_effect list" where
  "on_execution F me i completed exec_res w0 =
     (let room_id = rs_room completed;
          w = w0\<lparr>wk_executions := remove1 completed (wk_executions w0),
                 wk_busy_rooms := wk_busy_rooms w0 - {room_id}\<rparr> in
      case wk_pending_room_restores w room_id of
        Some (phase1, rpc_tx) \<Rightarrow>
          restore_room F me i room_id phase1 rpc_tx
            (w\<lparr>wk_pending_room_restores := (wk_pending_room_restores w)(room_id := None)\<rparr>)
      | None \<Rightarrow> (w, []))"

text \<open>A proxy returns its room.\<close>

definition on_proxy ::
    "agent_factory \<Rightarrow> 'p \<Rightarrow> dispatch_input \<Rightarrow> 'p receiver_proxy \<Rightarrow> room_id \<Rightarrow> 'p phase1_channel \<Rightarrow> oneshot \<Rightarrow>
     'p worker_state \<Rightarrow> 'p worker_state \<times> 'p worker_effect list" where
  "on_proxy F me i completed room_id phase1 rpc_tx w0 =
     (let w = w0\<lparr>wk_proxies := remove1 completed (wk_proxies w0)\<rparr> in
      if room_id \<in> wk_busy_rooms w then
        (w\<lparr>wk_pending_room_restores := (wk_pending_room_restores w)(room_id \<mapsto> (phase1, rpc_tx))\<rparr>, [])
      else restore_room F me i room_id phase1 rpc_tx w)"

text \<open>The loop: one event after the other.\<close>

datatype 'p worker_event =
    FromService dispatch_input service_msg
  | Remote dispatch_input "'p phase_input" "'p phase1_channel" u64 oneshot "'p phase2_channel" "'p phase2_msg"
  | Local dispatch_input "'p phase1_channel" room_id u16 "'p negotiation_msg"
  | ExecutionDone dispatch_input "'p running_session" "service_error + unit"
  | ProxyDone dispatch_input "'p receiver_proxy" room_id "'p phase1_channel" oneshot

fun worker_step ::
    "agent_factory \<Rightarrow> 'p \<Rightarrow> 'p local_storage \<Rightarrow> 'p worker_event \<Rightarrow> 'p worker_state \<Rightarrow>
     (anyhow, 'p worker_state \<times> 'p worker_effect list) res" where
  "worker_step F me store (FromService i msg) w = Inr (on_service F me i msg w)"
| "worker_step F me store (Remote i ph ch pid tx p2 msg) w = on_remote F me store i ph ch pid tx p2 msg w"
| "worker_step F me store (Local i ch room n msg) w = on_local F me store i ch room n msg w"
| "worker_step F me store (ExecutionDone i s r) w = Inr (on_execution F me i s r w)"
| "worker_step F me store (ProxyDone i p room ch tx) w = Inr (on_proxy F me i p room ch tx w)"

fun worker_run ::
    "agent_factory \<Rightarrow> 'p \<Rightarrow> 'p local_storage \<Rightarrow> 'p worker_event list \<Rightarrow> 'p worker_state \<Rightarrow>
     (anyhow, 'p worker_state \<times> 'p worker_effect list) res" where
  "worker_run F me store [] w = Inr (w, [])"
| "worker_run F me store (e # es) w =
     bindR (worker_step F me store e w) (\<lambda>(w1, out1).
     bindR (worker_run F me store es w1) (\<lambda>(w2, out2). Inr (w2, out1 @ out2)))"

section \<open>Where the local requests are\<close>

text \<open>The queue of a room, the requests that have left the worker for it, and the requests
  that an event brings: the message itself, or the caller that an aborted negotiation
  hands back.\<close>

definition queue :: "room_id \<Rightarrow> 'p worker_state \<Rightarrow> service_msg list" where
  "queue r w = (case wk_pending_local w r of None \<Rightarrow> [] | Some q \<Rightarrow> q)"

fun resolved :: "room_id \<Rightarrow> 'p worker_effect list \<Rightarrow> oneshot list" where
  "resolved r [] = []"
| "resolved r (ToRoom r' tx m # es) =
     (if r' = r then lr_pending_response m # resolved r es else resolved r es)"
| "resolved r (LocalError r' s msg # es) = (if r' = r then s # resolved r es else resolved r es)"
| "resolved r (LocalDropped r' s # es) = (if r' = r then s # resolved r es else resolved r es)"
| "resolved r (_ # es) = resolved r es"

fun brought :: "room_id \<Rightarrow> 'p worker_event \<Rightarrow> oneshot list" where
  "brought r (FromService i msg) = (if service_msg_room_id msg = r then [service_msg_sender msg] else [])"
| "brought r (Local i ch room n (NAbort room' p tx (Some s))) = (if room' = r then [s] else [])"
| "brought r _ = []"

lemma resolved_append [simp]: "resolved r (xs @ ys) = resolved r xs @ resolved r ys"
  by (induction r xs rule: resolved.induct) auto

lemma queue_simps [simp]:
  "queue r (w\<lparr>wk_executions := a\<rparr>) = queue r w" "queue r (w\<lparr>wk_proxies := b\<rparr>) = queue r w"
  "queue r (w\<lparr>wk_coordination := c\<rparr>) = queue r w" "queue r (w\<lparr>wk_rooms_rpc := d\<rparr>) = queue r w"
  "queue r (w\<lparr>wk_busy_rooms := e\<rparr>) = queue r w" "queue r (w\<lparr>wk_pending_room_restores := f\<rparr>) = queue r w"
  by (simp_all add: queue_def)

lemma dispatch_to_room_queue:
  assumes "dispatch_to_room me i room m w = (w', es, sent)"
  shows "queue r w' = queue r w \<and> resolved r es = (if room = r then [lr_pending_response m] else [])"
  using assms by (auto simp: dispatch_to_room_def phase1_new_def Let_def split: option.splits if_splits)

lemma dispatch_local_msg_queue:
  assumes "dispatch_local_msg F me i msg w = (w', es, sent)"
  shows "queue r w' = queue r w \<and>
    resolved r es = (if service_msg_room_id msg = r then [service_msg_sender msg] else [])"
  using assms
  by (cases msg) (auto simp: dispatch_local_msg_def service_msg_room_id_def service_msg_sender_def
      dest: dispatch_to_room_queue [where r = r])

text \<open>A room's queue holds messages of that room only.\<close>

definition queues_ok :: "'p worker_state \<Rightarrow> bool" where
  "queues_ok w \<longleftrightarrow> (\<forall>r. \<forall>m \<in> set (queue r w). service_msg_room_id m = r)"

lemma dispatch_pending_local_queue:
  assumes "dispatch_pending_local F me i room w = (w', es)" and "queues_ok w"
  shows "queue r w = take (length (resolved r es)) (queue r w) @ queue r w' \<and>
    resolved r es = map service_msg_sender (take (length (resolved r es)) (queue r w))"
proof (cases "room \<notin> wk_busy_rooms w \<and> queue room w \<noteq> []")
  case True
  then obtain msg q where q: "wk_pending_local w room = Some (msg # q)"
    by (auto simp: queue_def split: option.splits) (metis list.exhaust)
  let ?w = "w\<lparr>wk_pending_local := (wk_pending_local w)(room := (if q = [] then None else Some q))\<rparr>"
  obtain w1 es1 sent where d: "dispatch_local_msg F me i msg ?w = (w1, es1, sent)" by (metis prod_cases3)
  have m: "service_msg_room_id msg = room" using assms(2) q by (auto simp: queues_ok_def queue_def)
  have "es = es1" "queue r w' = queue r w1"
    using assms(1) True q d by (auto simp: dispatch_pending_local_def mark_busy_def split: if_splits)
  moreover have "queue r ?w = (if r = room then q else queue r w)" by (simp add: queue_def)
  moreover have "queue room w = msg # q" using q by (simp add: queue_def)
  ultimately show ?thesis using dispatch_local_msg_queue [OF d, of r] m by auto
next
  case False
  then have "es = []" "queue r w' = queue r w"
    using assms(1)
    by (auto simp: dispatch_pending_local_def queue_def split: if_splits option.splits list.splits)
  then show ?thesis by simp
qed

lemma resolved_OnRequest [simp]: "resolved r (map OnRequest es) = []"
  by (induction es) simp_all

text \<open>A restored room releases the front of its own queue and nothing else; the relation
  covers every branch that does not bring a new request.\<close>

definition drains :: "'p worker_state \<Rightarrow> 'p worker_effect list \<Rightarrow> 'p worker_state \<Rightarrow> bool" where
  "drains w es w' \<longleftrightarrow> (\<forall>r. map service_msg_sender (queue r w) = resolved r es @ map service_msg_sender (queue r w') \<and>
     set (queue r w') \<subseteq> set (queue r w))"

lemma dispatch_pending_local_drains:
  assumes "dispatch_pending_local F me i room w = (w', es)" and "queues_ok w"
  shows "drains w es w'"
  unfolding drains_def
proof (intro allI)
  fix r
  note q = dispatch_pending_local_queue [OF assms, of r]
  from q have "map service_msg_sender (queue r w) = resolved r es @ map service_msg_sender (queue r w')"
    by (metis map_append)
  moreover have "set (queue r w') \<subseteq> set (queue r w)" using q by (metis set_append sup_ge2)
  ultimately show "map service_msg_sender (queue r w) = resolved r es @ map service_msg_sender (queue r w') \<and>
      set (queue r w') \<subseteq> set (queue r w)" by blast
qed

lemma drains_cong:
  "drains w es w' \<Longrightarrow> (\<And>r. queue r v = queue r w) \<Longrightarrow> (\<And>r. resolved r es' = resolved r es) \<Longrightarrow> drains v es' w'"
  by (simp add: drains_def)

lemma drains_queues_ok: "drains w es w' \<Longrightarrow> queues_ok w \<Longrightarrow> queues_ok w'"
  by (force simp: drains_def queues_ok_def)

lemma drains_same: "(\<And>r. queue r w' = queue r w) \<Longrightarrow> (\<And>r. resolved r es = []) \<Longrightarrow> drains w es w'"
  by (simp add: drains_def)

lemma restore_room_drains:
  assumes "restore_room F me i room ch tx w = (w', es)" and "queues_ok w"
  shows "drains w es w'"
proof -
  have "queues_ok (w\<lparr>wk_coordination := wk_coordination w @ [ch], wk_rooms_rpc := (wk_rooms_rpc w)(room \<mapsto> tx)\<rparr>)"
    using assms(2) by (simp add: queues_ok_def)
  from dispatch_pending_local_drains [OF assms(1) [unfolded restore_room_def] this]
  show ?thesis by (rule drains_cong) simp_all
qed

lemma start_session_queue:
  "start_session room sid ag me proxy ps store n resp w = Inr w' \<Longrightarrow> queue r w' = queue r w"
  by (auto simp: start_session_def)

lemma on_remote_drains:
  assumes "on_remote F me store i ph ch pid tx p2 msg w = Inr (w', es)" and "queues_ok w"
  shows "drains w es w'"
proof -
  have ok: "queues_ok (w\<lparr>wk_coordination := a, wk_busy_rooms := b\<rparr>)" for a b
    using assms(2) by (simp add: queues_ok_def)
  show ?thesis
  proof (cases "af_make F pid")
    case (Inl e)
    with assms(1) obtain rej room c t where ab: "phase2_abort p2 ph = Inr (rej, room, c, t)"
      by (auto simp: on_remote_def Let_def)
    let ?w = "w\<lparr>wk_coordination := remove1 ch (wk_coordination w),
      wk_busy_rooms := insert (p2_id p2) (wk_busy_rooms w) - {room}\<rparr>"
    obtain w1 es1 where r: "restore_room F me i room c t ?w = (w1, es1)" by fastforce
    with assms(1) Inl ab have w': "w' = w1" and es: "es = map OnRequest rej @ es1 @ [ProposalDropped tx]"
      by (auto simp: on_remote_def Let_def)
    from restore_room_drains [OF r ok] show ?thesis
      unfolding w' es by (rule drains_cong) simp_all
  next
    case (Inr ag)
    show ?thesis
    proof (cases msg)
      case (P2Start a b c d e f g)
      with Inr assms(1) show ?thesis
        by (auto simp: on_remote_def Let_def intro!: drains_same dest: start_session_queue)
    next
      case (P2Abort room c t)
      let ?w = "w\<lparr>wk_coordination := remove1 ch (wk_coordination w),
        wk_busy_rooms := insert (p2_id p2) (wk_busy_rooms w) - {room}\<rparr>"
      obtain w1 es1 where r: "restore_room F me i room c t ?w = (w1, es1)" by fastforce
      with assms(1) Inr P2Abort have w': "w' = w1"
        and es: "es = Accepted tx \<lparr>or_result = Inr [], or_sent_feedback = None\<rparr> # es1"
        by (auto simp: on_remote_def Let_def)
      from restore_room_drains [OF r ok] show ?thesis
        unfolding w' es by (rule drains_cong) simp_all
    qed
  qed
qed

lemma on_execution_drains:
  assumes "on_execution F me i s res w = (w', es)" and "queues_ok w"
  shows "drains w es w'"
proof (cases "wk_pending_room_restores w (rs_room s)")
  case None
  with assms(1) show ?thesis by (intro drains_same) (auto simp: on_execution_def Let_def)
next
  case (Some x)
  let ?w = "w\<lparr>wk_executions := remove1 s (wk_executions w), wk_busy_rooms := wk_busy_rooms w - {rs_room s},
    wk_pending_room_restores := (wk_pending_room_restores w)(rs_room s := None)\<rparr>"
  have "restore_room F me i (rs_room s) (fst x) (snd x) ?w = (w', es)"
    using assms(1) Some by (cases x) (simp add: on_execution_def Let_def)
  from restore_room_drains [OF this] assms(2) show ?thesis
    by (auto simp: queues_ok_def intro: drains_cong)
qed

lemma on_proxy_drains:
  assumes "on_proxy F me i p room ch tx w = (w', es)" and "queues_ok w"
  shows "drains w es w'"
proof (cases "room \<in> wk_busy_rooms w")
  case True
  with assms(1) show ?thesis by (intro drains_same) (auto simp: on_proxy_def Let_def)
next
  case False
  with assms(1) have "restore_room F me i room ch tx (w\<lparr>wk_proxies := remove1 p (wk_proxies w)\<rparr>) = (w', es)"
    by (simp add: on_proxy_def Let_def)
  from restore_room_drains [OF this] assms(2) show ?thesis
    by (auto simp: queues_ok_def intro: drains_cong)
qed

text \<open>One step, for every kind of event: what was queued or brought is queued or resolved.\<close>

lemma on_service_conserves:
  assumes s: "on_service F me i msg w = (w', es)" and "queues_ok w"
  shows "mset (brought r (FromService i msg)) + mset (map service_msg_sender (queue r w)) =
      mset (resolved r es) + mset (map service_msg_sender (queue r w')) \<and> queues_ok w'"
proof (cases "service_msg_room_id msg \<in> wk_busy_rooms w")
  case True
  with s have w': "w' = w\<lparr>wk_pending_local := (wk_pending_local w)(service_msg_room_id msg \<mapsto>
      queue (service_msg_room_id msg) w @ [msg])\<rparr>" "es = []"
    by (auto simp: on_service_def queue_def Let_def)
  then have "queue q w' = (if q = service_msg_room_id msg then queue q w @ [msg] else queue q w)" for q
    by (simp add: queue_def)
  with w'(2) assms(2) show ?thesis by (auto simp: queues_ok_def)
next
  case False
  obtain w1 es1 sent where d: "dispatch_local_msg F me i msg w = (w1, es1, sent)" by (metis prod_cases3)
  with False s have "es = es1" "queue q w' = queue q w1" for q
    by (auto simp: on_service_def mark_busy_def Let_def split: if_splits)
  with dispatch_local_msg_queue [OF d] assms(2) show ?thesis by (auto simp: queues_ok_def)
qed

lemma on_local_conserves:
  assumes l: "on_local F me store i ch room n msg w = Inr (w', es)" and "queues_ok w"
  shows "mset (brought r (Local i ch room n msg)) + mset (map service_msg_sender (queue r w)) =
      mset (resolved r es) + mset (map service_msg_sender (queue r w')) \<and> queues_ok w'"
proof (cases msg)
  case (NStart a b c d e' f g h)
  with l have st: "start_session room h a me d e' store (unat n) (Some b)
      (w\<lparr>wk_coordination := remove1 ch (wk_coordination w)\<rparr>) = Inr w'" "es = []"
    by (auto simp: on_local_def Let_def)
  have "queue q w' = queue q w" for q using start_session_queue [OF st(1), of q] by simp
  with st(2) NStart assms(2) show ?thesis by (simp add: queues_ok_def)
next
  case (NAbort room' c t resp)
  let ?w = "w\<lparr>wk_coordination := remove1 ch (wk_coordination w), wk_busy_rooms := wk_busy_rooms w - {room'}\<rparr>"
  from NAbort l obtain es1 where "restore_room F me i room' c t ?w = (w', es1)"
    and es: "es = (case resp of Some s \<Rightarrow>
        [LocalError room' s ''Negotiation aborted: timeout or failed to assemble peerset''] | None \<Rightarrow> []) @ es1"
    by (auto simp: on_local_def Let_def split: prod.split_asm)
  moreover have "queues_ok ?w" using assms(2) by (simp add: queues_ok_def)
  ultimately have d: "drains ?w es1 w'" by (simp add: restore_room_drains)
  then have "queues_ok w'" using \<open>queues_ok ?w\<close> by (rule drains_queues_ok)
  moreover have "map service_msg_sender (queue r w) = resolved r es1 @ map service_msg_sender (queue r w')"
    using d by (simp add: drains_def)
  ultimately show ?thesis using NAbort es by (cases resp) auto
qed

lemma worker_step_conserves:
  assumes "worker_step F me store e w = Inr (w', es)" and "queues_ok w"
  shows "mset (brought r e) + mset (map service_msg_sender (queue r w)) =
      mset (resolved r es) + mset (map service_msg_sender (queue r w')) \<and> queues_ok w'"
proof (cases e)
  case (FromService i msg)
  with assms show ?thesis using on_service_conserves [of F me i msg w w' es r] by simp
next
  case (Local i ch room n msg)
  with assms show ?thesis using on_local_conserves [of F me store i ch room n msg w w' es r] by simp
next
  case (Remote i ph ch pid tx p2 msg)
  with assms have d: "drains w es w'" by (simp add: on_remote_drains)
  with Remote assms(2) show ?thesis using drains_queues_ok [OF d] by (simp add: drains_def)
next
  case (ExecutionDone i s res)
  with assms have d: "drains w es w'" by (simp add: on_execution_drains)
  with ExecutionDone assms(2) show ?thesis using drains_queues_ok [OF d] by (simp add: drains_def)
next
  case (ProxyDone i p room ch tx)
  with assms have d: "drains w es w'" by (simp add: on_proxy_drains)
  with ProxyDone assms(2) show ?thesis using drains_queues_ok [OF d] by (simp add: drains_def)
qed

lemma worker_run_conserves:
  assumes "worker_run F me store evs w = Inr (w', es)" and "queues_ok w"
  shows "mset (concat (map (brought r) evs)) + mset (map service_msg_sender (queue r w)) =
      mset (resolved r es) + mset (map service_msg_sender (queue r w'))"
  using assms
proof (induction evs arbitrary: w es)
  case Nil
  then show ?case by simp
next
  case (Cons e evs)
  obtain w1 es1 es2 where s: "worker_step F me store e w = Inr (w1, es1)"
    and r: "worker_run F me store evs w1 = Inr (w', es2)" and es: "es = es1 @ es2"
    using Cons.prems(1) by auto
  note c = worker_step_conserves [OF s Cons.prems(2), of r]
  with Cons.IH [OF r] show ?case by (simp add: es) (metis (no_types, lifting) add.assoc add.left_commute)
qed

text \<open>Requests for a busy room only lengthen its queue.\<close>

lemma busy_room_queues:
  assumes "r \<in> wk_busy_rooms v" and "\<And>m. m \<in> set ms \<Longrightarrow> service_msg_room_id m = r"
  shows "\<exists>w1. worker_run F me store (map (FromService j) ms) v = Inr (w1, []) \<and>
    queue r w1 = queue r v @ ms \<and> w1 = v\<lparr>wk_pending_local := wk_pending_local w1\<rparr>"
  using assms
proof (induction ms arbitrary: v)
  case Nil
  then show ?case by simp
next
  case (Cons m ms)
  let ?v = "v\<lparr>wk_pending_local := (wk_pending_local v)(r \<mapsto> queue r v @ [m])\<rparr>"
  have "worker_step F me store (FromService j m) v = Inr (?v, [])"
    using Cons.prems by (simp add: on_service_def queue_def Let_def)
  moreover have "queue r ?v = queue r v @ [m]" by (simp add: queue_def)
  ultimately show ?case using Cons.IH [of ?v] Cons.prems by fastforce
qed

section \<open>Properties\<close>

text \<open>A worker with one room on receiver 3, whose request channel is 1, and two requests.\<close>

definition sample_factory :: agent_factory where
  "sample_factory =
     \<lparr>af_make = (\<lambda>p. Inl (UnknownProtocolId p)), af_keygen = \<lparr>ag_protocol_id = 0\<rparr>,
      af_keysign = \<lparr>ag_protocol_id = 1\<rparr>\<rparr>"

definition sample_dispatch :: dispatch_input where
  "sample_dispatch = \<lparr>di_is_canceled = False, di_send_ok = True, di_virtual_rx = 77, di_oneshot = 78\<rparr>"

definition sample_worker :: "byte worker_state" where
  "sample_worker = worker_new 20 [(''a1'', 3, 1)]"

text \<open>
  C32: no local request is lost: over any run of the worker, the callers that asked for a
  computation in a room (or were handed back by an aborted negotiation) are exactly those
  whose request was sent into the room, refused with an error or dropped by a failed
  send, and those still queued for that room.
\<close>

theorem local_requests_conserved:
  assumes "worker_run F me store evs (worker_new svc rooms) = Inr (w', es)"
  shows "mset (concat (map (brought r) evs)) =
    mset (resolved r es) + mset (map service_msg_sender (queue r w'))"
proof -
  have "queue q (worker_new svc rooms) = []" for q by (simp add: worker_new_def queue_def)
  with worker_run_conserves [OF assms, of r] show ?thesis by (simp add: queues_ok_def)
qed

theorem local_requests_conserved_witness:
  "\<exists>w' es. worker_run sample_factory 20 sample_storage
      [FromService sample_dispatch (KeyGen 1 2 ''a1'' [] 50), FromService sample_dispatch (KeySign 2 ''a1'' [] 51)]
      (worker_new 20 [(''a1'', 3, 1)]) = Inr (w', es) \<and>
    mset (resolved ''a1'' es) + mset (map service_msg_sender (queue ''a1'' w')) = {#50, 51#}"
proof -
  let ?evs = "[FromService sample_dispatch (KeyGen 1 2 ''a1'' [] 50), FromService sample_dispatch (KeySign 2 ''a1'' [] 51)]
      :: byte worker_event list"
  obtain w' es where r: "worker_run sample_factory 20 sample_storage ?evs (worker_new 20 [(''a1'', 3, 1)]) = Inr (w', es)"
    by (cases "worker_run sample_factory 20 sample_storage ?evs (worker_new 20 [(''a1'', 3, 1)])")
      (auto split: prod.splits)
  have "mset (concat (map (brought ''a1'') ?evs)) = {#50, 51#}"
    by (simp add: service_msg_room_id_def service_msg_sender_def)
  with local_requests_conserved [OF r, of "''a1''"] r show ?thesis by metis
qed

text \<open>
  C33: a busy room computes one thing at a time, in order: while a room is busy its
  requests are appended to its queue and reach no session; when its session has ended and
  the room is restored, the oldest of them is dispatched into the restored room, the
  others stay queued in their order, and the room is busy again.
\<close>

theorem busy_room_serves_in_order:
  assumes "rs_room s \<in> wk_busy_rooms w" and "queue (rs_room s) w = []"
    and "wk_pending_room_restores w (rs_room s) = Some (ch, tx)"
    and "\<And>m. m \<in> set (first # rest) \<Longrightarrow> service_msg_room_id m = rs_room s"
    and "\<not> di_is_canceled i" and "di_send_ok i"
  shows "\<exists>w1 w2 msg.
    worker_run F me store (map (FromService j) (first # rest)) w = Inr (w1, []) \<and>
    queue (rs_room s) w1 = first # rest \<and>
    worker_step F me store (ExecutionDone i s res) w1 = Inr (w2, [ToRoom (rs_room s) tx msg]) \<and>
    lr_pending_response msg = service_msg_sender first \<and> queue (rs_room s) w2 = rest \<and>
    rs_room s \<in> wk_busy_rooms w2 \<and> ch \<in> set (wk_coordination w2)"
proof -
  let ?r = "rs_room s"
  obtain w1 where w1: "worker_run F me store (map (FromService j) (first # rest)) w = Inr (w1, [])"
    "queue ?r w1 = first # rest" "w1 = w\<lparr>wk_pending_local := wk_pending_local w1\<rparr>"
    using busy_room_queues [OF assms(1,4)] assms(2) by (metis append_Nil)
  have p: "wk_pending_local w1 ?r = Some (first # rest)"
    using w1(2) by (auto simp: queue_def split: option.splits)
  have restores: "wk_pending_room_restores w1 ?r = Some (ch, tx)"
    using w1(3) assms(3) by (metis worker_state.select_convs(6) worker_state.surjective worker_state.update_convs(7))
  have room: "service_msg_room_id first = ?r" using assms(4) by simp
  obtain w2 msg where "on_execution F me i s res w1 = (w2, [ToRoom ?r tx msg]) \<and>
      lr_pending_response msg = service_msg_sender first \<and> queue ?r w2 = rest \<and>
      ?r \<in> wk_busy_rooms w2 \<and> ch \<in> set (wk_coordination w2)"
    using p restores room assms(5,6)
    by (cases first) (auto simp: on_execution_def restore_room_def dispatch_pending_local_def
        dispatch_local_msg_def dispatch_to_room_def mark_busy_def queue_def service_msg_room_id_def
        service_msg_sender_def Let_def)
  with w1 show ?thesis by auto
qed

text \<open>A worker whose only room runs a session that the room's own request started.\<close>

definition busy_worker :: "byte worker_state" where
  "busy_worker = sample_worker\<lparr>wk_coordination := [], wk_rooms_rpc := Map.empty, wk_busy_rooms := {''a1''}\<rparr>"

definition sample_session :: "byte running_session" where
  "sample_session = \<lparr>rs_room = ''a1'', rs_execution = sample_exec, rs_echo = echo_new 3\<rparr>"

theorem busy_room_serves_in_order_witness:
  "\<exists>w1 w2 msg.
    worker_run sample_factory 20 sample_storage
      (map (FromService sample_dispatch) [KeyGen 1 2 ''a1'' [] 50, KeySign 2 ''a1'' [] 51])
      (busy_worker\<lparr>wk_pending_room_restores := [''a1'' \<mapsto> phase1_new ''a1'' 3 20 9]\<rparr>) = Inr (w1, []) \<and>
    worker_step sample_factory 20 sample_storage (ExecutionDone sample_dispatch sample_session (Inr ())) w1 =
      Inr (w2, [ToRoom ''a1'' 9 msg]) \<and> lr_pending_response msg = 50 \<and> queue ''a1'' w2 = [KeySign 2 ''a1'' [] 51]"
proof -
  let ?w = "busy_worker\<lparr>wk_pending_room_restores := [''a1'' \<mapsto> phase1_new ''a1'' 3 20 9]\<rparr>"
  have "rs_room sample_session \<in> wk_busy_rooms ?w" "queue (rs_room sample_session) ?w = []"
    "wk_pending_room_restores ?w (rs_room sample_session) = Some (fst (phase1_new ''a1'' 3 20 9), 9)"
    by (simp_all add: busy_worker_def sample_worker_def worker_new_def sample_session_def queue_def phase1_new_def)
  moreover have "service_msg_room_id m = rs_room sample_session"
    if "m \<in> set [KeyGen 1 2 ''a1'' [] 50, KeySign 2 ''a1'' [] 51]" for m
    using that by (auto simp: service_msg_room_id_def sample_session_def)
  moreover have "\<not> di_is_canceled sample_dispatch" "di_send_ok sample_dispatch" by (simp_all add: sample_dispatch_def)
  ultimately have "\<exists>w1 w2 msg.
    worker_run sample_factory 20 sample_storage
      (map (FromService sample_dispatch) [KeyGen 1 2 ''a1'' [] 50, KeySign 2 ''a1'' [] 51]) ?w = Inr (w1, []) \<and>
    queue (rs_room sample_session) w1 = [KeyGen 1 2 ''a1'' [] 50, KeySign 2 ''a1'' [] 51] \<and>
    worker_step sample_factory 20 sample_storage (ExecutionDone sample_dispatch sample_session (Inr ())) w1 =
      Inr (w2, [ToRoom (rs_room sample_session) 9 msg]) \<and>
    lr_pending_response msg = service_msg_sender (KeyGen 1 2 ''a1'' [] 50) \<and>
    queue (rs_room sample_session) w2 = [KeySign 2 ''a1'' [] 51] \<and>
    rs_room sample_session \<in> wk_busy_rooms w2 \<and> fst (phase1_new ''a1'' 3 20 9) \<in> set (wk_coordination w2)"
    by (rule busy_room_serves_in_order)
  moreover have "rs_room sample_session = ''a1''" "service_msg_sender (KeyGen 1 2 ''a1'' [] 50) = 50"
    by (simp_all add: sample_session_def service_msg_sender_def)
  ultimately show ?thesis by metis
qed

text \<open>
  C37: a request that arrives between the end of a session and the return of its proxy does
  not reach the room: the room is no longer marked busy but its channel is not back yet.
  After a session that this node proposed, whose dispatch consumed the sender of the room,
  the worker sends the request into a new phase 1 channel on a receiver that nothing feeds
  and marks the room busy; the real room, when its proxy returns it, is set aside and not
  polled. After a session that it joined, the sender of the phase 1 channel that became the
  session is still registered and canceled: the request is refused with \<open>sender is canceled\<close>
  although the room is about to return, and the sender is forgotten.
\<close>

theorem request_before_restore_misses_room:
  assumes "wk_pending_room_restores w (rs_room s) = None" and "service_msg_room_id msg = rs_room s"
  shows "(wk_rooms_rpc w (rs_room s) = None \<and> \<not> di_is_canceled j \<and> di_send_ok j \<longrightarrow>
      (\<exists>w2 m. worker_run F me store [ExecutionDone i s res, FromService j msg] w =
          Inr (w2, [ToRoom (rs_room s) (di_oneshot j) m]) \<and>
        wk_coordination w2 = wk_coordination w @ [fst (phase1_new (rs_room s) (di_virtual_rx j) me (di_oneshot j))] \<and>
        (\<exists>w3. worker_step F me store (ProxyDone k p (rs_room s) ch tx) w2 = Inr (w3, []) \<and>
          wk_pending_room_restores w3 (rs_room s) = Some (ch, tx) \<and> wk_coordination w3 = wk_coordination w2))) \<and>
    (wk_rooms_rpc w (rs_room s) \<noteq> None \<and> di_is_canceled j \<longrightarrow>
      (\<exists>w2. worker_run F me store [ExecutionDone i s res, FromService j msg] w =
          Inr (w2, [LocalError (rs_room s) (service_msg_sender msg) ''sender is canceled'']) \<and>
        wk_coordination w2 = wk_coordination w \<and> rs_room s \<notin> wk_busy_rooms w2 \<and>
        wk_rooms_rpc w2 (rs_room s) = None))"
  using assms
  by (cases msg) (auto simp: on_execution_def on_service_def dispatch_local_msg_def dispatch_to_room_def
      mark_busy_def on_proxy_def phase1_new_def service_msg_room_id_def service_msg_sender_def Let_def)

theorem request_before_restore_misses_room_witness:
  "(\<exists>w2 m. worker_run sample_factory 20 sample_storage
      [ExecutionDone sample_dispatch sample_session (Inr ()), FromService sample_dispatch (KeySign 2 ''a1'' [] 51)] busy_worker =
      Inr (w2, [ToRoom ''a1'' 78 m]) \<and>
    wk_coordination w2 = [fst (phase1_new ''a1'' 77 20 78)]) \<and>
   (\<exists>w2. worker_run sample_factory 20 sample_storage
      [ExecutionDone sample_dispatch sample_session (Inr ()),
       FromService (sample_dispatch\<lparr>di_is_canceled := True\<rparr>) (KeySign 2 ''a1'' [] 51)]
      (busy_worker\<lparr>wk_rooms_rpc := [''a1'' \<mapsto> 9]\<rparr>) =
      Inr (w2, [LocalError ''a1'' 51 ''sender is canceled'']))"
proof
  let ?m = "KeySign 2 ''a1'' [] 51" and ?w = "busy_worker\<lparr>wk_rooms_rpc := [''a1'' \<mapsto> 9]\<rparr>"
    and ?j = "sample_dispatch\<lparr>di_is_canceled := True\<rparr>"
  have m: "service_msg_room_id ?m = rs_room sample_session" "service_msg_sender ?m = 51"
    and r: "wk_pending_room_restores busy_worker (rs_room sample_session) = None"
      "wk_rooms_rpc busy_worker (rs_room sample_session) = None" "wk_coordination busy_worker = []"
      "wk_pending_room_restores ?w (rs_room sample_session) = None" "wk_rooms_rpc ?w (rs_room sample_session) \<noteq> None"
    and c: "rs_room sample_session = ''a1''" "di_virtual_rx sample_dispatch = 77" "di_oneshot sample_dispatch = 78"
    and d: "\<not> di_is_canceled sample_dispatch" "di_send_ok sample_dispatch" "di_is_canceled ?j"
    by (simp_all add: busy_worker_def sample_worker_def worker_new_def sample_session_def
        service_msg_room_id_def service_msg_sender_def sample_dispatch_def)
  show "\<exists>w2 m. worker_run sample_factory 20 sample_storage
      [ExecutionDone sample_dispatch sample_session (Inr ()), FromService sample_dispatch ?m] busy_worker =
      Inr (w2, [ToRoom ''a1'' 78 m]) \<and> wk_coordination w2 = [fst (phase1_new ''a1'' 77 20 78)]"
    using request_before_restore_misses_room [OF r(1) m(1), of sample_dispatch sample_factory 20 sample_storage
        sample_dispatch "Inr ()"] r(2) d(1,2)
    unfolding c r(3) append_Nil by blast
  show "\<exists>w2. worker_run sample_factory 20 sample_storage
      [ExecutionDone sample_dispatch sample_session (Inr ()), FromService ?j ?m] ?w =
      Inr (w2, [LocalError ''a1'' 51 ''sender is canceled''])"
    using request_before_restore_misses_room [OF r(4) m(1), of ?j sample_factory 20 sample_storage
        sample_dispatch "Inr ()"] r(5) d(3)
    unfolding c m(2) by blast
qed

end
