(* ===== verification/Wallet.thy ===== *)
theory Wallet
  imports Prelude
begin

text \<open>
  \<open>tss/src/wallet.rs\<close>: wallet names, the payloads of the two requests and the place of a
  key share on disk. A \<open>&str\<close> is its sequence of Unicode scalar values; serialisation by
  \<open>serde\<close> is a parameter, one codec per type; a \<open>Path\<close> is what the standard library
  compares paths by, its components.
\<close>

section \<open>Strings and serialisation\<close>

type_synonym ustring = "nat list"

definition code_points :: "string \<Rightarrow> ustring" where
  "code_points = map of_char"

definition of_code_points :: "ustring \<Rightarrow> string" where
  "of_code_points = map char_of"

text \<open>\<open>char::is_whitespace\<close>: the Unicode property \<open>White_Space\<close>.\<close>

definition is_whitespace :: "nat \<Rightarrow> bool" where
  "is_whitespace c \<longleftrightarrow>
     9 \<le> c \<and> c \<le> 13 \<or> c = 32 \<or> c = 133 \<or> c = 160 \<or> c = 5760 \<or> 8192 \<le> c \<and> c \<le> 8202 \<or>
     c = 8232 \<or> c = 8233 \<or> c = 8239 \<or> c = 8287 \<or> c = 12288"

definition is_ascii_alphanumeric :: "nat \<Rightarrow> bool" where
  "is_ascii_alphanumeric c \<longleftrightarrow> 48 \<le> c \<and> c \<le> 57 \<or> 65 \<le> c \<and> c \<le> 90 \<or> 97 \<le> c \<and> c \<le> 122"

definition trim :: "ustring \<Rightarrow> ustring" where
  "trim s = rev (dropWhile is_whitespace (rev (dropWhile is_whitespace s)))"

record 'a serde =
  to_vec :: "'a \<Rightarrow> bytes option"
  from_slice :: "bytes \<Rightarrow> 'a option"

text \<open>What serialisation promises: a value it accepts is read back.\<close>

definition serde_laws :: "'a serde \<Rightarrow> bool" where
  "serde_laws c \<longleftrightarrow> (\<forall>x b. to_vec c x = Some b \<longrightarrow> from_slice c b = Some x)"

lemma serde_read_back: "serde_laws c \<Longrightarrow> to_vec c x = Some b \<Longrightarrow> from_slice c b = Some x"
  by (simp add: serde_laws_def)

text \<open>A codec that accepts one value.\<close>

definition single_serde :: "'a \<Rightarrow> bytes \<Rightarrow> 'a serde" where
  "single_serde x b =
     \<lparr>to_vec = (\<lambda>y. if y = x then Some b else None), from_slice = (\<lambda>c. if c = b then Some x else None)\<rparr>"

lemma single_serde_laws: "serde_laws (single_serde x b)"
  by (simp add: serde_laws_def single_serde_def)

section \<open>Wallet names\<close>

definition DEFAULT_WALLET_ID :: ustring where
  "DEFAULT_WALLET_ID = code_points ''default''"

definition MAX_WALLET_ID_LEN :: nat where
  "MAX_WALLET_ID_LEN = 64"

definition allowed :: "nat \<Rightarrow> bool" where
  "allowed ch \<longleftrightarrow> is_ascii_alphanumeric ch \<or> ch = of_char (CHR ''-'') \<or> ch = of_char (CHR ''_'')"

text \<open>The loop over the characters. Everything it pushes is one byte long in UTF-8, so the
  byte length of \<open>sanitized\<close> is its number of characters.\<close>

fun sanitize :: "ustring \<Rightarrow> ustring \<Rightarrow> ustring" where
  "sanitize sanitized [] = sanitized"
| "sanitize sanitized (ch # chars) =
     (if MAX_WALLET_ID_LEN \<le> length sanitized then sanitized
      else if allowed ch then sanitize (sanitized @ [ch]) chars
      else sanitize (sanitized @ [of_char (CHR ''_'')]) chars)"

definition normalize_wallet_id :: "ustring \<Rightarrow> ustring" where
  "normalize_wallet_id raw =
     (let trimmed = trim raw in
      if trimmed = [] then DEFAULT_WALLET_ID
      else let sanitized = sanitize [] trimmed in
           if sanitized = [] then DEFAULT_WALLET_ID else sanitized)"

section \<open>Request payloads\<close>

record keygen_request_payload =
  kg_wallet_id :: ustring
  kg_threshold :: u16

record sign_request_payload =
  sg_wallet_id :: ustring
  sg_message :: bytes

datatype payload_error = EncodeKeygenPayload | DecodeKeygenPayload | EncodeSignPayload | DecodeSignPayload

definition encode_keygen_payload ::
    "keygen_request_payload serde \<Rightarrow> ustring \<Rightarrow> u16 \<Rightarrow> payload_error + bytes" where
  "encode_keygen_payload cbor w threshold =
     ok_or EncodeKeygenPayload
       (to_vec cbor \<lparr>kg_wallet_id = normalize_wallet_id w, kg_threshold = threshold\<rparr>)"

definition decode_keygen_payload ::
    "keygen_request_payload serde \<Rightarrow> bytes \<Rightarrow> payload_error + keygen_request_payload" where
  "decode_keygen_payload cbor payload =
     bindR (ok_or DecodeKeygenPayload (from_slice cbor payload)) (\<lambda>decoded.
       Inr \<lparr>kg_wallet_id = normalize_wallet_id (kg_wallet_id decoded), kg_threshold = kg_threshold decoded\<rparr>)"

definition encode_sign_payload ::
    "sign_request_payload serde \<Rightarrow> ustring \<Rightarrow> bytes \<Rightarrow> payload_error + bytes" where
  "encode_sign_payload cbor w message =
     ok_or EncodeSignPayload
       (to_vec cbor \<lparr>sg_wallet_id = normalize_wallet_id w, sg_message = message\<rparr>)"

definition decode_sign_payload ::
    "sign_request_payload serde \<Rightarrow> bytes \<Rightarrow> payload_error + sign_request_payload" where
  "decode_sign_payload cbor payload =
     bindR (ok_or DecodeSignPayload (from_slice cbor payload)) (\<lambda>decoded.
       Inr \<lparr>sg_wallet_id = normalize_wallet_id (sg_wallet_id decoded), sg_message = sg_message decoded\<rparr>)"

section \<open>Key share files\<close>

text \<open>\<open>Path::new\<close> and its components on Unix: separators and \<open>.\<close> are skipped, but for a
  leading \<open>.\<close> of a relative path.\<close>

fun split_on :: "char \<Rightarrow> string \<Rightarrow> string list" where
  "split_on c [] = [[]]"
| "split_on c (x # xs) =
     (if x = c then [] # split_on c xs
      else case split_on c xs of s # ss \<Rightarrow> (x # s) # ss | [] \<Rightarrow> [[x]])"

record path =
  absolute :: bool
  components :: "string list"

definition path_of :: "string \<Rightarrow> path" where
  "path_of s =
     (let segs = split_on (CHR ''/'') s; root = (s \<noteq> [] \<and> hd s = CHR ''/'') in
      \<lparr>absolute = root,
       components = (if \<not> root \<and> hd segs = ''.'' then [''.''] else []) @
         filter (\<lambda>seg. seg \<noteq> [] \<and> seg \<noteq> ''.'') segs\<rparr>)"

definition file_name :: "path \<Rightarrow> string option" where
  "file_name p =
     (if components p = [] \<or> last (components p) \<in> {''.'', ''..''} then None
      else Some (last (components p)))"

definition has_extension :: "path \<Rightarrow> bool" where
  "has_extension p =
     (case file_name p of None \<Rightarrow> False | Some f \<Rightarrow> CHR ''.'' \<in> set (tl f))"

definition parent :: "path \<Rightarrow> path option" where
  "parent p = (if components p = [] then None else Some (p\<lparr>components := butlast (components p)\<rparr>))"

definition path_push :: "path \<Rightarrow> string \<Rightarrow> path" where
  "path_push p s =
     (let q = path_of s in
      if absolute q then q else p\<lparr>components := components p @ components q\<rparr>)"

definition wallet_key_share_path :: "string \<Rightarrow> ustring \<Rightarrow> path" where
  "wallet_key_share_path base_path w =
     (let wallet_id = of_code_points (normalize_wallet_id w);
          base = path_of base_path in
      if has_extension base then
        let parent = (case parent base of Some p \<Rightarrow> p | None \<Rightarrow> path_of ''.'') in
        path_push (path_push parent ''wallets'') (wallet_id @ ''.share'')
      else path_push base (wallet_id @ ''.share''))"

section \<open>Normal names\<close>

definition normal_id :: "ustring \<Rightarrow> bool" where
  "normal_id s \<longleftrightarrow> s \<noteq> [] \<and> length s \<le> MAX_WALLET_ID_LEN \<and> (\<forall>c \<in> set s. allowed c)"

lemma sanitize_eq:
  "length acc \<le> MAX_WALLET_ID_LEN \<Longrightarrow>
   sanitize acc s = acc @ take (MAX_WALLET_ID_LEN - length acc)
     (map (\<lambda>c. if allowed c then c else of_char (CHR ''_'')) s)"
proof (induction acc s rule: sanitize.induct)
  case (1 acc)
  then show ?case by simp
next
  case (2 acc c s)
  show ?case
  proof (cases "MAX_WALLET_ID_LEN \<le> length acc")
    case True
    then show ?thesis by simp
  next
    case False
    then have "MAX_WALLET_ID_LEN - length acc = Suc (MAX_WALLET_ID_LEN - Suc (length acc))" by simp
    with 2 False show ?thesis by simp
  qed
qed

lemma allowed_underscore [simp]: "allowed (of_char (CHR ''_''))"
  by (simp add: allowed_def)

lemma allowed_not_whitespace: "allowed c \<Longrightarrow> \<not> is_whitespace c"
  by (auto simp: allowed_def is_ascii_alphanumeric_def is_whitespace_def)

lemma allowed_ascii: "allowed c \<Longrightarrow> c < 128"
  by (auto simp: allowed_def is_ascii_alphanumeric_def)

lemma trim_id: "(\<And>c. c \<in> set s \<Longrightarrow> \<not> is_whitespace c) \<Longrightarrow> trim s = s"
proof -
  assume a: "\<And>c. c \<in> set s \<Longrightarrow> \<not> is_whitespace c"
  have "dropWhile is_whitespace t = t" if "set t \<subseteq> set s" for t
    using that a by (cases t) auto
  then show ?thesis by (simp add: trim_def)
qed

lemma normal_default: "normal_id DEFAULT_WALLET_ID"
  by (simp add: normal_id_def DEFAULT_WALLET_ID_def code_points_def MAX_WALLET_ID_LEN_def allowed_def
      is_ascii_alphanumeric_def)

lemma normal_normalize: "normal_id (normalize_wallet_id raw)"
proof (cases "trim raw")
  case Nil
  then show ?thesis by (simp add: normalize_wallet_id_def normal_default)
next
  case (Cons c s)
  have e: "sanitize [] (trim raw) = take MAX_WALLET_ID_LEN
      (map (\<lambda>c. if allowed c then c else of_char (CHR ''_'')) (trim raw))"
    by (simp add: sanitize_eq)
  have "normal_id (sanitize [] (trim raw))"
    unfolding e normal_id_def using Cons allowed_underscore
    by (auto simp: MAX_WALLET_ID_LEN_def simp del: of_char_Char dest!: in_set_takeD split: if_splits)
  then show ?thesis
    using Cons by (simp add: normalize_wallet_id_def Let_def normal_id_def)
qed

lemma normalize_normal: "normal_id s \<Longrightarrow> normalize_wallet_id s = s"
proof -
  assume s: "normal_id s"
  then have t: "trim s = s" by (intro trim_id) (auto simp: normal_id_def allowed_not_whitespace)
  have "sanitize [] s = s" using s by (simp add: sanitize_eq normal_id_def map_idI)
  with s t show ?thesis by (simp add: normalize_wallet_id_def normal_id_def)
qed

lemma normalize_idem [simp]: "normalize_wallet_id (normalize_wallet_id raw) = normalize_wallet_id raw"
  by (rule normalize_normal) (rule normal_normalize)

lemma inj_of_code_points: "\<forall>c \<in> set s. c < 256 \<Longrightarrow> \<forall>c \<in> set t. c < 256 \<Longrightarrow>
   of_code_points s = of_code_points t \<Longrightarrow> s = t"
proof -
  assume a: "\<forall>c \<in> set s. c < 256" "\<forall>c \<in> set t. c < 256" "of_code_points s = of_code_points t"
  have "map of_char (of_code_points u) = u" if "\<forall>c \<in> set u. c < 256" for u
    using that by (simp add: of_code_points_def map_idI)
  with a show "s = t" by metis
qed

section \<open>Where a share is stored\<close>

lemma split_on_none: "c \<notin> set s \<Longrightarrow> split_on c s = [s]"
  by (induction s) auto

lemma char_of_allowed: "allowed c \<Longrightarrow> char_of c \<noteq> (CHR ''/'') \<and> char_of c \<noteq> (CHR ''.'')"
proof -
  assume a: "allowed c"
  have c: "of_char (char_of c :: char) = c" using allowed_ascii [OF a] by simp
  have "\<not> allowed (of_char (CHR ''/''))" "\<not> allowed (of_char (CHR ''.''))"
    by (simp_all add: allowed_def is_ascii_alphanumeric_def)
  with a c show ?thesis by metis
qed

lemma no_separator: "normal_id w \<Longrightarrow> x \<in> set (of_code_points w) \<Longrightarrow> x \<noteq> CHR ''/'' \<and> x \<noteq> CHR ''.''"
  using char_of_allowed by (auto simp: of_code_points_def normal_id_def simp del: char_of_eq_iff)

lemma share_file_name:
  assumes "normal_id w"
  shows "path_of (of_code_points w @ ''.share'') = \<lparr>absolute = False, components = [of_code_points w @ ''.share'']\<rparr>"
proof -
  let ?s = "of_code_points w @ ''.share''"
  have c: "x \<noteq> CHR ''/'' \<and> x \<noteq> CHR ''.''" if "x \<in> set (of_code_points w)" for x
    using assms that by (rule no_separator)
  then have "CHR ''/'' \<notin> set ?s" by auto
  then have "split_on (CHR ''/'') ?s = [?s]" by (rule split_on_none)
  moreover have "hd ?s \<noteq> CHR ''/''" using c assms by (cases w) (auto simp: of_code_points_def normal_id_def)
  moreover have "?s \<noteq> ''.''" "?s \<noteq> []" by (cases "of_code_points w", simp_all)
  ultimately show ?thesis by (simp add: path_of_def)
qed

definition share_dir :: "string \<Rightarrow> path" where
  "share_dir base_path =
     (let base = path_of base_path in
      if has_extension base then base\<lparr>components := butlast (components base) @ [''wallets'']\<rparr> else base)"

lemma share_path_eq:
  "wallet_key_share_path base w =
   (share_dir base)\<lparr>components := components (share_dir base) @
     [of_code_points (normalize_wallet_id w) @ ''.share'']\<rparr>"
proof -
  have n: "path_of ''wallets'' = \<lparr>absolute = False, components = [''wallets'']\<rparr>"
    by (simp add: path_of_def)
  have "components (path_of base) \<noteq> []" if "has_extension (path_of base)"
    using that by (auto simp: has_extension_def file_name_def)
  then show ?thesis
    using share_file_name [OF normal_normalize]
    by (simp add: wallet_key_share_path_def share_dir_def path_push_def parent_def Let_def n)
qed

lemma share_path_iff:
  "wallet_key_share_path base v = wallet_key_share_path base w \<longleftrightarrow>
   normalize_wallet_id v = normalize_wallet_id w"
proof -
  let ?n = "\<lambda>u. of_code_points (normalize_wallet_id u)"
  have ascii: "\<forall>c \<in> set (normalize_wallet_id u). c < 256" for u
    using normal_normalize [of u] allowed_ascii by (fastforce simp: normal_id_def)
  have "wallet_key_share_path base v = wallet_key_share_path base w \<longleftrightarrow> ?n v = ?n w"
    by (auto simp: share_path_eq dest: arg_cong [where f = components])
  also have "\<dots> \<longleftrightarrow> normalize_wallet_id v = normalize_wallet_id w"
    using inj_of_code_points [OF ascii ascii, of v w] by auto
  finally show ?thesis .
qed

text \<open>
  C38: a wallet name is made safe once and for all: the normalised name is not empty, has at
  most 64 characters, all of them ASCII letters, digits, \<open>-\<close> or \<open>_\<close>; normalising it again
  changes nothing; and a name of that form is left alone.
\<close>

theorem wallet_id_normal_form:
  "normalize_wallet_id raw \<noteq> [] \<and> length (normalize_wallet_id raw) \<le> 64 \<and>
   list_all allowed (normalize_wallet_id raw) \<and>
   normalize_wallet_id (normalize_wallet_id raw) = normalize_wallet_id raw \<and>
   (normalize_wallet_id raw = raw) = (raw \<noteq> [] \<and> length raw \<le> 64 \<and> list_all allowed raw)"
  using normal_normalize [of raw] normalize_normal [of raw]
  by (auto simp: normal_id_def MAX_WALLET_ID_LEN_def list_all_iff)

text \<open>
  C39: key shares stay in one directory and are kept apart: for every base path and any
  wallet name, whatever characters it contains, the share is a file directly inside a
  directory that depends on the base path only, its name has no separator and is not a
  dot name, and two wallets use the same file exactly when their normalised names agree.
\<close>

theorem wallet_files_separate:
  "\<exists>f. components (wallet_key_share_path base w) = components (share_dir base) @ [f] \<and>
     absolute (wallet_key_share_path base w) = absolute (share_dir base) \<and>
     CHR ''/'' \<notin> set f \<and> f \<notin> {[], ''.'', ''..''} \<and>
     (\<forall>v. (wallet_key_share_path base v = wallet_key_share_path base w) =
          (normalize_wallet_id v = normalize_wallet_id w))"
proof -
  let ?n = "\<lambda>u. of_code_points (normalize_wallet_id u)"
  have "CHR ''/'' \<notin> set (?n w @ ''.share'')"
    using no_separator [OF normal_normalize] by auto
  moreover have "?n w @ ''.share'' \<notin> {[], ''.'', ''..''}"
    by (cases "?n w"; cases "tl (?n w)") auto
  ultimately show ?thesis
    by (intro exI [of _ "?n w @ ''.share''"]) (simp add: share_path_iff, simp add: share_path_eq)
qed

text \<open>
  A request reaches the other parties as it was made: what decoding finds in an encoded
  key generation or signing payload is the threshold or message that was put in, with the
  normalised wallet name.
\<close>

lemma payload_roundtrip:
  assumes "serde_laws kc" and "serde_laws sc"
    and "encode_keygen_payload kc w t = Inr kb" and "encode_sign_payload sc w m = Inr sb"
  shows "decode_keygen_payload kc kb = Inr \<lparr>kg_wallet_id = normalize_wallet_id w, kg_threshold = t\<rparr> \<and>
    decode_sign_payload sc sb = Inr \<lparr>sg_wallet_id = normalize_wallet_id w, sg_message = m\<rparr>"
  using assms
  by (simp add: encode_keygen_payload_def decode_keygen_payload_def encode_sign_payload_def
      decode_sign_payload_def serde_laws_def)

end
