(* ===== verification/Agent_Io.thy ===== *)
theory Agent_Io
  imports Execution Wallet
begin

text \<open>
  What the two protocol agents of the \<open>tss\<close> crate share: the channels to the running
  session, and the shape of their receive loops. An agent is a function of the messages
  that its incoming channel delivers; a loop that wants more than that is \<open>Waiting\<close>, with
  what the agent has sent so far, or fails when the channel is closed.
\<close>

section \<open>Channels of an agent\<close>

text \<open>\<open>io_send_ok\<close>, \<open>io_feedback\<close> and \<open>io_feedback_done\<close> say of the k-th message sent whether
  the channel is open, which feedback channel is attached, and whether its receiver is
  resolved (by an answer or by dropping the sender). The channel to the session is bounded:
  a send on a full channel waits until the session reads from it, which delays the agent and
  does not change what it sends, so a send is modelled by its outcome.\<close>

record agent_io =
  io_incoming :: "protocol_request list"
  io_closed :: bool
  io_outgoing :: "protocol_response list"
  io_send_ok :: "nat \<Rightarrow> bool"
  io_feedback :: "nat \<Rightarrow> oneshot"
  io_feedback_done :: "nat \<Rightarrow> bool"

datatype 'e halt = Waiting agent_io | Failed 'e | Panicked string

type_synonym ('e, 'a) agent_res = "'e halt + 'a \<times> agent_io"

definition send :: "'e \<Rightarrow> bytes \<Rightarrow> u16 option \<Rightarrow> agent_io \<Rightarrow> 'e halt + agent_io" where
  "send err body to io =
     (let k = length (io_outgoing io) in
      if io_send_ok io k then
        Inr (io\<lparr>io_outgoing := io_outgoing io @
          [\<lparr>om_body = body, om_to = to, om_sent_feedback = Some (io_feedback io k)\<rparr>]\<rparr>)
      else Inl (Failed err))"

text \<open>\<open>let _ = rx.await\<close> for the feedback of the last message sent.\<close>

definition await_feedback :: "agent_io \<Rightarrow> 'e halt + agent_io" where
  "await_feedback io =
     (if io_feedback_done io (length (io_outgoing io) - 1) then Inr io else Inl (Waiting io))"

definition or_fail :: "'e \<Rightarrow> 'a option \<Rightarrow> 'e halt + 'a" where
  "or_fail err m = ok_or (Failed err) m"

lemma or_fail_simps [simp]:
  "or_fail e (Some x) = Inr x" "or_fail e None = Inl (Failed e)"
  "or_fail e m = Inr y \<longleftrightarrow> m = Some y"
  by (simp_all add: or_fail_def)

section \<open>Receive loops\<close>

text \<open>\<open>while not done { let req = deferred.next() or incoming.recv()?; ... }\<close>: the messages set
  aside by an earlier loop come before those of the channel.\<close>

fun collect ::
    "('s \<Rightarrow> bool) \<Rightarrow> 'e \<Rightarrow> ('s \<Rightarrow> protocol_request \<Rightarrow> 'e halt + 's) \<Rightarrow> agent_io \<Rightarrow>
     protocol_request list \<Rightarrow> protocol_request list \<Rightarrow> 's \<Rightarrow> ('e, 's) agent_res" where
  "collect fin err h io (d # ds) ms s =
     (if fin s then Inr (s, io\<lparr>io_incoming := ms\<rparr>)
      else bindR (h s d) (collect fin err h io ds ms))"
| "collect fin err h io [] (m # ms) s =
     (if fin s then Inr (s, io\<lparr>io_incoming := m # ms\<rparr>)
      else bindR (h s m) (collect fin err h io [] ms))"
| "collect fin err h io [] [] s =
     (if fin s then Inr (s, io\<lparr>io_incoming := []\<rparr>)
      else Inl (if io_closed io then Failed err else Waiting (io\<lparr>io_incoming := []\<rparr>)))"

text \<open>The same without the test: every message is handled.\<close>

fun handle_all :: "('s \<Rightarrow> 'm \<Rightarrow> 'e + 's) \<Rightarrow> 's \<Rightarrow> 'm list \<Rightarrow> 'e + 's" where
  "handle_all h s [] = Inr s"
| "handle_all h s (m # ms) = bindR (h s m) (\<lambda>s'. handle_all h s' ms)"

lemma handle_all_append:
  "handle_all h s (xs @ ys) = bindR (handle_all h s xs) (\<lambda>t. handle_all h t ys)"
proof (induction xs arbitrary: s)
  case Nil
  then show ?case by simp
next
  case (Cons x xs)
  then show ?case by (cases "h s x") simp_all
qed

text \<open>A loop that returns has handled a prefix of its messages and has what it waited for.\<close>

lemma collect_Inr:
  assumes "collect fin err h io ds ms s = Inr (t, io')"
  shows "fin t \<and> (\<exists>us vs. ds @ ms = us @ vs \<and> handle_all h s us = Inr t) \<and>
    io_outgoing io' = io_outgoing io"
  using assms
proof (induction fin err h io ds ms s rule: collect.induct)
  case (1 fin err h io d ds ms s)
  show ?case
  proof (cases "fin s")
    case True
    with 1(2) show ?thesis by (auto intro: exI [of _ "[]"])
  next
    case False
    with 1(2) obtain s' where s': "h s d = Inr s'" "collect fin err h io ds ms s' = Inr (t, io')" by auto
    from 1(1) [OF False this] obtain us vs where
      "ds @ ms = us @ vs" "handle_all h s' us = Inr t" "fin t" "io_outgoing io' = io_outgoing io" by auto
    with s' have "(d # ds) @ ms = (d # us) @ vs" "handle_all h s (d # us) = Inr t" by simp_all
    with \<open>fin t\<close> \<open>io_outgoing io' = io_outgoing io\<close> show ?thesis by blast
  qed
next
  case (2 fin err h io m ms s)
  show ?case
  proof (cases "fin s")
    case True
    with 2(2) show ?thesis by (auto intro: exI [of _ "[]"])
  next
    case False
    with 2(2) obtain s' where s': "h s m = Inr s'" "collect fin err h io [] ms s' = Inr (t, io')" by auto
    from 2(1) [OF False this] obtain us vs where
      "ms = us @ vs" "handle_all h s' us = Inr t" "fin t" "io_outgoing io' = io_outgoing io" by auto
    with s' have "m # ms = (m # us) @ vs" "handle_all h s (m # us) = Inr t" by simp_all
    with \<open>fin t\<close> \<open>io_outgoing io' = io_outgoing io\<close> show ?thesis by (metis append_Nil)
  qed
next
  case (3 fin err h io s)
  then show ?case by (auto split: if_splits intro: exI [of _ "[]"])
qed

text \<open>If handling all messages would reach the goal, the loop returns at the first moment it
  does.\<close>

lemma collect_reaches:
  assumes "handle_all h s (ds @ ms) = Inr t" and "fin t"
  shows "\<exists>us vs u. ds @ ms = us @ vs \<and> handle_all h s us = Inr u \<and> fin u \<and>
    collect fin err h io ds ms s = Inr (u, io\<lparr>io_incoming := drop (length us - length ds) ms\<rparr>)"
  using assms
proof (induction fin err h io ds ms s rule: collect.induct)
  case (1 fin err h io d ds ms s)
  show ?case
  proof (cases "fin s")
    case True
    then show ?thesis by (intro exI [of _ "[]"] exI [of _ "(d # ds) @ ms"] exI [of _ s]) simp
  next
    case False
    from 1(2) obtain s' where s': "h s d = Inr s'" "handle_all h s' (ds @ ms) = Inr t" by auto
    from 1(1) [OF False this 1(3)] obtain us vs u where u: "ds @ ms = us @ vs" "handle_all h s' us = Inr u" "fin u"
      "collect fin err h io ds ms s' = Inr (u, io\<lparr>io_incoming := drop (length us - length ds) ms\<rparr>)" by blast
    with s' False show ?thesis by (intro exI [of _ "d # us"] exI [of _ vs] exI [of _ u]) simp
  qed
next
  case (2 fin err h io m ms s)
  show ?case
  proof (cases "fin s")
    case True
    then show ?thesis by (intro exI [of _ "[]"] exI [of _ "m # ms"] exI [of _ s]) simp
  next
    case False
    from 2(2) obtain s' where s': "h s m = Inr s'" "handle_all h s' ([] @ ms) = Inr t" by auto
    from 2(1) [OF False this 2(3)] obtain us vs u where u: "ms = us @ vs" "handle_all h s' us = Inr u" "fin u"
      "collect fin err h io [] ms s' = Inr (u, io\<lparr>io_incoming := drop (length us) ms\<rparr>)" by auto
    with s' False show ?thesis by (intro exI [of _ "m # us"] exI [of _ vs] exI [of _ u]) simp
  qed
next
  case (3 fin err h io s)
  then show ?case by (intro exI [of _ "[]"]) simp
qed

text \<open>If it does not, the loop is left waiting.\<close>

lemma collect_waits:
  assumes "handle_all h s (ds @ ms) = Inr t"
    and "\<And>us vs u. ds @ ms = us @ vs \<Longrightarrow> handle_all h s us = Inr u \<Longrightarrow> \<not> fin u"
  shows "collect fin err h io ds ms s =
    Inl (if io_closed io then Failed err else Waiting (io\<lparr>io_incoming := []\<rparr>))"
  using assms
proof (induction fin err h io ds ms s rule: collect.induct)
  case (1 fin err h io d ds ms s)
  have "\<not> fin s" using 1(3) [of "[]"] by simp
  moreover from 1(2) obtain s' where s': "h s d = Inr s'" "handle_all h s' (ds @ ms) = Inr t" by auto
  moreover have "\<not> fin u" if "ds @ ms = us @ vs" "handle_all h s' us = Inr u" for us vs u
    using 1(3) [of "d # us" vs u] that s'(1) by simp
  ultimately show ?case using 1(1) by simp
next
  case (2 fin err h io m ms s)
  have "\<not> fin s" using 2(3) [of "[]"] by simp
  moreover from 2(2) obtain s' where s': "h s m = Inr s'" "handle_all h s' ms = Inr t" by auto
  moreover have "\<not> fin u" if "ms = us @ vs" "handle_all h s' us = Inr u" for us vs u
    using 2(3) [of "m # us" vs u] that s'(1) by simp
  ultimately show ?case using 2(1) by simp
next
  case (3 fin err h io s)
  have "\<not> fin s" using 3(2) [of "[]"] by simp
  then show ?case by simp
qed

section \<open>Collecting one entry per sender\<close>

text \<open>
  The interface between a loop body and the argument that the order of arrival does not
  matter: an acceptable message either carries an entry, which is added when its sender has
  none yet, or leaves the collection alone.
\<close>

locale collector =
  fixes h :: "'s \<Rightarrow> protocol_request \<Rightarrow> 'e halt + 's"
    and view :: "'s \<Rightarrow> ('k :: linorder, 'v) btree"
    and inv :: "'s \<Rightarrow> bool"
    and ok :: "protocol_request \<Rightarrow> bool"
    and entry :: "protocol_request \<Rightarrow> ('k \<times> 'v) option"
  assumes handle_other:
      "inv s \<Longrightarrow> ok m \<Longrightarrow> entry m = None \<Longrightarrow> \<exists>s'. h s m = Inr s' \<and> inv s' \<and> view s' = view s"
    and handle_entry:
      "inv s \<Longrightarrow> ok m \<Longrightarrow> entry m = Some (k, v) \<Longrightarrow> bt_get k (view s) = None \<Longrightarrow>
       \<exists>s'. h s m = Inr s' \<and> inv s' \<and> view s' = bt_insert k v (view s)"
begin

definition entries :: "protocol_request list \<Rightarrow> ('k \<times> 'v) list" where
  "entries ms = List.map_filter entry ms"

lemma entries_simps [simp]:
  "entries [] = []"
  "entries (m # ms) = (case entry m of None \<Rightarrow> entries ms | Some e \<Rightarrow> e # entries ms)"
  "entries (xs @ ys) = entries xs @ entries ys"
  by (simp_all add: entries_def List.map_filter_def split: option.splits)

lemma entries_eq:
  assumes "list_all (\<lambda>m. entry m = (if P m then Some (g m) else None)) ms"
  shows "entries ms = map g (filter P ms)"
  using assms by (induction ms) auto

text \<open>What the collection is after a list of messages from different senders.\<close>

definition fresh :: "'s \<Rightarrow> protocol_request list \<Rightarrow> bool" where
  "fresh s ms \<longleftrightarrow> inv s \<and> list_all ok ms \<and> distinct (map fst (entries ms)) \<and>
     (\<forall>k \<in> fst ` set (entries ms). bt_get k (view s) = None)"

lemma fresh_step:
  assumes "fresh s (m # ms)"
  shows "\<exists>s'. h s m = Inr s' \<and> fresh s' ms \<and>
    view s' = (case entry m of None \<Rightarrow> view s | Some (k, v) \<Rightarrow> bt_insert k v (view s))"
proof (cases "entry m")
  case None
  with handle_other [of s m] assms show ?thesis by (fastforce simp: fresh_def)
next
  case (Some e)
  obtain k v where e: "e = (k, v)" by (cases e)
  with Some handle_entry [of s m k v] assms show ?thesis by (fastforce simp: fresh_def)
qed

lemma handle_fresh:
  assumes "fresh s ms"
  shows "\<exists>s'. handle_all h s ms = Inr s' \<and> inv s' \<and>
    (\<forall>k. bt_get k (view s') = (case map_of (entries ms) k of None \<Rightarrow> bt_get k (view s) | Some v \<Rightarrow> Some v)) \<and>
    length (view s') = length (view s) + length (entries ms) \<and> (bt_wf (view s) \<longrightarrow> bt_wf (view s'))"
  using assms
proof (induction ms arbitrary: s)
  case Nil
  then show ?case by (simp add: fresh_def)
next
  case (Cons m ms)
  from fresh_step [OF Cons.prems] obtain s' where s': "h s m = Inr s'" "fresh s' ms"
    "view s' = (case entry m of None \<Rightarrow> view s | Some (k, v) \<Rightarrow> bt_insert k v (view s))" by blast
  from Cons.IH [OF s'(2)] obtain t where t: "handle_all h s' ms = Inr t" "inv t"
    "\<forall>k. bt_get k (view t) = (case map_of (entries ms) k of None \<Rightarrow> bt_get k (view s') | Some v \<Rightarrow> Some v)"
    "length (view t) = length (view s') + length (entries ms)" "bt_wf (view s') \<longrightarrow> bt_wf (view t)" by blast
  show ?case
  proof (cases "entry m")
    case None
    with s' t show ?thesis by (auto split: option.splits)
  next
    case (Some e)
    obtain k v where e: "e = (k, v)" by (cases e)
    have k: "bt_get k (view s) = None" "map_of (entries ms) k = None"
      using Cons.prems Some e by (auto simp: fresh_def map_of_eq_None_iff)
    have "length (bt_insert k v (view s)) = Suc (length (view s))"
      using k(1) by (rule length_bt_insert_new)
    with s' t Some e k show ?thesis by (auto split: option.splits)
  qed
qed

text \<open>The loop returns as soon as it has all entries, with the collection that the senders
  determine, and leaves what came after.\<close>

lemma collect_fresh:
  assumes "fresh s (ds @ ms)" and "bt_wf (view s)"
    and "\<And>t. inv t \<Longrightarrow> fin t \<longleftrightarrow> n \<le> length (view t)"
    and "n = length (view s) + length (entries (ds @ ms))"
  shows "\<exists>us vs u. ds @ ms = us @ vs \<and> entries vs = [] \<and> handle_all h s us = Inr u \<and> inv u \<and> bt_wf (view u) \<and>
    (\<forall>k. bt_get k (view u) = (case map_of (entries (ds @ ms)) k of None \<Rightarrow> bt_get k (view s) | Some v \<Rightarrow> Some v)) \<and>
    length (view u) = n \<and>
    collect fin err h io ds ms s = Inr (u, io\<lparr>io_incoming := drop (length us - length ds) ms\<rparr>)"
proof -
  obtain t where t: "handle_all h s (ds @ ms) = Inr t" "inv t" "length (view t) = n"
    using handle_fresh [OF assms(1)] assms(4) by auto
  then have "fin t" using assms(3) by simp
  from collect_reaches [where err = err and io = io and fin = fin, OF t(1) this] obtain us vs u where u:
    "ds @ ms = us @ vs" "handle_all h s us = Inr u" "fin u"
    "collect fin err h io ds ms s = Inr (u, io\<lparr>io_incoming := drop (length us - length ds) ms\<rparr>)" by blast
  have "fresh s us" using assms(1) by (auto simp: u(1) fresh_def)
  from handle_fresh [OF this] u(2) assms(2) have v: "inv u" "bt_wf (view u)"
    "\<forall>k. bt_get k (view u) = (case map_of (entries us) k of None \<Rightarrow> bt_get k (view s) | Some v \<Rightarrow> Some v)"
    "length (view u) = length (view s) + length (entries us)" by auto
  have "n \<le> length (view u)" using assms(3) [OF v(1)] u(3) by simp
  with v(4) assms(4) u(1) have "entries vs = []" by simp
  with u v assms(4) show ?thesis by auto
qed

end

end
