(* ===== verification/Key_Share.thy ===== *)
theory Key_Share
  imports Agent_Io
begin

text \<open>
  Key shares: the records that \<open>tss/src/keygen.rs\<close> writes and \<open>tss/src/keysign.rs\<close> reads,
  the mapping between peers and FROST identifiers that a share carries from key generation
  to every later signing session, and the files that hold the shares. The disk is a map
  from paths to contents; what the operating system does is an input of the operation.
\<close>

section \<open>Data\<close>

datatype curve = Ed25519 | Secp256k1

record key_share_participant =
  kp_peer_id :: string
  kp_identifier :: u16

record key_share =
  ks_curve :: curve
  ks_identifier :: u16
  ks_signing_key :: bytes
  ks_public_key :: bytes
  ks_group_public_key :: bytes
  ks_public_key_package :: bytes
  ks_min_signers :: u16
  ks_max_signers :: u16
  ks_participants :: "key_share_participant list"

record public_key =
  pk_curve :: curve
  pk_bytes :: bytes

record signature =
  sig_curve :: curve
  sig_pub_key :: bytes
  sig_signature :: bytes

datatype share_error =
    NoParticipants
  | InvalidPeerId string
  | NotOneBased
  | ExceedsMaxSigners u16 u16
  | DuplicateIdentifier u16
  | DuplicatePeer
  | PeerNotInShare string
  | LocalNotInShare
  | IndexNotOneBased
  | OutsideSession u16
  | NoParentDirectory
  | CreateDirectory
  | CreateFile
  | SerializeShare
  | WriteShare
  | ReadShare
  | DeserializeShare

definition lift_share :: "(share_error \<Rightarrow> 'e) \<Rightarrow> share_error fault \<Rightarrow> 'e halt" where
  "lift_share g e = (case e of Panic s \<Rightarrow> Panicked s | Fail x \<Rightarrow> Failed (g x))"

section \<open>Participants of a key\<close>

text \<open>\<open>enumerate\<close> counts in \<open>usize\<close>; \<open>index as u16\<close> truncates and the addition is checked.\<close>

fun enumerate_participants ::
    "'p peer_id_ops \<Rightarrow> nat \<Rightarrow> 'p list \<Rightarrow> (share_error, key_share_participant list) res" where
  "enumerate_participants P index [] = Inr []"
| "enumerate_participants P index (p # ps) =
     bindR (checked_inc (of_nat index)) (\<lambda>identifier.
     bindR (enumerate_participants P (Suc index) ps) (\<lambda>rest.
       Inr (\<lparr>kp_peer_id = pid_to_base58 P p, kp_identifier = identifier\<rparr> # rest)))"

definition key_share_participants_from_peers ::
    "'p peer_id_ops \<Rightarrow> 'p list \<Rightarrow> (share_error, key_share_participant list) res" where
  "key_share_participants_from_peers P ps = enumerate_participants P 0 ps"

definition key_share_participants ::
    "'p peer_id_ops \<Rightarrow> 'p peerset \<Rightarrow> (share_error, key_share_participant list) res" where
  "key_share_participants P ps = key_share_participants_from_peers P (peers ps)"

text \<open>The first loop of \<open>key_share_parties_for_peers\<close>: the map from peers to identifiers and the
  identifiers in use.\<close>

fun check_participants ::
    "'p peer_id_ops \<Rightarrow> u16 \<Rightarrow> key_share_participant list \<Rightarrow> ('p \<rightharpoonup> u16) \<Rightarrow> u16 set \<Rightarrow>
     (share_error, 'p \<rightharpoonup> u16) res" where
  "check_participants P max_signers [] identifiers used = Inr identifiers"
| "check_participants P max_signers (participant # rest) identifiers used =
     bindR (ok_or (Fail (InvalidPeerId (kp_peer_id participant))) (pid_from_str P (kp_peer_id participant))) (\<lambda>p.
       if kp_identifier participant = 0 then Inl (Fail NotOneBased)
       else if max_signers < kp_identifier participant
         then Inl (Fail (ExceedsMaxSigners (kp_identifier participant) max_signers))
       else if kp_identifier participant \<in> used
         then Inl (Fail (DuplicateIdentifier (kp_identifier participant)))
       else if identifiers p \<noteq> None then Inl (Fail DuplicatePeer)
       else check_participants P max_signers rest (identifiers(p \<mapsto> kp_identifier participant))
              (insert (kp_identifier participant) used))"

fun mapped_parties ::
    "'p peer_id_ops \<Rightarrow> ('p \<rightharpoonup> u16) \<Rightarrow> 'p list \<Rightarrow> (share_error, nat list) res" where
  "mapped_parties P identifiers [] = Inr []"
| "mapped_parties P identifiers (p # ps) =
     bindR (ok_or (Fail (PeerNotInShare (pid_to_base58 P p))) (identifiers p)) (\<lambda>identifier.
     bindR (checked_dec identifier) (\<lambda>party.
     bindR (mapped_parties P identifiers ps) (\<lambda>rest. Inr (unat party # rest))))"

definition key_share_parties_for_peers ::
    "'p peer_id_ops \<Rightarrow> 'p list \<Rightarrow> 'p \<Rightarrow> key_share \<Rightarrow> (share_error, nat list \<times> u16) res" where
  "key_share_parties_for_peers P ps me ks =
     (if ks_participants ks = [] then Inl (Fail NoParticipants)
      else
        bindR (check_participants P (ks_max_signers ks) (ks_participants ks) Map.empty {}) (\<lambda>identifiers.
        bindR (mapped_parties P identifiers ps) (\<lambda>mapped.
        bindR (ok_or (Fail LocalNotInShare) (identifiers me)) (\<lambda>local_identifier.
          Inr (mapped, local_identifier)))))"

definition apply_key_share_participants ::
    "'p peer_id_ops \<Rightarrow> 'p peerset \<Rightarrow> key_share \<Rightarrow> (share_error, 'p peerset \<times> u16) res" where
  "apply_key_share_participants P ps ks =
     bindR (key_share_parties_for_peers P (peers ps) (local_peer_id ps) ks) (\<lambda>(mapped, local_identifier).
       Inr (ps\<lparr>parties := mapped\<rparr>, local_identifier))"

definition signing_participants :: "'p peerset \<Rightarrow> u16 list" where
  "signing_participants ps = map (\<lambda>idx. of_nat (idx + 1)) (parties ps)"

definition participant_identifier_for_session_index ::
    "u16 \<Rightarrow> u16 list \<Rightarrow> share_error + u16" where
  "participant_identifier_for_session_index session_index participants =
     (if session_index = 0 then Inl IndexNotOneBased
      else let position = unat (session_index - 1) in
           if position < length participants then Inr (participants ! position)
           else Inl (OutsideSession session_index))"

section \<open>Share files\<close>

type_synonym share_disk = "path \<rightharpoonup> bytes"

text \<open>What the operating system does: whether the directory and the file can be created, and
  after how many bytes a failing write stops.\<close>

record save_input =
  sv_mkdir_ok :: bool
  sv_create_ok :: bool
  sv_write_fails :: "nat option"

text \<open>\<open>File::create\<close> truncates an existing file before the share is serialised.\<close>

definition save_key_share ::
    "key_share serde \<Rightarrow> string \<Rightarrow> save_input \<Rightarrow> ustring \<Rightarrow> key_share \<Rightarrow> share_disk \<Rightarrow>
     share_disk \<times> (share_error + bytes)" where
  "save_key_share json base i w ks d =
     (let path = wallet_key_share_path base w in
      if parent path = None then (d, Inl NoParentDirectory)
      else if \<not> sv_mkdir_ok i then (d, Inl CreateDirectory)
      else if \<not> sv_create_ok i then (d, Inl CreateFile)
      else case to_vec json ks of
          None \<Rightarrow> (d(path \<mapsto> []), Inl SerializeShare)
        | Some share_bytes \<Rightarrow>
            (case sv_write_fails i of
               Some k \<Rightarrow> (d(path \<mapsto> take k share_bytes), Inl WriteShare)
             | None \<Rightarrow> (d(path \<mapsto> share_bytes), Inr (ks_group_public_key ks))))"

definition read_key_share ::
    "key_share serde \<Rightarrow> string \<Rightarrow> ustring \<Rightarrow> share_disk \<Rightarrow> share_error + key_share" where
  "read_key_share json base w d =
     bindR (ok_or ReadShare (d (wallet_key_share_path base w))) (\<lambda>share_bytes.
       ok_or DeserializeShare (from_slice json share_bytes))"

section \<open>The checks on a participant list\<close>

text \<open>What the loop accepts: every name is a peer id, identifiers lie between one and the
  number of signers, and neither identifiers nor peers repeat.\<close>

definition peers_named :: "'p peer_id_ops \<Rightarrow> key_share_participant list \<Rightarrow> 'p option list" where
  "peers_named P parts = map (\<lambda>c. pid_from_str P (kp_peer_id c)) parts"

definition valid_participants :: "'p peer_id_ops \<Rightarrow> u16 \<Rightarrow> key_share_participant list \<Rightarrow> bool" where
  "valid_participants P max_signers parts \<longleftrightarrow>
     None \<notin> set (peers_named P parts) \<and> distinct (peers_named P parts) \<and>
     distinct (map kp_identifier parts) \<and>
     list_all (\<lambda>c. kp_identifier c \<noteq> 0 \<and> kp_identifier c \<le> max_signers) parts"

definition participant_map :: "'p peer_id_ops \<Rightarrow> key_share_participant list \<Rightarrow> 'p \<rightharpoonup> u16" where
  "participant_map P parts = map_of (map (\<lambda>c. (the (pid_from_str P (kp_peer_id c)), kp_identifier c)) parts)"

lemma participant_map_dom:
  assumes "None \<notin> set (peers_named P parts)"
  shows "p \<in> dom (participant_map P parts) \<longleftrightarrow> Some p \<in> set (peers_named P parts)"
  using assms
proof (induction parts)
  case Nil
  then show ?case by (simp add: participant_map_def peers_named_def)
next
  case (Cons c parts)
  then obtain q where "pid_from_str P (kp_peer_id c) = Some q"
    by (cases "pid_from_str P (kp_peer_id c)") (simp_all add: peers_named_def)
  with Cons show ?case by (auto simp: participant_map_def peers_named_def)
qed

lemma check_participants_Inr:
  "check_participants P n parts m used = Inr m' \<longleftrightarrow>
   valid_participants P n parts \<and> kp_identifier ` set parts \<inter> used = {} \<and>
   (\<forall>p \<in> dom m. Some p \<notin> set (peers_named P parts)) \<and> m' = m ++ participant_map P parts"
proof (induction parts arbitrary: m used)
  case Nil
  then show ?case by (auto simp: valid_participants_def peers_named_def participant_map_def)
next
  case (Cons c parts)
  show ?case
  proof (cases "pid_from_str P (kp_peer_id c)")
    case None
    then show ?thesis by (simp add: valid_participants_def peers_named_def)
  next
    case (Some p)
    have notin: "p \<notin> dom (participant_map P parts)"
      if "Some p \<notin> set (peers_named P parts)" "None \<notin> set (peers_named P parts)"
      using that by (simp add: participant_map_dom)
    have "(m(p \<mapsto> kp_identifier c)) ++ participant_map P parts = m ++ participant_map P (c # parts)"
      if "Some p \<notin> set (peers_named P parts)" "None \<notin> set (peers_named P parts)"
      using notin [OF that] Some by (auto simp: participant_map_def fun_eq_iff map_add_def split: option.splits)
    with Some Cons show ?thesis
      by (auto simp: valid_participants_def peers_named_def not_less)
  qed
qed

lemma mapped_parties_Inr:
  assumes "\<And>p u. identifiers p = Some u \<Longrightarrow> u \<noteq> 0"
  shows "mapped_parties P identifiers ps = Inr mapped \<longleftrightarrow>
    set ps \<subseteq> dom identifiers \<and> mapped = map (\<lambda>p. unat (the (identifiers p) - 1)) ps"
proof (induction ps arbitrary: mapped)
  case Nil
  then show ?case by auto
next
  case (Cons p ps)
  then show ?case using assms by (cases "identifiers p") auto
qed

lemma participant_map_range:
  assumes "valid_participants P n parts" and "participant_map P parts p = Some u"
  shows "u \<noteq> 0 \<and> u \<le> n \<and> u \<in> kp_identifier ` set parts"
  using assms by (auto simp: participant_map_def valid_participants_def list_all_iff dest!: map_of_SomeD)

lemma parties_for_peers_Inr:
  "key_share_parties_for_peers P ps me ks = Inr (mapped, i) \<longleftrightarrow>
   ks_participants ks \<noteq> [] \<and> valid_participants P (ks_max_signers ks) (ks_participants ks) \<and>
   set ps \<subseteq> dom (participant_map P (ks_participants ks)) \<and>
   participant_map P (ks_participants ks) me = Some i \<and>
   mapped = map (\<lambda>p. unat (the (participant_map P (ks_participants ks) p) - 1)) ps"
proof (cases "valid_participants P (ks_max_signers ks) (ks_participants ks)")
  case True
  then have "check_participants P (ks_max_signers ks) (ks_participants ks) Map.empty {} =
      Inr (participant_map P (ks_participants ks))"
    by (simp add: check_participants_Inr)
  with True participant_map_range [OF True] show ?thesis
    by (auto simp: key_share_parties_for_peers_def mapped_parties_Inr)
next
  case False
  then have "check_participants P (ks_max_signers ks) (ks_participants ks) Map.empty {} \<noteq> Inr m" for m
    by (simp add: check_participants_Inr)
  with False show ?thesis by (auto simp: key_share_parties_for_peers_def)
qed

section \<open>The participants that key generation writes\<close>

lemma enumerate_participants_Inr:
  assumes "k + length ps < 2 ^ 16"
  shows "enumerate_participants P k ps =
    Inr (map (\<lambda>j. \<lparr>kp_peer_id = pid_to_base58 P (ps ! j), kp_identifier = of_nat (Suc (k + j))\<rparr>) [0..<length ps])"
  using assms
proof (induction ps arbitrary: k)
  case Nil
  then show ?case by simp
next
  case (Cons p ps)
  have "(of_nat k :: u16) \<noteq> - 1"
  proof
    assume "(of_nat k :: u16) = - 1"
    then have "(of_nat (Suc k) :: u16) = 0" by simp
    then have "2 ^ 16 dvd Suc k" using word_of_nat_eq_0_iff [where 'a = 16, of "Suc k"] by simp
    with Cons.prems show False by (auto dest: dvd_imp_le)
  qed
  moreover have "[0..<length (p # ps)] = 0 # map Suc [0..<length ps]" by (simp add: upt_conv_Cons map_Suc_upt del: upt_Suc)
  ultimately show ?case using Cons by (simp add: checked_inc_def comp_def ac_simps del: upt_Suc)
qed

text \<open>The share's map gives every peer its position in the peerset of key generation, counted
  from one, and passes the checks.\<close>

lemma generated_participants:
  assumes "peer_id_laws P" and "distinct ps" and "length ps < 2 ^ 16"
    and "key_share_participants_from_peers P ps = Inr parts"
  shows "valid_participants P (of_nat (length ps)) parts"
    and "\<And>j. j < length ps \<Longrightarrow> participant_map P parts (ps ! j) = Some (of_nat (Suc j))"
    and "dom (participant_map P parts) = set ps"
proof -
  let ?c = "\<lambda>j. \<lparr>kp_peer_id = pid_to_base58 P (ps ! j), kp_identifier = of_nat (Suc j)\<rparr> :: key_share_participant"
  have parts: "parts = map ?c [0..<length ps]"
    using assms(3,4) by (simp add: key_share_participants_from_peers_def enumerate_participants_Inr)
  have b58: "pid_from_str P (pid_to_base58 P p) = Some p" for p
    using assms(1) by (simp add: peer_id_laws_def)
  have named: "peers_named P parts = map Some ps"
    by (rule nth_equalityI) (simp_all add: peers_named_def parts b58)
  have small: "unat (of_nat (Suc j) :: u16) = Suc j" if "j < length ps" for j
    using that assms(3) by (simp add: unsigned_of_nat take_bit_nat_eq_self del: of_nat_Suc)
  have "distinct (map kp_identifier parts)"
    unfolding parts distinct_map by (auto simp: inj_on_def comp_def simp del: of_nat_Suc dest: arg_cong [where f = unat] simp: small)
  moreover have "list_all (\<lambda>c. kp_identifier c \<noteq> 0 \<and> kp_identifier c \<le> of_nat (length ps)) parts"
    using assms(3) by (auto simp: parts list_all_iff word_le_nat_alt small unsigned_of_nat take_bit_nat_eq_self
        simp del: of_nat_Suc dest: arg_cong [where f = unat])
  ultimately show "valid_participants P (of_nat (length ps)) parts"
    using assms(2) by (auto simp: valid_participants_def named distinct_map inj_on_def)
  have pairs: "map (\<lambda>c. (the (pid_from_str P (kp_peer_id c)), kp_identifier c)) parts =
      map (\<lambda>j. (ps ! j, of_nat (Suc j))) [0..<length ps]"
    by (simp add: parts b58 comp_def)
  show "participant_map P parts (ps ! j) = Some (of_nat (Suc j))" if "j < length ps" for j
    unfolding participant_map_def pairs using that assms(2)
    by (intro map_of_is_SomeI) (auto simp: distinct_conv_nth comp_def distinct_map inj_on_def)
  show "dom (participant_map P parts) = set ps"
    using participant_map_dom [of P parts] by (auto simp: named)
qed

section \<open>Identifiers in a signing session\<close>

lemma index_of_nth:
  assumes "distinct (peers s)" and "j < length (peers s)"
  shows "index_of s (peers s ! j) = Some (of_nat j)"
  using position_nth_distinct [OF assms] by (simp add: index_of_def)

lemma session_identifier:
  assumes "wf_peerset kg" and "distinct (peers sg)" and "set (peers sg) \<subseteq> set (peers kg)"
    and "\<forall>j < length (peers kg). m (peers kg ! j) = Some (of_nat (Suc j))"
    and "q \<in> set (peers sg)"
  shows "\<exists>k u. index_of sg q = Some k \<and> index_of kg q = Some (u - 1) \<and> u \<noteq> 0 \<and> m q = Some u \<and>
    participant_identifier_for_session_index (k + 1)
      (signing_participants (sg\<lparr>parties := map (\<lambda>p. unat (the (m p) - 1)) (peers sg)\<rparr>)) = Inr u"
proof -
  obtain a where a: "a < length (peers sg)" "q = peers sg ! a" using assms(5) by (auto simp: in_set_conv_nth)
  obtain j where j: "j < length (peers kg)" "q = peers kg ! j"
    using assms(3,5) by (metis in_set_conv_nth subsetD)
  have "length (peers sg) \<le> length (peers kg)"
    using assms(1-3) by (metis List.finite_set card_mono distinct_card wf_peerset_def)
  then have n: "Suc a < 2 ^ 16" "Suc j < 2 ^ 16" using a(1) j(1) assms(1) by (auto simp: wf_peerset_def)
  have w: "unat (of_nat k :: u16) = k" if "k < 2 ^ 16" for k
    using that by (simp add: unsigned_of_nat take_bit_nat_eq_self)
  have nz: "(of_nat (Suc k) :: u16) \<noteq> 0" if "Suc k < 2 ^ 16" for k
    using w [OF that] by (metis nat.distinct(1) unsigned_0)
  have pred: "(of_nat (Suc j) - 1 :: u16) = of_nat j" by simp
  have mq: "m q = Some (of_nat (Suc j))" using assms(4) j by simp
  have "participant_identifier_for_session_index (of_nat a + 1)
      (signing_participants (sg\<lparr>parties := map (\<lambda>p. unat (the (m p) - 1)) (peers sg)\<rparr>)) = Inr (of_nat (Suc j))"
    using n nz [OF n(1)] a mq w [of a] w [of j]
    by (simp add: participant_identifier_for_session_index_def signing_participants_def add.commute)
  moreover have "index_of sg q = Some (of_nat a)" using a assms(2) by (simp add: index_of_nth)
  moreover have "index_of kg q = Some (of_nat (Suc j) - 1)" unfolding pred
    using j assms(1) by (simp add: index_of_nth wf_peerset_def)
  ultimately show ?thesis using mq nz [OF n(2)] by blast
qed

lemma generated_share_accepted:
  assumes "peer_id_laws P" and "wf_peerset kg" and "key_share_participants P kg = Inr (ks_participants ks)"
    and "ks_max_signers ks = of_nat (length (peers kg))"
    and "distinct (peers sg)" and "set (peers sg) \<subseteq> set (peers kg)" and "local_peer_id sg \<in> set (peers sg)"
  shows "\<exists>sg' i. apply_key_share_participants P sg ks = Inr (sg', i) \<and> i \<noteq> 0 \<and>
    index_of kg (local_peer_id sg) = Some (i - 1) \<and> peers sg' = peers sg \<and>
    length (signing_participants sg') = length (peers sg) \<and>
    list_all (\<lambda>q. \<exists>k u. index_of sg q = Some k \<and> index_of kg q = Some (u - 1) \<and> u \<noteq> 0 \<and>
      participant_identifier_for_session_index (k + 1) (signing_participants sg') = Inr u) (peers sg)"
proof -
  let ?m = "participant_map P (ks_participants ks)"
  let ?sg = "sg\<lparr>parties := map (\<lambda>p. unat (the (?m p) - 1)) (peers sg)\<rparr>"
  have kg: "distinct (peers kg)" "length (peers kg) < 2 ^ 16" using assms(2) by (simp_all add: wf_peerset_def)
  note gen = generated_participants [OF assms(1) kg assms(3) [unfolded key_share_participants_def]]
  have "\<forall>j < length (peers kg). ?m (peers kg ! j) = Some (of_nat (Suc j))" using gen(2) by blast
  note session = session_identifier [OF assms(2,5,6) this]
  from session [OF assms(7)] obtain i where i: "?m (local_peer_id sg) = Some i" "i \<noteq> 0"
    "index_of kg (local_peer_id sg) = Some (i - 1)" by auto
  have "ks_participants ks \<noteq> []" using i(1) by (auto simp: participant_map_def)
  then have "key_share_parties_for_peers P (peers sg) (local_peer_id sg) ks =
      Inr (map (\<lambda>p. unat (the (?m p) - 1)) (peers sg), i)"
    using gen(1,3) assms(4,6) i(1) by (simp add: parties_for_peers_Inr)
  then have "apply_key_share_participants P sg ks = Inr (?sg, i)"
    by (simp add: apply_key_share_participants_def)
  moreover have "length (signing_participants ?sg) = length (peers sg)" by (simp add: signing_participants_def)
  moreover have "list_all (\<lambda>q. \<exists>k u. index_of sg q = Some k \<and> index_of kg q = Some (u - 1) \<and> u \<noteq> 0 \<and>
      participant_identifier_for_session_index (k + 1) (signing_participants ?sg) = Inr u) (peers sg)"
    unfolding list_all_iff using session by blast
  ultimately show ?thesis using i by (intro exI [of _ ?sg] exI [of _ i]) simp
qed

text \<open>
  Signers keep the identifiers they got at key generation. A share that key generation
  wrote for its peerset is accepted by every signing session whose members took part in
  it: the local signer gets the identifier of its place at key generation, and the session
  index of every member translates to the identifier that this member got there.
\<close>

lemma signers_keep_keygen_identifiers:
  assumes "peer_id_laws P" and "wf_peerset kg" and "key_share_participants P kg = Inr (ks_participants ks)"
    and "ks_max_signers ks = of_nat (length (peers kg))"
    and "distinct (peers sg)" and "set (peers sg) \<subseteq> set (peers kg)" and "local_peer_id sg \<in> set (peers sg)"
  shows "\<exists>sg' i. apply_key_share_participants P sg ks = Inr (sg', i) \<and> i \<noteq> 0 \<and>
    index_of kg (local_peer_id sg) = Some (i - 1) \<and> peers sg' = peers sg \<and>
    length (signing_participants sg') = length (peers sg) \<and>
    list_all (\<lambda>q. \<exists>k u. index_of sg q = Some k \<and> index_of kg q = Some (u - 1) \<and> u \<noteq> 0 \<and>
      participant_identifier_for_session_index (k + 1) (signing_participants sg') = Inr u) (peers sg)"
  using assms by (rule generated_share_accepted)

text \<open>A share of the sample peerset, and two of its three members signing.\<close>

definition sample_share :: key_share where
  "sample_share = \<lparr>ks_curve = Ed25519, ks_identifier = 3, ks_signing_key = [1], ks_public_key = [2],
     ks_group_public_key = [3], ks_public_key_package = [4], ks_min_signers = 2, ks_max_signers = 3,
     ks_participants = map (\<lambda>(p, u). \<lparr>kp_peer_id = pid_to_base58 byte_peer_ops p, kp_identifier = u\<rparr>)
       [(10, 1), (20, 2), (30, 3)]\<rparr>"

definition sample_signers :: "byte peerset" where
  "sample_signers = \<lparr>local_peer_id = 30, peers = [10, 30], parties = [0, 1]\<rparr>"

lemma sample_share_participants:
  "key_share_participants byte_peer_ops sample_peerset = Inr (ks_participants sample_share)"
  by (simp add: key_share_participants_def key_share_participants_from_peers_def sample_peerset_eq
      sample_share_def checked_inc_def)

section \<open>Saving and reading shares\<close>

lemma saved_share_read:
  assumes "serde_laws json" and "save_key_share json base i w ks d = (d', Inr g)"
  shows "g = ks_group_public_key ks \<and>
    read_key_share json base v d' =
      (if normalize_wallet_id v = normalize_wallet_id w then Inr ks else read_key_share json base v d)"
proof -
  from assms(2) obtain b where "to_vec json ks = Some b" "d' = d(wallet_key_share_path base w \<mapsto> b)"
    "g = ks_group_public_key ks"
    by (auto simp: save_key_share_def Let_def split: if_splits option.splits)
  with serde_read_back [OF assms(1)] share_path_iff [of base v w] show ?thesis by (simp add: read_key_share_def)
qed

text \<open>
  A signer reads what key generation saved. After a successful save the share of the
  wallet is read back unchanged, under every spelling of the wallet name that normalises
  to the same, and the shares of all other wallets are left as they were.
\<close>

lemma key_share_survives:
  assumes "serde_laws json" and "save_key_share json base i w ks d = (d', Inr g)"
  shows "g = ks_group_public_key ks \<and>
    read_key_share json base v d' =
      (if normalize_wallet_id v = normalize_wallet_id w then Inr ks else read_key_share json base v d)"
  using assms by (rule saved_share_read)

text \<open>A failing save destroys the share it replaces. Once the file is open for writing its
  old contents are lost, so when the new share cannot be serialised or written, the wallet
  is left with a prefix of the new share instead of the old one.\<close>

lemma failed_save_destroys_share:
  assumes "d (wallet_key_share_path base w) = Some old"
    and "save_key_share json base i w ks d = (d', Inl err)"
    and "err = SerializeShare \<or> err = WriteShare"
  shows "\<exists>k. d' (wallet_key_share_path base w) = Some (take k (case to_vec json ks of Some b \<Rightarrow> b | None \<Rightarrow> []))"
  using assms by (auto simp: save_key_share_def Let_def split: if_splits option.splits)

end
