(* ===== verification/Parties.thy ===== *)
theory Parties
  imports Agent_Io
begin

text \<open>
  The parties of a FROST protocol, numbered from one, and their identifiers. A receive loop
  that waits for one entry of each of a set of parties ends with the map that the parties
  determine, whatever the order of arrival.
\<close>

section \<open>Identifiers\<close>

text \<open>What the code relies on: zero is the only invalid identifier, and different numbers
  are different identifiers.\<close>

definition identifier_laws :: "(u16 \<Rightarrow> 'id option) \<Rightarrow> bool" where
  "identifier_laws f \<longleftrightarrow> (\<forall>u. f u = None \<longleftrightarrow> u = 0) \<and> (\<forall>u v. f u = f v \<longrightarrow> u = v)"

text \<open>The same for the parties of a list only.\<close>

definition identifies :: "('u \<Rightarrow> 'id option) \<Rightarrow> 'u list \<Rightarrow> bool" where
  "identifies f us \<longleftrightarrow> None \<notin> f ` set us \<and> inj_on f (set us)"

lemma laws_identify: "identifier_laws f \<Longrightarrow> 0 \<notin> set us \<Longrightarrow> identifies f us"
  by (auto simp: identifier_laws_def identifies_def inj_on_def) metis

lemma identifies_subset: "identifies f ys \<Longrightarrow> set xs \<subseteq> set ys \<Longrightarrow> identifies f xs"
  by (auto simp: identifies_def intro: inj_on_subset)

text \<open>\<open>1..=max_signers\<close>.\<close>

definition u16_range :: "u16 \<Rightarrow> u16 list" where
  "u16_range n = map of_nat [1..<Suc (unat n)]"

section \<open>Maps over the parties\<close>

text \<open>The map from the identifiers of a list of parties.\<close>

definition id_map ::
    "(u16 \<Rightarrow> 'id :: linorder option) \<Rightarrow> (u16 \<Rightarrow> 'v) \<Rightarrow> u16 list \<Rightarrow> ('id, 'v) btree" where
  "id_map ident f us =
     foldl (\<lambda>m u. case ident u of Some i \<Rightarrow> bt_insert i (f u) m | None \<Rightarrow> m) [] us"

lemma id_map_snoc:
  "id_map ident f (us @ [u]) =
   (case ident u of Some i \<Rightarrow> bt_insert i (f u) (id_map ident f us) | None \<Rightarrow> id_map ident f us)"
  unfolding id_map_def by simp

lemma id_map_wf [simp]: "bt_wf (id_map ident f us)"
proof (induction us rule: rev_induct)
  case Nil
  then show ?case by (simp add: id_map_def)
next
  case (snoc u us)
  then show ?case by (simp add: id_map_snoc split: option.splits)
qed

lemma id_map_get_inj:
  assumes "inj_on ident {u \<in> set us. ident u \<noteq> None}"
  shows "bt_get k (id_map ident f us) = Some v \<longleftrightarrow> (\<exists>u \<in> set us. ident u = Some k \<and> v = f u)"
  using assms
proof (induction us rule: rev_induct)
  case Nil
  then show ?case by (simp add: id_map_def bt_get_def)
next
  case (snoc u us)
  have "u' = u" if "ident u = Some k" "ident u' = Some k" "u' \<in> set us" for u'
    using that inj_onD [OF snoc.prems, of u' u] by simp
  moreover have "inj_on ident {u \<in> set us. ident u \<noteq> None}" using snoc.prems by (auto simp: inj_on_def)
  ultimately show ?case using snoc.IH by (auto simp: id_map_snoc split: option.splits)
qed

lemma id_map_get:
  assumes "identifier_laws ident"
  shows "bt_get k (id_map ident f us) = Some v \<longleftrightarrow> (\<exists>u \<in> set us. ident u = Some k \<and> v = f u)"
  using assms by (intro id_map_get_inj) (simp add: identifier_laws_def inj_on_def)

lemma id_map_None:
  assumes "identifier_laws ident"
  shows "bt_get k (id_map ident f us) = None \<longleftrightarrow> (\<forall>u \<in> set us. ident u \<noteq> Some k)"
  using id_map_get [OF assms, of k f us] by (cases "bt_get k (id_map ident f us)") auto

lemma id_map_get_on:
  assumes "identifies ident us"
  shows "bt_get k (id_map ident f us) = Some v \<longleftrightarrow> (\<exists>u \<in> set us. ident u = Some k \<and> v = f u)"
  using assms by (intro id_map_get_inj) (auto simp: identifies_def inj_on_def)

lemma id_map_append_get:
  "bt_get k (id_map ident f (xs @ ys)) =
   (case bt_get k (id_map ident f ys) of None \<Rightarrow> bt_get k (id_map ident f xs) | Some v \<Rightarrow> Some v)"
proof (induction ys rule: rev_induct)
  case Nil
  then show ?case by (simp add: id_map_def bt_get_def)
next
  case (snoc y ys)
  then show ?case by (simp add: id_map_snoc flip: append_assoc split: option.splits)
qed

lemma id_map_cong:
  assumes "\<And>u. u \<in> set us \<Longrightarrow> ident u = ident' u" and "\<And>u. u \<in> set us \<Longrightarrow> f u = f' u"
  shows "id_map ident f us = id_map ident' f' us"
  unfolding id_map_def by (intro foldl_cong refl) (simp add: assms split: option.split)

lemma id_map_map: "id_map ident f (map g us) = id_map (ident \<circ> g) (f \<circ> g) us"
  by (simp add: id_map_def foldl_map comp_def)

lemma u16_less: "unat (u :: u16) < 2 ^ 16"
proof -
  have "unat u < 2 ^ LENGTH(16)" by (rule unsigned_less)
  then show ?thesis by simp
qed

lemma pred_u16: "n \<noteq> 0 \<Longrightarrow> unat (n - 1 :: u16) = unat n - 1"
  by (rule unat_minus_one)

lemma set_u16_range: "set (u16_range n) = {u. u \<noteq> 0 \<and> u \<le> n}"
proof -
  have "u \<in> set (u16_range n)" if "u \<noteq> 0" "u \<le> n" for u
  proof -
    have "unat u \<noteq> 0" "unat u \<le> unat n"
      using that by (simp_all add: unsigned_eq_0_iff word_le_nat_alt)
    then have "unat u \<in> set [1..<Suc (unat n)]" unfolding set_upt by simp
    then have "of_nat (unat u) \<in> set (u16_range n)" unfolding u16_range_def set_map by (rule imageI)
    then show ?thesis by simp
  qed
  moreover have "(of_nat k :: u16) \<noteq> 0 \<and> of_nat k \<le> n" if "1 \<le> k" "k \<le> unat n" for k
  proof -
    have "k < 2 ^ 16" using that(2) u16_less [of n] by simp
    then have "unat (of_nat k :: u16) = k" by (simp add: unsigned_of_nat take_bit_nat_eq_self)
    with that show ?thesis by (metis not_one_le_zero unsigned_0 word_le_nat_alt)
  qed
  ultimately show ?thesis by (auto simp: u16_range_def)
qed

lemma length_u16_range: "length (u16_range n) = unat n"
  by (simp add: u16_range_def)

lemma distinct_u16_range: "distinct (u16_range n)"
proof -
  have "inj_on (of_nat :: nat \<Rightarrow> u16) (set [1..<Suc (unat n)])"
  proof (rule inj_onI)
    fix x y assume a: "x \<in> set [1..<Suc (unat n)]" "y \<in> set [1..<Suc (unat n)]" "(of_nat x :: u16) = of_nat y"
    then have "x < 2 ^ 16" "y < 2 ^ 16" using u16_less [of n] by auto
    with a(3) show "x = y" by (simp add: word_of_nat_eq_iff take_bit_nat_eq_self)
  qed
  then show ?thesis by (simp add: u16_range_def distinct_map)
qed

text \<open>The other parties of a key with \<open>n\<close> shares.\<close>

definition other_parties :: "u16 \<Rightarrow> u16 \<Rightarrow> u16 list" where
  "other_parties n me = filter (\<lambda>u. u \<noteq> me) (u16_range n)"

lemma set_other_parties: "set (other_parties n me) = {u. u \<noteq> 0 \<and> u \<le> n \<and> u \<noteq> me}"
  by (auto simp: other_parties_def set_u16_range)

lemma length_other_parties:
  assumes "me \<noteq> 0" and "me \<le> n"
  shows "length (other_parties n me) = unat n - 1"
  unfolding other_parties_def
  using length_filter_neq [OF distinct_u16_range, of me n] assms
  by (simp add: set_u16_range length_u16_range)

lemma distinct_other_parties: "distinct (other_parties n me)"
  by (simp add: other_parties_def distinct_u16_range)

lemma id_map_perm:
  assumes "identifies ident us" and "set us = set vs"
  shows "id_map ident f us = id_map ident f vs"
proof -
  have "identifies ident vs" using assms by (simp add: identifies_def)
  with assms show ?thesis by (intro bt_ext_Some) (simp_all add: id_map_get_on)
qed

lemma length_id_map:
  assumes "identifies ident us" and "distinct us"
  shows "length (id_map ident f us) = length us"
  using assms
proof (induction us rule: rev_induct)
  case Nil
  then show ?case by (simp add: id_map_def)
next
  case (snoc u us)
  have us: "identifies ident us" using snoc.prems(1) by (auto simp: identifies_def inj_on_def)
  obtain i where i: "ident u = Some i" using snoc.prems(1) by (cases "ident u") (auto simp: identifies_def)
  have "ident v \<noteq> Some i" if "v \<in> set us" for v
    using that snoc.prems i by (auto simp: identifies_def inj_on_def)
  then have "bt_get i (id_map ident f us) = None"
    using id_map_get_on [OF us, of i f] by (metis not_None_eq)
  with snoc us i show ?case by (simp add: id_map_snoc length_bt_insert_new)
qed

lemma id_map_other:
  assumes "identifies ident (xs @ ys)" and "distinct (xs @ ys)" and "u \<in> set ys"
  shows "bt_get (the (ident u)) (id_map ident f xs) = None"
proof -
  have xs: "identifies ident xs" using assms(1) by (rule identifies_subset) simp
  have "ident w \<noteq> Some (the (ident u))" if "w \<in> set xs" for w
  proof
    assume eq: "ident w = Some (the (ident u))"
    have "ident u \<noteq> None" using assms(1,3) unfolding identifies_def by (metis UnCI imageI set_append)
    with eq have "ident w = ident u" by simp
    moreover have "w \<in> set (xs @ ys)" "u \<in> set (xs @ ys)" using that assms(3) by simp_all
    ultimately have "w = u" using assms(1) unfolding identifies_def by (blast dest: inj_onD)
    with that assms(2,3) show False by auto
  qed
  then show ?thesis using id_map_get_on [OF xs, of "the (ident u)" f] by (metis not_None_eq)
qed

text \<open>The entries of a map over parties are the parties in the order of their identifiers.\<close>

lemma bt_insert_split:
  assumes "bt_get k m = None"
  shows "\<exists>xs ys. m = xs @ ys \<and> bt_insert k v m = xs @ (k, v) # ys"
  using assms
proof (induction m)
  case (Cons e m)
  obtain k' v' where e: "e = (k', v')" by fastforce
  show ?case
  proof (cases "k < k'")
    case True
    with e show ?thesis by (intro exI [of _ "[]"] exI [of _ "e # m"]) simp
  next
    case False
    with Cons e obtain xs ys where "m = xs @ ys" "bt_insert k v m = xs @ (k, v) # ys"
      by (auto simp: bt_get_def split: if_splits)
    with False e Cons.prems show ?thesis
      by (intro exI [of _ "e # xs"] exI [of _ ys]) (auto simp: bt_get_def)
  qed
qed simp

lemma id_map_entries:
  assumes "identifies ident us" and "distinct us"
  shows "\<exists>vs. mset vs = mset us \<and> id_map ident f us = map (\<lambda>v. (the (ident v), f v)) vs"
  using assms
proof (induction us rule: rev_induct)
  case Nil
  then show ?case by (simp add: id_map_def)
next
  case (snoc u us)
  have "identifies ident us" using snoc.prems(1) by (rule identifies_subset) auto
  with snoc obtain vs where vs: "mset vs = mset us" "id_map ident f us = map (\<lambda>v. (the (ident v), f v)) vs"
    by auto
  obtain i where i: "ident u = Some i" using snoc.prems(1) by (cases "ident u") (auto simp: identifies_def)
  have "bt_get i (id_map ident f us) = None" using id_map_other [OF snoc.prems, of u f] i by simp
  from bt_insert_split [OF this, of "f u"] vs(2) i obtain xs ys where
    "map (\<lambda>v. (the (ident v), f v)) vs = xs @ ys" "id_map ident f (us @ [u]) = xs @ (i, f u) # ys"
    by (auto simp: id_map_snoc)
  moreover from this(1) obtain as bs where "vs = as @ bs" "xs = map (\<lambda>v. (the (ident v), f v)) as"
    "ys = map (\<lambda>v. (the (ident v), f v)) bs" by (auto simp: map_eq_append_conv)
  ultimately show ?case using vs(1) i by (intro exI [of _ "as @ u # bs"]) auto
qed

text \<open>The same map read off a list of messages of different senders.\<close>

lemma map_of_parties:
  assumes "identifies ident us" and "distinct us"
  shows "map_of (map (\<lambda>u. (the (ident u), f u)) us) k = bt_get k (id_map ident f us)"
    and "distinct (map (\<lambda>u. the (ident u)) us)"
proof -
  have e: "ident u = Some (the (ident u))" if "u \<in> set us" for u
    using that assms(1) by (cases "ident u") (force simp: identifies_def)+
  have inj: "inj_on (\<lambda>u. the (ident u)) (set us)"
    using e assms(1) unfolding identifies_def inj_on_def by metis
  then show d: "distinct (map (\<lambda>u. the (ident u)) us)" using assms(2) by (simp add: distinct_map)
  have "map_of (map (\<lambda>u. (the (ident u), f u)) us) k = Some v \<longleftrightarrow> bt_get k (id_map ident f us) = Some v" for v
  proof -
    have "map_of (map (\<lambda>u. (the (ident u), f u)) us) k = Some v \<longleftrightarrow> (\<exists>u \<in> set us. k = the (ident u) \<and> v = f u)"
      using d by (subst map_of_eq_Some_iff) (auto simp: comp_def)
    also have "\<dots> \<longleftrightarrow> (\<exists>u \<in> set us. ident u = Some k \<and> v = f u)"
      using e by (metis option.sel)
    finally show ?thesis by (simp add: id_map_get_on [OF assms(1)])
  qed
  then show "map_of (map (\<lambda>u. (the (ident u), f u)) us) k = bt_get k (id_map ident f us)"
    by (metis not_None_eq)
qed

lemma delivered_parties:
  assumes "mset us = mset (other_parties n me)"
  shows "distinct us" and "0 \<notin> set us" and "set us = set (other_parties n me)"
    and "me \<notin> set us" and "length us = length (other_parties n me)"
  using mset_eq_setD [OF assms] mset_eq_imp_distinct_iff [OF assms] mset_eq_length [OF assms]
  by (auto simp: set_other_parties distinct_other_parties)

lemma fewer_parties:
  assumes "distinct xs" and "distinct ys" and "set xs \<subseteq> set ys" and "mset xs \<noteq> mset ys"
  shows "length xs < length ys"
proof -
  have "set xs \<subset> set ys" using assms set_eq_iff_mset_eq_distinct [OF assms(1,2)] by blast
  then have "card (set xs) < card (set ys)" by (intro psubset_card_mono) simp_all
  then show ?thesis using assms(1,2) by (simp add: distinct_card)
qed

section \<open>One entry of every party\<close>

definition from_entry :: "(u16 \<Rightarrow> 'id option) \<Rightarrow> 'v option \<Rightarrow> protocol_request \<Rightarrow> ('id \<times> 'v) option" where
  "from_entry ident body m =
     (case (ident (pr_from m), body) of (Some k, Some v) \<Rightarrow> Some (k, v) | _ \<Rightarrow> None)"

lemma from_entry_Some:
  "from_entry ident body m = Some (k, v) \<longleftrightarrow> ident (pr_from m) = Some k \<and> body = Some v"
  by (auto simp: from_entry_def split: option.splits)

context collector
begin

lemma handle_parties:
  assumes entry: "list_all (\<lambda>m. ok m \<and> entry m =
      (if P m then Some (the (ident (pr_from m)), f (pr_from m)) else None)) ms"
    and us: "identifies ident (map pr_from (filter P ms))" "distinct (map pr_from (filter P ms))"
    and s: "inv s" "bt_wf (view s)"
      "\<forall>u \<in> set (map pr_from (filter P ms)). bt_get (the (ident u)) (view s) = None"
  shows "fresh s ms" and "\<And>xs. set xs \<subseteq> set ms \<Longrightarrow> length (entries xs) = length (filter P xs)"
    and "map_of (entries ms) k = bt_get k (id_map ident f (map pr_from (filter P ms)))"
proof -
  let ?from = "map pr_from (filter P ms)"
  have en: "entries xs = map (\<lambda>m. (the (ident (pr_from m)), f (pr_from m))) (filter P xs)"
    if "set xs \<subseteq> set ms" for xs
    using that entry by (intro entries_eq) (auto simp: list_all_iff)
  then show "length (entries xs) = length (filter P xs)" if "set xs \<subseteq> set ms" for xs using that by simp
  have en': "entries ms = map (\<lambda>u. (the (ident u), f u)) ?from" by (simp add: en)
  have "distinct (map fst (entries ms))"
    unfolding en' using map_of_parties(2) [OF us] by (simp only: map_map comp_def fst_conv)
  moreover have "fst ` set (entries ms) = (\<lambda>u. the (ident u)) ` set ?from"
    unfolding en' set_map image_image by simp
  ultimately show "fresh s ms"
    unfolding fresh_def using s(1,3) entry by (auto simp: list_all_iff simp del: entries_simps)
  show "map_of (entries ms) k = bt_get k (id_map ident f ?from)"
    unfolding en' by (rule map_of_parties(1) [OF us])
qed

lemma collect_parties:
  assumes entry: "list_all (\<lambda>m. ok m \<and> entry m =
      (if P m then Some (the (ident (pr_from m)), f (pr_from m)) else None)) (ds @ ms)"
    and us: "identifies ident us" "distinct us" "mset (map pr_from (filter P (ds @ ms))) = mset us"
    and s: "inv s" "bt_wf (view s)" "\<forall>u \<in> set us. bt_get (the (ident u)) (view s) = None"
    and n: "\<And>t. inv t \<Longrightarrow> fin t \<longleftrightarrow> n \<le> length (view t)" "n = length (view s) + length us"
  shows "\<exists>as bs t. ds @ ms = as @ bs \<and> filter P bs = [] \<and> handle_all h s as = Inr t \<and> inv t \<and> bt_wf (view t) \<and>
    (\<forall>k. bt_get k (view t) =
      (case bt_get k (id_map ident f us) of None \<Rightarrow> bt_get k (view s) | Some v \<Rightarrow> Some v)) \<and>
    length (view t) = n \<and>
    collect fin err h io ds ms s = Inr (t, io\<lparr>io_incoming := drop (length as - length ds) ms\<rparr>)"
proof -
  let ?from = "map pr_from (filter P (ds @ ms))"
  have st: "set ?from = set us" using mset_eq_setD [OF us(3)] .
  have fr: "distinct ?from" "length ?from = length us" "identifies ident ?from"
    using us(1,2) mset_eq_imp_distinct_iff [OF us(3)] mset_eq_length [OF us(3)] st unfolding identifies_def by auto
  have "\<forall>u \<in> set ?from. bt_get (the (ident u)) (view s) = None" unfolding st by (rule s(3))
  note hp = handle_parties [OF entry fr(3,1) s(1,2) this]
  have "n = length (view s) + length (entries (ds @ ms))"
    using n(2) fr(2) hp(2) [of "ds @ ms"] by simp
  from collect_fresh [where err = err and io = io, OF hp(1) s(2) n(1) this]
  obtain as bs t where t: "ds @ ms = as @ bs" "entries bs = []" "handle_all h s as = Inr t" "inv t"
    "bt_wf (view t)" "length (view t) = n"
    "\<forall>k. bt_get k (view t) = (case map_of (entries (ds @ ms)) k of None \<Rightarrow> bt_get k (view s) | Some v \<Rightarrow> Some v)"
    "collect fin err h io ds ms s = Inr (t, io\<lparr>io_incoming := drop (length as - length ds) ms\<rparr>)" by blast
  have "set bs \<subseteq> set (ds @ ms)" unfolding t(1) by simp
  with t(2) hp(2) [of bs] have "filter P bs = []" by simp
  moreover have "map_of (entries (ds @ ms)) k = bt_get k (id_map ident f us)" for k
    unfolding hp(3) by (simp only: id_map_perm [OF fr(3) st])
  ultimately show ?thesis using t by auto
qed

lemma collect_parties_nil:
  assumes "list_all (\<lambda>m. ok m \<and> entry m =
      (if P m then Some (the (ident (pr_from m)), f (pr_from m)) else None)) ms"
    and "identifies ident us" and "distinct us" and "mset (map pr_from (filter P ms)) = mset us"
    and "inv s" and "bt_wf (view s)" and "\<forall>u \<in> set us. bt_get (the (ident u)) (view s) = None"
    and "\<forall>t. inv t \<longrightarrow> fin t = (n \<le> length (view t))" and "n = length (view s) + length us"
  shows "\<exists>as bs t. ms = as @ bs \<and> filter P bs = [] \<and> handle_all h s as = Inr t \<and> inv t \<and> bt_wf (view t) \<and>
    (\<forall>k. bt_get k (view t) =
      (case bt_get k (id_map ident f us) of None \<Rightarrow> bt_get k (view s) | Some v \<Rightarrow> Some v)) \<and>
    collect fin err h (io\<lparr>io_incoming := x\<rparr>) [] ms s = Inr (t, io\<lparr>io_incoming := bs\<rparr>)"
proof -
  have "fin t \<longleftrightarrow> n \<le> length (view t)" if "inv t" for t using that assms(8) by blast
  from collect_parties [where ds = "[]" and err = err and io = "io\<lparr>io_incoming := x\<rparr>" and fin = fin,
      OF _ assms(2,3) _ assms(5-7) this assms(9)] assms(1,4) show ?thesis by fastforce
qed

lemma handle_parties_map:
  assumes "list_all (\<lambda>m. ok m \<and> entry m =
      (if P m then Some (the (ident (pr_from m)), f (pr_from m)) else None)) ms"
    and "identifies ident (map pr_from (filter P ms))" and "distinct (map pr_from (filter P ms))"
    and "inv s" and "view s = []" and "handle_all h s ms = Inr t"
  shows "view t = id_map ident f (map pr_from (filter P ms))"
proof -
  have e: "bt_wf (view s)" "\<forall>u \<in> set (map pr_from (filter P ms)). bt_get (the (ident u)) (view s) = None"
    using assms(5) by (simp_all add: bt_get_def)
  note hp = handle_parties [OF assms(1-4) e]
  from handle_fresh [OF hp(1)] assms(6) e(1) have "bt_wf (view t)"
    "\<And>k. bt_get k (view t) = (case map_of (entries ms) k of None \<Rightarrow> bt_get k (view s) | Some v \<Rightarrow> Some v)" by auto
  then show ?thesis
    by (intro bt_ext) (simp_all add: hp(3) assms(5) bt_get_def split: option.split)
qed

text \<open>With fewer senders than it waits for, the loop is left waiting.\<close>

lemma collect_too_few:
  assumes entry: "list_all (\<lambda>m. ok m \<and> entry m =
      (if P m then Some (the (ident (pr_from m)), f (pr_from m)) else None)) (ds @ ms)"
    and us: "identifies ident (map pr_from (filter P (ds @ ms)))" "distinct (map pr_from (filter P (ds @ ms)))"
    and s: "inv s" "bt_wf (view s)"
      "\<forall>u \<in> set (map pr_from (filter P (ds @ ms))). bt_get (the (ident u)) (view s) = None"
    and n: "\<And>t. inv t \<Longrightarrow> fin t \<longleftrightarrow> n \<le> length (view t)"
      "length (view s) + length (filter P (ds @ ms)) < n"
  shows "collect fin err h io ds ms s =
    Inl (if io_closed io then Failed err else Waiting (io\<lparr>io_incoming := []\<rparr>))"
proof -
  note hp = handle_parties [OF entry us s]
  obtain t where t: "handle_all h s (ds @ ms) = Inr t" using handle_fresh [OF hp(1)] by blast
  show ?thesis
  proof (rule collect_waits [OF t])
    fix as bs u assume a: "ds @ ms = as @ bs" "handle_all h s as = Inr u"
    have "fresh s as" using hp(1) by (auto simp: a(1) fresh_def)
    from handle_fresh [OF this] a(2) have u: "inv u" "length (view u) = length (view s) + length (entries as)"
      by auto
    have "length (entries as) \<le> length (entries (ds @ ms))" unfolding a(1) by simp
    also have "\<dots> = length (filter P (ds @ ms))" by (rule hp(2)) simp
    finally show "\<not> fin u" using n(1) [OF u(1)] n(2) u(2) by simp
  qed
qed

lemma collect_too_few_nil:
  assumes "list_all (\<lambda>m. ok m \<and> entry m =
      (if P m then Some (the (ident (pr_from m)), f (pr_from m)) else None)) ms"
    and "identifies ident (map pr_from (filter P ms))" and "distinct (map pr_from (filter P ms))"
    and "inv s" and "bt_wf (view s)"
    and "\<forall>u \<in> set (map pr_from (filter P ms)). bt_get (the (ident u)) (view s) = None"
    and "\<forall>t. inv t \<longrightarrow> fin t = (n \<le> length (view t))"
    and "length (view s) + length (map pr_from (filter P ms)) < n" and "\<not> io_closed io"
  shows "collect fin err h (io\<lparr>io_incoming := x\<rparr>) [] ms s = Inl (Waiting (io\<lparr>io_incoming := []\<rparr>))"
proof -
  have "fin t \<longleftrightarrow> n \<le> length (view t)" if "inv t" for t using that assms(7) by blast
  from collect_too_few [where ds = "[]" and err = err and io = "io\<lparr>io_incoming := x\<rparr>" and fin = fin,
      OF _ _ _ assms(4,5) _ this] assms(1-3,6,8,9) show ?thesis by simp
qed

end

section \<open>Sample inputs\<close>

definition plain_serde :: "bytes serde" where
  "plain_serde = \<lparr>to_vec = Some, from_slice = Some\<rparr>"

definition sample_request :: "u16 \<Rightarrow> u16 option \<Rightarrow> bytes \<Rightarrow> protocol_request" where
  "sample_request from to payload = \<lparr>pr_from = from, pr_to = to, pr_payload = payload\<rparr>"

definition sample_io :: "protocol_request list \<Rightarrow> agent_io" where
  "sample_io ms = \<lparr>io_incoming = ms, io_closed = False, io_outgoing = [], io_send_ok = (\<lambda>_. True),
     io_feedback = (\<lambda>k. k), io_feedback_done = (\<lambda>_. True)\<rparr>"

end
