(* ===== verification/Keygen.thy ===== *)
theory Keygen
  imports Key_Share Parties
begin

text \<open>
  \<open>tss/src/keygen.rs\<close>: the agent that runs FROST's distributed key generation. The
  cryptography of \<open>frost-core\<close> is a record of operations over opaque types, its calls to
  the random generator included; \<open>BTreeMap\<close> and \<open>BTreeSet\<close> are those of \<open>Btree\<close>. The agent
  is a function of the messages its channel delivers, in the order of their arrival.
\<close>

section \<open>The FROST library\<close>

record ('id, 's1, 'p1, 's2, 'p2, 'kp, 'pkp) dkg_suite =
  dk_identifier :: "u16 \<Rightarrow> 'id option"
  dk_part1 :: "'id \<Rightarrow> u16 \<Rightarrow> u16 \<Rightarrow> ('s1 \<times> 'p1) option"
  dk_ser1 :: "'p1 \<Rightarrow> bytes option"
  dk_de1 :: "bytes \<Rightarrow> 'p1 option"
  dk_part2 :: "'s1 \<Rightarrow> ('id, 'p1) btree \<Rightarrow> ('s2 \<times> ('id, 'p2) btree) option"
  dk_ser2 :: "'p2 \<Rightarrow> bytes option"
  dk_de2 :: "bytes \<Rightarrow> 'p2 option"
  dk_part3 :: "'s2 \<Rightarrow> ('id, 'p1) btree \<Rightarrow> ('id, 'p2) btree \<Rightarrow> ('kp \<times> 'pkp) option"
  dk_signing_share :: "'kp \<Rightarrow> bytes"
  dk_verifying_share :: "'kp \<Rightarrow> bytes option"
  dk_verifying_key :: "'pkp \<Rightarrow> bytes option"
  dk_public_package :: "'pkp \<Rightarrow> bytes option"

datatype keygen_error =
    LocalPeerMissing
  | KgPayload payload_error
  | InvalidIdentifier
  | ThresholdTooSmall u16 u16
  | ThresholdTooLarge u16 u16
  | Part1Error
  | SerializeRound1
  | EncodeRound1
  | SendRound1
  | ReceiveError
  | DecodeRound1 nat
  | DeserializeRound1 nat
  | InvalidSender
  | Round1Total u16 nat
  | Round1Others u16 nat
  | Part2Error
  | UnknownRecipient
  | SerializeRound2
  | EncodeRound2
  | SendRound2
  | DecodeRound2
  | DeserializeRound2
  | Part3Error
  | SerializeVerifyingShare
  | SerializeGroupKey
  | SerializePublicPackage
  | KgShare share_error
  | EncodePublicKey

record key_gen =
  kgen_path :: string
  kgen_curve :: curve

definition key_gen_new :: "string \<Rightarrow> curve \<Rightarrow> key_gen" where
  "key_gen_new p c = \<lparr>kgen_path = p, kgen_curve = c\<rparr>"

section \<open>Round 1\<close>

definition check_threshold :: "u16 \<Rightarrow> u16 \<Rightarrow> keygen_error halt + unit" where
  "check_threshold threshold max_signers =
     (if threshold < 2 then Inl (Failed (ThresholdTooSmall threshold max_signers))
      else if max_signers < threshold then Inl (Failed (ThresholdTooLarge threshold max_signers))
      else Inr ())"

text \<open>From the start to the broadcast of the round 1 package.\<close>

definition dkg_start ::
    "('id, 's1, 'p1, 's2, 'p2, 'kp, 'pkp) dkg_suite \<Rightarrow> bytes serde \<Rightarrow> u16 \<Rightarrow> u16 \<Rightarrow> u16 \<Rightarrow> agent_io \<Rightarrow>
     keygen_error halt + ('id \<times> 's1 \<times> 'p1) \<times> agent_io" where
  "dkg_start S cbor identifier threshold max_signers io =
     bindR (or_fail InvalidIdentifier (dk_identifier S identifier)) (\<lambda>identifier_id.
     bindR (check_threshold threshold max_signers) (\<lambda>_.
     bindR (or_fail Part1Error (dk_part1 S identifier_id max_signers threshold)) (\<lambda>(secret, package).
     bindR (or_fail SerializeRound1 (dk_ser1 S package)) (\<lambda>payload.
     bindR (or_fail EncodeRound1 (to_vec cbor payload)) (\<lambda>payload_cbor.
     bindR (send SendRound1 payload_cbor None io) (\<lambda>io'.
       Inr ((identifier_id, secret, package), io')))))))"

definition expected_ids ::
    "('id :: linorder, 's1, 'p1, 's2, 'p2, 'kp, 'pkp) dkg_suite \<Rightarrow> u16 \<Rightarrow> ('id, unit) btree" where
  "expected_ids S max_signers =
     foldl (\<lambda>ids u. case dk_identifier S u of Some i \<Rightarrow> bt_insert i () ids | None \<Rightarrow> ids) []
       (u16_range max_signers)"

record ('id, 'p1) dkg_round1 =
  r1_all :: "('id, 'p1) btree"
  r1_others :: "('id, 'p1) btree"
  r1_deferred :: "protocol_request list"

text \<open>The body of the first receive loop: direct messages are kept for round 2; of two packages
  of one sender the later one counts.\<close>

definition dkg_round1_msg ::
    "('id :: linorder, 's1, 'p1, 's2, 'p2, 'kp, 'pkp) dkg_suite \<Rightarrow> bytes serde \<Rightarrow> ('id, unit) btree \<Rightarrow> 'id \<Rightarrow>
     ('id, 'p1) dkg_round1 \<Rightarrow> protocol_request \<Rightarrow> keygen_error halt + ('id, 'p1) dkg_round1" where
  "dkg_round1_msg S cbor expected identifier_id s req =
     (if pr_to req \<noteq> None then Inr (s\<lparr>r1_deferred := r1_deferred s @ [req]\<rparr>)
      else
        bindR (or_fail (DecodeRound1 (length (pr_payload req))) (from_slice cbor (pr_payload req))) (\<lambda>payload.
        bindR (or_fail (DeserializeRound1 (length payload)) (dk_de1 S payload)) (\<lambda>pkg.
        bindR (or_fail InvalidSender (dk_identifier S (pr_from req))) (\<lambda>sender.
          Inr (if bt_get sender expected \<noteq> None then
                 s\<lparr>r1_all := bt_insert sender pkg (r1_all s),
                   r1_others := (if sender \<noteq> identifier_id then bt_insert sender pkg (r1_others s)
                                 else r1_others s)\<rparr>
               else s)))))"

definition dkg_round1_loop ::
    "('id :: linorder, 's1, 'p1, 's2, 'p2, 'kp, 'pkp) dkg_suite \<Rightarrow> bytes serde \<Rightarrow> u16 \<Rightarrow> 'id \<Rightarrow> 'p1 \<Rightarrow>
     agent_io \<Rightarrow> keygen_error halt + ('id, 'p1) dkg_round1 \<times> agent_io" where
  "dkg_round1_loop S cbor max_signers identifier_id package io =
     collect (\<lambda>s. unat max_signers \<le> length (r1_all s)) ReceiveError
       (dkg_round1_msg S cbor (expected_ids S max_signers) identifier_id) io [] (io_incoming io)
       \<lparr>r1_all = bt_insert identifier_id package [], r1_others = [], r1_deferred = []\<rparr>"

definition dkg_check_round1 ::
    "u16 \<Rightarrow> ('id, 'p1) dkg_round1 \<Rightarrow> keygen_error halt + unit" where
  "dkg_check_round1 max_signers s =
     (if length (r1_all s) \<noteq> unat max_signers
        then Inl (Failed (Round1Total max_signers (length (r1_all s))))
      else if length (r1_others s) \<noteq> unat (max_signers - 1)
        then Inl (Failed (Round1Others (max_signers - 1) (length (r1_others s))))
      else Inr ())"

section \<open>Round 2\<close>

definition id_to_u16 ::
    "('id :: linorder, 's1, 'p1, 's2, 'p2, 'kp, 'pkp) dkg_suite \<Rightarrow> u16 \<Rightarrow> ('id, u16) btree" where
  "id_to_u16 S max_signers =
     foldl (\<lambda>ids u. case dk_identifier S u of Some i \<Rightarrow> bt_insert i u ids | None \<Rightarrow> ids) []
       (u16_range max_signers)"

fun dkg_send_round2 ::
    "('id :: linorder, 's1, 'p1, 's2, 'p2, 'kp, 'pkp) dkg_suite \<Rightarrow> bytes serde \<Rightarrow> ('id, u16) btree \<Rightarrow>
     ('id, 'p2) btree \<Rightarrow> agent_io \<Rightarrow> keygen_error halt + agent_io" where
  "dkg_send_round2 S cbor ids [] io = Inr io"
| "dkg_send_round2 S cbor ids ((recipient_id, package) # rest) io =
     bindR (or_fail UnknownRecipient (bt_get recipient_id ids)) (\<lambda>recipient_u16.
     bindR (or_fail SerializeRound2 (dk_ser2 S package)) (\<lambda>payload.
     bindR (or_fail EncodeRound2 (to_vec cbor payload)) (\<lambda>payload_cbor.
     bindR (send SendRound2 payload_cbor (Some recipient_u16) io) (\<lambda>io'.
       dkg_send_round2 S cbor ids rest io'))))"

record ('id, 'p2) dkg_round2 =
  r2_packages :: "('id, 'p2) btree"
  r2_received :: "('id, unit) btree"

definition dkg_round2_msg ::
    "('id :: linorder, 's1, 'p1, 's2, 'p2, 'kp, 'pkp) dkg_suite \<Rightarrow> bytes serde \<Rightarrow> u16 \<Rightarrow>
     ('id, 'p2) dkg_round2 \<Rightarrow> protocol_request \<Rightarrow> keygen_error halt + ('id, 'p2) dkg_round2" where
  "dkg_round2_msg S cbor identifier s req =
     (if pr_to req \<noteq> Some identifier then Inr s
      else
        bindR (or_fail InvalidSender (dk_identifier S (pr_from req))) (\<lambda>sender.
          if bt_get sender (r2_received s) \<noteq> None then Inr s
          else
            bindR (or_fail DecodeRound2 (from_slice cbor (pr_payload req))) (\<lambda>payload.
            bindR (or_fail DeserializeRound2 (dk_de2 S payload)) (\<lambda>pkg.
              Inr \<lparr>r2_packages = bt_insert sender pkg (r2_packages s),
                   r2_received = bt_insert sender () (r2_received s)\<rparr>))))"

definition dkg_round2_loop ::
    "('id :: linorder, 's1, 'p1, 's2, 'p2, 'kp, 'pkp) dkg_suite \<Rightarrow> bytes serde \<Rightarrow> u16 \<Rightarrow> u16 \<Rightarrow>
     protocol_request list \<Rightarrow> agent_io \<Rightarrow> keygen_error halt + ('id, 'p2) dkg_round2 \<times> agent_io" where
  "dkg_round2_loop S cbor identifier max_signers deferred io =
     collect (\<lambda>s. unat (max_signers - 1) \<le> length (r2_packages s)) ReceiveError
       (dkg_round2_msg S cbor identifier) io deferred (io_incoming io)
       \<lparr>r2_packages = [], r2_received = []\<rparr>"

text \<open>The threshold check leaves at least two signers, so \<open>max_signers - 1\<close> does not wrap.\<close>

definition run_dkg ::
    "('id :: linorder, 's1, 'p1, 's2, 'p2, 'kp, 'pkp) dkg_suite \<Rightarrow> bytes serde \<Rightarrow> u16 \<Rightarrow> u16 \<Rightarrow> u16 \<Rightarrow>
     agent_io \<Rightarrow> (keygen_error, 'kp \<times> 'pkp) agent_res" where
  "run_dkg S cbor identifier threshold max_signers io =
     bindR (dkg_start S cbor identifier threshold max_signers io) (\<lambda>((identifier_id, secret, package), io1).
     bindR (dkg_round1_loop S cbor max_signers identifier_id package io1) (\<lambda>(r1, io2).
     bindR (dkg_check_round1 max_signers r1) (\<lambda>_.
     bindR (or_fail Part2Error (dk_part2 S secret (r1_others r1))) (\<lambda>(secret2, packages2).
     bindR (dkg_send_round2 S cbor (id_to_u16 S max_signers) packages2 io2) (\<lambda>io3.
     bindR (dkg_round2_loop S cbor identifier max_signers (r1_deferred r1) io3) (\<lambda>(r2, io4).
     bindR (or_fail Part3Error (dk_part3 S secret2 (r1_others r1) (r2_packages r2))) (\<lambda>keys.
       Inr (keys, io4))))))))"

section \<open>The agent\<close>

text \<open>The two arms of the match on the curve run the same code on the two ciphersuites.\<close>

definition dkg_bytes ::
    "('id :: linorder, 's1, 'p1, 's2, 'p2, 'kp, 'pkp) dkg_suite \<Rightarrow> bytes serde \<Rightarrow> u16 \<Rightarrow> u16 \<Rightarrow> u16 \<Rightarrow>
     agent_io \<Rightarrow> (keygen_error, bytes \<times> bytes \<times> bytes \<times> bytes) agent_res" where
  "dkg_bytes S cbor i t n io =
     bindR (run_dkg S cbor i t n io) (\<lambda>((key_package, public_key_package), io').
     bindR (or_fail SerializeVerifyingShare (dk_verifying_share S key_package)) (\<lambda>verifying_share.
     bindR (or_fail SerializeGroupKey (dk_verifying_key S public_key_package)) (\<lambda>group_key.
     bindR (or_fail SerializePublicPackage (dk_public_package S public_key_package)) (\<lambda>pub_pkg.
       Inr ((dk_signing_share S key_package, verifying_share, group_key, pub_pkg), io')))))"

record ('id, 's1, 'p1, 's2, 'p2, 'kp, 'pkp, 'p) keygen_env =
  ge_suite :: "curve \<Rightarrow> ('id, 's1, 'p1, 's2, 'p2, 'kp, 'pkp) dkg_suite"
  ge_bytes :: "bytes serde"
  ge_payload :: "keygen_request_payload serde"
  ge_share :: "key_share serde"
  ge_public_key :: "public_key serde"
  ge_peers :: "'p peer_id_ops"

definition keygen_protocol_id :: u64 where
  "keygen_protocol_id = 0"

definition keygen_share ::
    "curve \<Rightarrow> u16 \<Rightarrow> u16 \<Rightarrow> u16 \<Rightarrow> bytes \<times> bytes \<times> bytes \<times> bytes \<Rightarrow> key_share_participant list \<Rightarrow> key_share" where
  "keygen_share curve i t n keys participants =
     (case keys of (signing, verifying, group_key, pkg) \<Rightarrow>
       \<lparr>ks_curve = curve, ks_identifier = i, ks_signing_key = signing, ks_public_key = verifying,
        ks_group_public_key = group_key, ks_public_key_package = pkg, ks_min_signers = t, ks_max_signers = n,
        ks_participants = participants\<rparr>)"

definition keygen_compute ::
    "('id :: linorder, 's1, 'p1, 's2, 'p2, 'kp, 'pkp, 'p) keygen_env \<Rightarrow> key_gen \<Rightarrow> save_input \<Rightarrow> 'p peerset \<Rightarrow>
     bytes \<Rightarrow> agent_io \<Rightarrow> share_disk \<Rightarrow> share_disk \<times> (keygen_error, bytes) agent_res" where
  "keygen_compute E g i ps payload io d =
     (let n = of_nat (peerset_size ps) in
      case
        bindR (or_fail LocalPeerMissing (index_of ps (local_peer_id ps))) (\<lambda>index.
        bindR (map_errR (lift_share KgShare) (checked_inc index)) (\<lambda>me.
        bindR (map_errR (Failed \<circ> KgPayload) (decode_keygen_payload (ge_payload E) payload)) (\<lambda>request.
        bindR (dkg_bytes (ge_suite E (kgen_curve g)) (ge_bytes E) me (kg_threshold request) n io) (\<lambda>(keys, io').
        bindR (map_errR (lift_share KgShare) (key_share_participants (ge_peers E) ps)) (\<lambda>participants.
          Inr (request, keygen_share (kgen_curve g) me (kg_threshold request) n keys participants, io'))))))
      of Inl e \<Rightarrow> (d, Inl e)
       | Inr (request, ks, io') \<Rightarrow>
           (case save_key_share (ge_share E) (kgen_path g) i (kg_wallet_id request) ks d of
              (d', Inl e) \<Rightarrow> (d', Inl (Failed (KgShare e)))
            | (d', Inr group_pk) \<Rightarrow>
                (d', bindR (or_fail EncodePublicKey
                       (to_vec (ge_public_key E) \<lparr>pk_curve = kgen_curve g, pk_bytes = group_pk\<rparr>)) (\<lambda>pk_bytes.
                     Inr (pk_bytes, io')))))"

section \<open>The receive loops as collectors\<close>

lemma expected_ids_eq: "expected_ids S n = id_map (dk_identifier S) (\<lambda>_. ()) (u16_range n)"
  by (simp add: expected_ids_def id_map_def)

lemma id_to_u16_eq: "id_to_u16 S n = id_map (dk_identifier S) (\<lambda>u. u) (u16_range n)"
  by (simp add: id_to_u16_def id_map_def)

definition round1_body ::
    "('id, 's1, 'p1, 's2, 'p2, 'kp, 'pkp) dkg_suite \<Rightarrow> bytes serde \<Rightarrow> protocol_request \<Rightarrow> 'p1 option" where
  "round1_body S cbor m = Option.bind (from_slice cbor (pr_payload m)) (dk_de1 S)"

definition round2_body ::
    "('id, 's1, 'p1, 's2, 'p2, 'kp, 'pkp) dkg_suite \<Rightarrow> bytes serde \<Rightarrow> protocol_request \<Rightarrow> 'p2 option" where
  "round2_body S cbor m = Option.bind (from_slice cbor (pr_payload m)) (dk_de2 S)"

text \<open>Round 1: the packages of the others are all packages but the own one.\<close>

definition round1_inv :: "'id \<Rightarrow> ('id :: linorder, 'p1) dkg_round1 \<Rightarrow> bool" where
  "round1_inv me s \<longleftrightarrow> bt_wf (r1_all s) \<and> bt_wf (r1_others s) \<and>
     (\<forall>k. bt_get k (r1_others s) = (if k = me then None else bt_get k (r1_all s)))"

definition round1_ok where
  "round1_ok S cbor expected m \<longleftrightarrow> pr_to m \<noteq> None \<or>
     round1_body S cbor m \<noteq> None \<and> (\<exists>k. dk_identifier S (pr_from m) = Some k \<and> bt_get k expected \<noteq> None)"

definition round1_entry where
  "round1_entry S cbor m =
     (if pr_to m \<noteq> None then None else from_entry (dk_identifier S) (round1_body S cbor m) m)"

lemma round1_other:
  assumes "round1_inv me s" and "round1_ok S cbor expected m" and "round1_entry S cbor m = None"
  shows "\<exists>s'. dkg_round1_msg S cbor expected me s m = Inr s' \<and> round1_inv me s' \<and> r1_all s' = r1_all s"
  using assms
  by (auto simp: round1_entry_def round1_ok_def from_entry_def dkg_round1_msg_def round1_inv_def
      split: if_splits option.splits)

lemma round1_new:
  assumes "round1_inv me s" and "round1_ok S cbor expected m" and "round1_entry S cbor m = Some (k, v)"
  shows "\<exists>s'. dkg_round1_msg S cbor expected me s m = Inr s' \<and> round1_inv me s' \<and>
    r1_all s' = bt_insert k v (r1_all s)"
proof -
  let ?s = "s\<lparr>r1_all := bt_insert k v (r1_all s),
    r1_others := (if k \<noteq> me then bt_insert k v (r1_others s) else r1_others s)\<rparr>"
  from assms(3) have e: "pr_to m = None" "dk_identifier S (pr_from m) = Some k" "round1_body S cbor m = Some v"
    by (auto simp: round1_entry_def from_entry_Some split: if_splits)
  then obtain b where b: "from_slice cbor (pr_payload m) = Some b" "dk_de1 S b = Some v"
    by (auto simp: round1_body_def bind_eq_Some_conv)
  have "bt_get k expected \<noteq> None" using assms(2) e by (simp add: round1_ok_def)
  with e b have "dkg_round1_msg S cbor expected me s m = Inr ?s"
    by (simp add: dkg_round1_msg_def del: bindR_eq_Inr)
  moreover have "round1_inv me ?s" using assms(1) by (auto simp: round1_inv_def)
  ultimately show ?thesis by auto
qed

interpretation r1: collector "dkg_round1_msg S cbor expected me" r1_all "round1_inv me"
    "round1_ok S cbor expected" "round1_entry S cbor"
  by unfold_locales (auto intro: round1_other round1_new)

text \<open>Round 2: the senders received are those of the packages.\<close>

definition round2_inv :: "('id :: linorder, 'p2) dkg_round2 \<Rightarrow> bool" where
  "round2_inv s \<longleftrightarrow> (\<forall>k. bt_get k (r2_received s) = None \<longleftrightarrow> bt_get k (r2_packages s) = None)"

definition round2_ok where
  "round2_ok S cbor me m \<longleftrightarrow> pr_to m = Some me \<longrightarrow>
     round2_body S cbor m \<noteq> None \<and> dk_identifier S (pr_from m) \<noteq> None"

definition round2_entry where
  "round2_entry S cbor me m =
     (if pr_to m = Some me then from_entry (dk_identifier S) (round2_body S cbor m) m else None)"

lemma round2_other:
  assumes "round2_inv s" and "round2_ok S cbor me m" and "round2_entry S cbor me m = None"
  shows "\<exists>s'. dkg_round2_msg S cbor me s m = Inr s' \<and> round2_inv s' \<and> r2_packages s' = r2_packages s"
  using assms
  by (auto simp: round2_entry_def round2_ok_def from_entry_def dkg_round2_msg_def
      split: if_splits option.splits)

lemma round2_new:
  assumes "round2_inv s" and "round2_ok S cbor me m" and "round2_entry S cbor me m = Some (k, v)"
    and "bt_get k (r2_packages s) = None"
  shows "\<exists>s'. dkg_round2_msg S cbor me s m = Inr s' \<and> round2_inv s' \<and>
    r2_packages s' = bt_insert k v (r2_packages s)"
proof -
  let ?s = "\<lparr>r2_packages = bt_insert k v (r2_packages s), r2_received = bt_insert k () (r2_received s)\<rparr>"
  from assms(3) have e: "pr_to m = Some me" "dk_identifier S (pr_from m) = Some k" "round2_body S cbor m = Some v"
    by (auto simp: round2_entry_def from_entry_Some split: if_splits)
  then obtain b where b: "from_slice cbor (pr_payload m) = Some b" "dk_de2 S b = Some v"
    by (auto simp: round2_body_def bind_eq_Some_conv)
  have "bt_get k (r2_received s) = None" using assms(1,4) by (simp add: round2_inv_def)
  with e b have "dkg_round2_msg S cbor me s m = Inr ?s"
    by (simp add: dkg_round2_msg_def del: bindR_eq_Inr)
  moreover have "round2_inv ?s" using assms(1) by (simp add: round2_inv_def)
  ultimately show ?thesis by auto
qed

interpretation r2: collector "dkg_round2_msg S cbor me" r2_packages round2_inv
    "round2_ok S cbor me" "round2_entry S cbor me"
  by unfold_locales (auto intro: round2_other round2_new)

section \<open>Key generation in lock step\<close>

text \<open>
  The reference: every party hands its round 1 package \<open>pk u\<close> to all and its round 2 package
  \<open>q u\<close> to the local party, and the rounds follow each other.
\<close>

definition dkg_synchronous ::
    "('id :: linorder, 's1, 'p1, 's2, 'p2, 'kp, 'pkp) dkg_suite \<Rightarrow> bytes serde \<Rightarrow> u16 \<Rightarrow> u16 \<Rightarrow> u16 \<Rightarrow>
     (u16 \<Rightarrow> 'p1) \<Rightarrow> (u16 \<Rightarrow> 'p2) \<Rightarrow> agent_io \<Rightarrow> (keygen_error, 'kp \<times> 'pkp) agent_res" where
  "dkg_synchronous S cbor me t n pk q io =
     (let round1 = id_map (dk_identifier S) pk (other_parties n me);
          round2 = id_map (dk_identifier S) q (other_parties n me) in
      bindR (dkg_start S cbor me t n io) (\<lambda>((_, secret, _), io1).
      bindR (or_fail Part2Error (dk_part2 S secret round1)) (\<lambda>(secret2, packages2).
      bindR (dkg_send_round2 S cbor (id_to_u16 S n) packages2 io1) (\<lambda>io2.
      bindR (or_fail Part3Error (dk_part3 S secret2 round1 round2)) (\<lambda>keys.
        Inr (keys, io2\<lparr>io_incoming := []\<rparr>))))))"

text \<open>A complete delivery: each of the other parties has broadcast one round 1 package and
  sent one round 2 package, and the network has interleaved them in some order.\<close>

definition dkg_delivery ::
    "('id, 's1, 'p1, 's2, 'p2, 'kp, 'pkp) dkg_suite \<Rightarrow> bytes serde \<Rightarrow> u16 \<Rightarrow> u16 \<Rightarrow>
     (u16 \<Rightarrow> 'p1) \<Rightarrow> (u16 \<Rightarrow> 'p2) \<Rightarrow> protocol_request list \<Rightarrow> bool" where
  "dkg_delivery S cbor me n pk q ms \<longleftrightarrow>
     mset (map pr_from (filter (\<lambda>m. pr_to m = None) ms)) = mset (other_parties n me) \<and>
     mset (map pr_from (filter (\<lambda>m. pr_to m \<noteq> None) ms)) = mset (other_parties n me) \<and>
     list_all (\<lambda>m. case pr_to m of
         None \<Rightarrow> round1_body S cbor m = Some (pk (pr_from m))
       | Some r \<Rightarrow> r = me \<and> round2_body S cbor m = Some (q (pr_from m))) ms"

lemma round1_deferred_step:
  "dkg_round1_msg S cbor expected me s m = Inr s' \<Longrightarrow>
   r1_deferred s' = r1_deferred s @ filter (\<lambda>m. pr_to m \<noteq> None) [m]"
  by (auto simp: dkg_round1_msg_def split: if_splits)

lemma round1_deferred:
  "handle_all (dkg_round1_msg S cbor expected me) s us = Inr r \<Longrightarrow>
   r1_deferred r = r1_deferred s @ filter (\<lambda>m. pr_to m \<noteq> None) us"
proof (induction us arbitrary: s)
  case Nil
  then show ?case by simp
next
  case (Cons m us)
  then obtain s' where s': "dkg_round1_msg S cbor expected me s m = Inr s'"
    "handle_all (dkg_round1_msg S cbor expected me) s' us = Inr r" by auto
  from round1_deferred_step [OF s'(1)] Cons.IH [OF s'(2)] show ?case by simp
qed

section \<open>Order of arrival\<close>

lemma sender_identifier:
  assumes "identifier_laws (dk_identifier S)" and "u \<in> set (other_parties n me)"
  shows "dk_identifier S u = Some (the (dk_identifier S u))"
    and "bt_get (the (dk_identifier S u)) (expected_ids S n) = Some ()"
    and "dk_identifier S me = Some i \<Longrightarrow> the (dk_identifier S u) \<noteq> i"
proof -
  have u: "u \<noteq> 0" "u \<in> set (u16_range n)" "u \<noteq> me" using assms(2) by (auto simp: other_parties_def set_u16_range)
  then show k: "dk_identifier S u = Some (the (dk_identifier S u))"
    using assms(1) by (cases "dk_identifier S u") (auto simp: identifier_laws_def)
  show "bt_get (the (dk_identifier S u)) (expected_ids S n) = Some ()"
    using u(2) k by (auto simp: expected_ids_eq id_map_get [OF assms(1)])
  show "the (dk_identifier S u) \<noteq> i" if "dk_identifier S me = Some i"
    using that k u(3) assms(1) unfolding identifier_laws_def by metis
qed

text \<open>The messages of a delivery that need not be complete.\<close>

definition dkg_messages ::
    "('id, 's1, 'p1, 's2, 'p2, 'kp, 'pkp) dkg_suite \<Rightarrow> bytes serde \<Rightarrow> u16 \<Rightarrow> u16 \<Rightarrow>
     (u16 \<Rightarrow> 'p1) \<Rightarrow> (u16 \<Rightarrow> 'p2) \<Rightarrow> protocol_request list \<Rightarrow> bool" where
  "dkg_messages S cbor me n pk q ms \<longleftrightarrow>
     list_all (\<lambda>m. pr_from m \<in> set (other_parties n me) \<and> (case pr_to m of
         None \<Rightarrow> round1_body S cbor m = Some (pk (pr_from m))
       | Some r \<Rightarrow> r = me \<and> round2_body S cbor m = Some (q (pr_from m)))) ms"

lemma dkg_delivery_messages:
  assumes "dkg_delivery S cbor me n pk q ms"
  shows "dkg_messages S cbor me n pk q ms"
proof -
  have "pr_from m \<in> set (other_parties n me)" if "m \<in> set ms" for m
    using that assms delivered_parties(3) [of "map pr_from (filter (\<lambda>m. pr_to m = None) ms)" n me]
      delivered_parties(3) [of "map pr_from (filter (\<lambda>m. pr_to m \<noteq> None) ms)" n me]
    by (cases "pr_to m = None") (force simp: dkg_delivery_def)+
  with assms show ?thesis by (simp add: dkg_messages_def dkg_delivery_def list_all_iff)
qed

text \<open>What such messages mean for the two loops.\<close>

lemma delivery_messages:
  assumes laws: "identifier_laws (dk_identifier S)" and d: "dkg_messages S cbor me n pk q ms"
  shows "list_all (\<lambda>m. round1_ok S cbor (expected_ids S n) m \<and> round1_entry S cbor m =
      (if pr_to m = None then Some (the (dk_identifier S (pr_from m)), pk (pr_from m)) else None)) ms"
    and "list_all (\<lambda>m. round2_ok S cbor me m \<and> round2_entry S cbor me m =
      (if pr_to m \<noteq> None then Some (the (dk_identifier S (pr_from m)), q (pr_from m)) else None)) ms"
proof -
  have sender: "pr_from m \<in> set (other_parties n me)" if "m \<in> set ms" for m
    using that d by (simp add: dkg_messages_def list_all_iff)
  have body: "case pr_to m of None \<Rightarrow> round1_body S cbor m = Some (pk (pr_from m))
      | Some r \<Rightarrow> r = me \<and> round2_body S cbor m = Some (q (pr_from m))" if "m \<in> set ms" for m
    using that d by (simp add: dkg_messages_def list_all_iff)
  show "list_all (\<lambda>m. round1_ok S cbor (expected_ids S n) m \<and> round1_entry S cbor m =
      (if pr_to m = None then Some (the (dk_identifier S (pr_from m)), pk (pr_from m)) else None)) ms"
    unfolding list_all_iff
  proof
    fix m assume m: "m \<in> set ms"
    from body [OF m] sender_identifier(1,2) [OF laws sender [OF m]]
    show "round1_ok S cbor (expected_ids S n) m \<and> round1_entry S cbor m =
      (if pr_to m = None then Some (the (dk_identifier S (pr_from m)), pk (pr_from m)) else None)"
      by (cases "dk_identifier S (pr_from m)") (auto simp: round1_ok_def round1_entry_def from_entry_def split: option.splits)
  qed
  show "list_all (\<lambda>m. round2_ok S cbor me m \<and> round2_entry S cbor me m =
      (if pr_to m \<noteq> None then Some (the (dk_identifier S (pr_from m)), q (pr_from m)) else None)) ms"
    unfolding list_all_iff
  proof
    fix m assume m: "m \<in> set ms"
    from body [OF m] sender_identifier(1) [OF laws sender [OF m]]
    show "round2_ok S cbor me m \<and> round2_entry S cbor me m =
      (if pr_to m \<noteq> None then Some (the (dk_identifier S (pr_from m)), q (pr_from m)) else None)"
      by (cases "dk_identifier S (pr_from m)") (auto simp: round2_ok_def round2_entry_def from_entry_def split: option.splits)
  qed
qed

text \<open>Round 1: the loop takes the messages up to the last broadcast and keeps the direct ones
  among them.\<close>

lemma round1_delivery:
  assumes laws: "identifier_laws (dk_identifier S)" and me: "me \<noteq> 0" "me \<le> n" "dk_identifier S me = Some i"
    and d: "dkg_messages S cbor me n pk q ms"
    and b: "mset (map pr_from (filter (\<lambda>m. pr_to m = None) ms)) = mset (other_parties n me)"
  shows "\<exists>us vs r. ms = us @ vs \<and> filter (\<lambda>m. pr_to m = None) vs = [] \<and>
    dkg_round1_loop S cbor n i p (io\<lparr>io_incoming := ms\<rparr>) = Inr (r, io\<lparr>io_incoming := vs\<rparr>) \<and>
    r1_others r = id_map (dk_identifier S) pk (other_parties n me) \<and>
    length (r1_all r) = unat n \<and> r1_deferred r = filter (\<lambda>m. pr_to m \<noteq> None) us"
proof -
  let ?others = "other_parties n me"
  let ?s = "\<lparr>r1_all = bt_insert i p [], r1_others = [], r1_deferred = []\<rparr>"
  have mm: "mset (map pr_from (filter (\<lambda>m. pr_to m = None) ([] @ ms))) = mset ?others"
    using b by simp
  have s: "round1_inv i ?s" "bt_wf (r1_all ?s)"
    "\<forall>u \<in> set ?others. bt_get (the (dk_identifier S u)) (r1_all ?s) = None"
    using sender_identifier(3) [OF laws _ me(3)] by (auto simp: round1_inv_def bt_get_def)
  have "unat n \<noteq> 0" using me(1,2) by (metis unsigned_eq_0_iff word_le_nat_alt le_zero_eq)
  then have n: "unat n = length (r1_all ?s) + length ?others"
    using length_other_parties [OF me(1,2)] by simp
  have z: "0 \<notin> set ?others" by (simp add: set_other_parties)
  have e: "list_all (\<lambda>m. round1_ok S cbor (expected_ids S n) m \<and> round1_entry S cbor m =
      (if pr_to m = None then Some (the (dk_identifier S (pr_from m)), pk (pr_from m)) else None)) ([] @ ms)"
    using delivery_messages(1) [OF laws d] by simp
  from r1.collect_parties [where fin = "\<lambda>s. unat n \<le> length (r1_all s)" and err = ReceiveError
      and io = "io\<lparr>io_incoming := ms\<rparr>", OF e laws_identify [OF laws z] distinct_other_parties mm s refl n]
  obtain us vs u where u: "ms = us @ vs" "filter (\<lambda>m. pr_to m = None) vs = []" "round1_inv i u"
    "handle_all (dkg_round1_msg S cbor (expected_ids S n) i) ?s us = Inr u" "length (r1_all u) = unat n"
    "\<And>k. bt_get k (r1_all u) =
      (case bt_get k (id_map (dk_identifier S) pk ?others) of None \<Rightarrow> bt_get k (r1_all ?s) | Some v \<Rightarrow> Some v)"
    "collect (\<lambda>s. unat n \<le> length (r1_all s)) ReceiveError (dkg_round1_msg S cbor (expected_ids S n) i)
      (io\<lparr>io_incoming := ms\<rparr>) [] ms ?s = Inr (u, io\<lparr>io_incoming := drop (length us) ms\<rparr>)" by auto
  have i: "bt_get i (id_map (dk_identifier S) pk ?others) = None"
    using sender_identifier(3) [OF laws _ me(3), of _ n] id_map_get [OF laws, of i pk ?others]
    by (metis not_None_eq option.sel)
  have "bt_get k (r1_others u) = bt_get k (id_map (dk_identifier S) pk ?others)" for k
    using u(3,6) i by (cases "k = i") (simp_all add: round1_inv_def bt_get_def split: option.splits)
  then have "r1_others u = id_map (dk_identifier S) pk ?others"
    using u(3) by (intro bt_ext) (simp_all add: round1_inv_def)
  moreover have "r1_deferred u = filter (\<lambda>m. pr_to m \<noteq> None) us" using round1_deferred [OF u(4)] by simp
  ultimately show ?thesis using u by (intro exI [of _ us] exI [of _ vs] exI [of _ u]) (simp add: dkg_round1_loop_def)
qed

lemma round2_delivery:
  fixes S :: "('id :: linorder, 's1, 'p1, 's2, 'p2, 'kp, 'pkp) dkg_suite"
  assumes laws: "identifier_laws (dk_identifier S)" and me: "me \<noteq> 0" "me \<le> n"
    and d: "dkg_messages S cbor me n pk q (us @ vs)"
    and b: "mset (map pr_from (filter (\<lambda>m. pr_to m \<noteq> None) (us @ vs))) = mset (other_parties n me)"
    and vs: "filter (\<lambda>m. pr_to m = None) vs = []"
  shows "\<exists>r. dkg_round2_loop S cbor me n (filter (\<lambda>m. pr_to m \<noteq> None) us) (io\<lparr>io_incoming := vs\<rparr>) =
      Inr (r, io\<lparr>io_incoming := []\<rparr>) \<and>
    r2_packages r = id_map (dk_identifier S) q (other_parties n me)"
proof -
  let ?others = "other_parties n me" and ?ds = "filter (\<lambda>m. pr_to m \<noteq> None) us"
  let ?s = "\<lparr>r2_packages = [], r2_received = []\<rparr> :: ('id, 'p2) dkg_round2"
  have all: "filter (\<lambda>m. pr_to m \<noteq> None) (?ds @ vs) = ?ds @ vs"
    using vs by (auto simp: filter_empty_conv filter_id_conv)
  have mm: "mset (map pr_from (filter (\<lambda>m. pr_to m \<noteq> None) (?ds @ vs))) = mset ?others"
    using b by simp
  have e: "list_all (\<lambda>m. round2_ok S cbor me m \<and> round2_entry S cbor me m =
      (if pr_to m \<noteq> None then Some (the (dk_identifier S (pr_from m)), q (pr_from m)) else None)) (?ds @ vs)"
    using delivery_messages(2) [OF laws d] by (auto simp: list_all_iff)
  have s: "round2_inv ?s" "bt_wf (r2_packages ?s)"
    "\<forall>u \<in> set ?others. bt_get (the (dk_identifier S u)) (r2_packages ?s) = None"
    by (simp_all add: round2_inv_def bt_get_def)
  have "n \<noteq> 0" using me by auto
  then have n: "unat (n - 1) = length (r2_packages ?s) + length ?others"
    using length_other_parties [OF me] by (simp add: pred_u16)
  have z: "0 \<notin> set ?others" by (simp add: set_other_parties)
  from r2.collect_parties [where fin = "\<lambda>s. unat (n - 1) \<le> length (r2_packages s)" and err = ReceiveError
      and io = "io\<lparr>io_incoming := vs\<rparr>", OF e laws_identify [OF laws z] distinct_other_parties mm s refl n]
  obtain as bs r where r: "?ds @ vs = as @ bs" "filter (\<lambda>m. pr_to m \<noteq> None) bs = []" "bt_wf (r2_packages r)"
    "\<And>k. bt_get k (r2_packages r) =
      (case bt_get k (id_map (dk_identifier S) q ?others) of None \<Rightarrow> bt_get k (r2_packages ?s) | Some v \<Rightarrow> Some v)"
    "collect (\<lambda>s. unat (n - 1) \<le> length (r2_packages s)) ReceiveError (dkg_round2_msg S cbor me)
      (io\<lparr>io_incoming := vs\<rparr>) ?ds vs ?s = Inr (r, io\<lparr>io_incoming := drop (length as - length ?ds) vs\<rparr>)" by auto
  have "filter (\<lambda>m. pr_to m \<noteq> None) (as @ bs) = as @ bs" using all unfolding r(1) .
  with r(2) have "length (filter (\<lambda>m. pr_to m \<noteq> None) as) = length (as @ bs)" by (metis append_Nil2 filter_append)
  then have "bs = []" using length_filter_le [of "\<lambda>m. pr_to m \<noteq> None" as] by simp
  then have "length as = length (?ds @ vs)" using r(1) by simp
  then have "drop (length as - length ?ds) vs = []" by simp
  moreover have "r2_packages r = id_map (dk_identifier S) q ?others"
    using r(3,4) by (intro bt_ext) (simp_all add: bt_get_def split: option.splits)
  ultimately show ?thesis using r(5) by (simp add: dkg_round2_loop_def)
qed

text \<open>Sending does not look at the incoming channel.\<close>

lemma send_incoming:
  "send e b to (io\<lparr>io_incoming := x\<rparr>) = bindR (send e b to io) (\<lambda>io'. Inr (io'\<lparr>io_incoming := x\<rparr>))"
  by (simp add: send_def Let_def)

lemma send_round2_incoming:
  "dkg_send_round2 S cbor ids ps (io\<lparr>io_incoming := x\<rparr>) =
   bindR (dkg_send_round2 S cbor ids ps io) (\<lambda>io'. Inr (io'\<lparr>io_incoming := x\<rparr>))"
proof (induction S cbor ids ps io rule: dkg_send_round2.induct)
  case (1 S cbor ids io)
  then show ?case by simp
next
  case (2 S cbor ids k p rest io)
  show ?case
  proof (cases "bt_get k ids")
    case None
    then show ?thesis by simp
  next
    case u: (Some u)
    show ?thesis
    proof (cases "dk_ser2 S p")
      case None
      with u show ?thesis by simp
    next
      case b: (Some b)
      show ?thesis
      proof (cases "to_vec cbor b")
        case None
        with u b show ?thesis by simp
      next
        case (Some c)
        with u b 2 show ?thesis by (cases "send SendRound2 c (Some u) io") (simp_all add: send_incoming)
      qed
    qed
  qed
qed

lemma dkg_start_incoming:
  assumes "dkg_start S cbor me t n io = Inr ((i, secret, p), io1)"
  shows "io_incoming io1 = io_incoming io \<and> dk_identifier S me = Some i \<and> 2 \<le> t \<and> t \<le> n"
  using assms by (auto simp: dkg_start_def check_threshold_def send_def Let_def split: if_splits)

lemma round1_checked:
  assumes "identifier_laws (dk_identifier S)" and "me \<noteq> 0" and "me \<le> n"
    and "r1_others r = id_map (dk_identifier S) pk (other_parties n me)" and "length (r1_all r) = unat n"
  shows "dkg_check_round1 n r = Inr ()"
proof -
  have "n \<noteq> 0" using assms(2,3) by auto
  then have "length (r1_others r) = unat (n - 1)"
    unfolding assms(4) using length_other_parties [OF assms(2,3)]
    by (simp add: length_id_map [OF laws_identify [OF assms(1)] distinct_other_parties] pred_u16 set_other_parties)
  then show ?thesis using assms(5) by (simp add: dkg_check_round1_def)
qed

text \<open>With a complete delivery the agent runs in lock step.\<close>

lemma run_dkg_synchronous:
  assumes "identifier_laws (dk_identifier S)" and "me \<noteq> 0" and "me \<le> n"
    and "dkg_delivery S cbor me n pk q (io_incoming io)"
  shows "run_dkg S cbor me t n io = dkg_synchronous S cbor me t n pk q io"
proof (cases "dkg_start S cbor me t n io")
  case (Inl e)
  then show ?thesis by (simp add: run_dkg_def dkg_synchronous_def)
next
  case (Inr r)
  then obtain i secret p io1 where st: "dkg_start S cbor me t n io = Inr ((i, secret, p), io1)" by (cases r) auto
  note i = dkg_start_incoming [OF st]
  have d: "dkg_messages S cbor me n pk q (io_incoming io1)"
    "mset (map pr_from (filter (\<lambda>m. pr_to m = None) (io_incoming io1))) = mset (other_parties n me)"
    "mset (map pr_from (filter (\<lambda>m. pr_to m \<noteq> None) (io_incoming io1))) = mset (other_parties n me)"
    using assms(4) i dkg_delivery_messages [OF assms(4)] by (simp_all add: dkg_delivery_def)
  have "io1\<lparr>io_incoming := io_incoming io1\<rparr> = io1" by simp
  with round1_delivery [OF assms(1-3) _ d(1,2), of i p io1] i obtain us vs r1 where r1:
    "io_incoming io1 = us @ vs" "filter (\<lambda>m. pr_to m = None) vs = []"
    "dkg_round1_loop S cbor n i p io1 = Inr (r1, io1\<lparr>io_incoming := vs\<rparr>)"
    "r1_others r1 = id_map (dk_identifier S) pk (other_parties n me)" "length (r1_all r1) = unat n"
    "r1_deferred r1 = filter (\<lambda>m. pr_to m \<noteq> None) us" by metis
  have chk: "dkg_check_round1 n r1 = Inr ()" by (rule round1_checked [OF assms(1-3) r1(4,5)])
  have r2: "\<exists>r2. dkg_round2_loop S cbor me n (r1_deferred r1) (x\<lparr>io_incoming := vs\<rparr>) =
      Inr (r2, x\<lparr>io_incoming := []\<rparr>) \<and> r2_packages r2 = id_map (dk_identifier S) q (other_parties n me)" for x
    unfolding r1(6) using round2_delivery [OF assms(1-3) d(1,3) [unfolded r1(1)] r1(2)] by blast
  show ?thesis
  proof (cases "dk_part2 S secret (id_map (dk_identifier S) pk (other_parties n me))")
    case None
    then show ?thesis by (simp add: run_dkg_def dkg_synchronous_def st r1 chk del: bindR_eq_Inr)
  next
    case (Some x)
    obtain secret2 packages where x: "x = (secret2, packages)" by (cases x)
    show ?thesis
    proof (cases "dkg_send_round2 S cbor (id_to_u16 S n) packages io1")
      case (Inl e)
      then show ?thesis
        by (simp add: run_dkg_def dkg_synchronous_def st r1 chk Some x send_round2_incoming del: bindR_eq_Inr)
    next
      case (Inr io2)
      obtain r2 where "dkg_round2_loop S cbor me n (r1_deferred r1) (io2\<lparr>io_incoming := vs\<rparr>) =
          Inr (r2, io2\<lparr>io_incoming := []\<rparr>)" "r2_packages r2 = id_map (dk_identifier S) q (other_parties n me)"
        using r2 by blast
      with Inr show ?thesis
        by (simp add: run_dkg_def dkg_synchronous_def st r1 chk Some x send_round2_incoming del: bindR_eq_Inr)
    qed
  qed
qed

text \<open>
  C7: key generation refines its lock-step description. For every interleaving of the
  messages of the other parties, round 2 messages before round 1 is over included, the
  agent behaves exactly like the synchronous protocol: the same packages reach each step
  of FROST, the same messages are sent, the result or error is the same, and no message is
  left over.
\<close>

theorem dkg_refines_lock_step:
  assumes "identifier_laws (dk_identifier S)" and "me \<noteq> 0" and "me \<le> n"
    and "dkg_delivery S cbor me n pk q (io_incoming io)"
  shows "run_dkg S cbor me t n io = dkg_synchronous S cbor me t n pk q io"
  using assms by (rule run_dkg_synchronous)

text \<open>A suite over transparent values: a package is the bytes it is sent as, and the keys are
  what the two rounds brought.\<close>

definition plain_dkg :: "(u16, u16, bytes, u16, bytes, bytes, bytes) dkg_suite" where
  "plain_dkg =
     \<lparr>dk_identifier = (\<lambda>u. if u = 0 then None else Some u),
      dk_part1 = (\<lambda>i n t. Some (i, [ucast i])), dk_ser1 = Some, dk_de1 = Some,
      dk_part2 = (\<lambda>s r. Some (s, map (\<lambda>(k, _). (k, [10 + ucast s])) r)), dk_ser2 = Some, dk_de2 = Some,
      dk_part3 = (\<lambda>s r1 r2. Some (concat (map snd r2), concat (map snd r1))),
      dk_signing_share = (\<lambda>k. k), dk_verifying_share = Some, dk_verifying_key = Some, dk_public_package = Some\<rparr>"

lemma plain_identifier_laws: "identifier_laws (dk_identifier plain_dkg)"
  by (simp add: identifier_laws_def plain_dkg_def)

text \<open>Party 1 of 3; party 2 is ahead and its round 2 package arrives first.\<close>

definition sample_deliveries :: "protocol_request list" where
  "sample_deliveries = [sample_request 2 (Some 1) [12], sample_request 3 None [3],
     sample_request 2 None [2], sample_request 3 (Some 1) [13]]"

theorem dkg_refines_lock_step_witness:
  "\<exists>io'. run_dkg plain_dkg plain_serde 1 2 3 (sample_io sample_deliveries) = Inr (([12, 13], [2, 3]), io') \<and>
     map om_to (io_outgoing io') = [None, Some 2, Some 3]"
proof -
  let ?pk = "\<lambda>u. [ucast u] :: bytes" and ?q = "\<lambda>u. [10 + ucast u] :: bytes"
  have "dkg_delivery plain_dkg plain_serde 1 3 ?pk ?q (io_incoming (sample_io sample_deliveries))"
    by (simp add: dkg_delivery_def sample_io_def sample_deliveries_def sample_request_def other_parties_def
        u16_range_def upt_rec round1_body_def round2_body_def plain_serde_def plain_dkg_def)
  from dkg_refines_lock_step [OF plain_identifier_laws _ _ this, of 2] show ?thesis
    by (simp add: dkg_synchronous_def dkg_start_def check_threshold_def plain_dkg_def plain_serde_def sample_io_def
        send_def other_parties_def u16_range_def upt_rec id_map_def id_to_u16_def bt_get_def
        del: bindR_eq_Inr)
qed

section \<open>What a finished key generation has done\<close>

lemma round1_others_step:
  assumes "dkg_round1_msg S cbor expected me s m = Inr s'"
    and "fst ` set (r1_others s) \<subseteq> fst ` set expected - {me}"
  shows "fst ` set (r1_others s') \<subseteq> fst ` set expected - {me}"
proof -
  from assms(1) consider "r1_others s' = r1_others s"
    | k v where "k \<noteq> me" "bt_get k expected \<noteq> None" "r1_others s' = bt_insert k v (r1_others s)"
    by (auto simp: dkg_round1_msg_def split: if_splits)
  then show ?thesis using assms(2) by cases (simp_all add: keys_bt_insert bt_get_None_iff)
qed

lemma round1_others_run:
  assumes "handle_all (dkg_round1_msg S cbor expected me) s us = Inr r"
    and "fst ` set (r1_others s) \<subseteq> fst ` set expected - {me}"
  shows "fst ` set (r1_others r) \<subseteq> fst ` set expected - {me}"
  using assms
proof (induction us arbitrary: s)
  case (Cons m us)
  then obtain s' where s': "dkg_round1_msg S cbor expected me s m = Inr s'"
    "handle_all (dkg_round1_msg S cbor expected me) s' us = Inr r" by auto
  from Cons.IH [OF s'(2) round1_others_step [OF s'(1) Cons.prems(2)]] show ?case .
qed simp

text \<open>Whatever messages arrive, keys come out only of a valid threshold and of FROST's three
  steps on \<open>n - 1\<close> packages of expected other parties.\<close>

definition frost_keys ::
    "('id :: linorder, 's1, 'p1, 's2, 'p2, 'kp, 'pkp) dkg_suite \<Rightarrow> u16 \<Rightarrow> u16 \<Rightarrow> u16 \<Rightarrow> 'kp \<times> 'pkp \<Rightarrow> bool" where
  "frost_keys S me t n keys \<longleftrightarrow> 2 \<le> t \<and> t \<le> n \<and> (\<exists>i s1 p1 round1 s2 out round2.
    dk_identifier S me = Some i \<and> dk_part1 S i n t = Some (s1, p1) \<and>
    dk_part2 S s1 round1 = Some (s2, out) \<and> dk_part3 S s2 round1 round2 = Some keys \<and>
    length round1 = unat (n - 1) \<and> fst ` set round1 \<subseteq> fst ` set (expected_ids S n) - {i} \<and>
    unat (n - 1) \<le> length round2)"

lemma run_dkg_success:
  assumes "run_dkg S cbor me t n io = Inr (keys, io')"
  shows "frost_keys S me t n keys"
proof -
  from assms obtain i s1 p1 io1 r1 io2 s2 out io3 r2 where
    st: "dkg_start S cbor me t n io = Inr ((i, s1, p1), io1)"
    and l1: "dkg_round1_loop S cbor n i p1 io1 = Inr (r1, io2)" and c: "dkg_check_round1 n r1 = Inr ()"
    and p2: "dk_part2 S s1 (r1_others r1) = Some (s2, out)"
    and l2: "dkg_round2_loop S cbor me n (r1_deferred r1) io3 = Inr (r2, io')"
    and p3: "dk_part3 S s2 (r1_others r1) (r2_packages r2) = Some keys"
    by (auto simp: run_dkg_def)
  have p1: "dk_part1 S i n t = Some (s1, p1)" using st by (auto simp: dkg_start_def)
  from collect_Inr [OF l1 [unfolded dkg_round1_loop_def]] obtain us where
    "handle_all (dkg_round1_msg S cbor (expected_ids S n) i)
      \<lparr>r1_all = bt_insert i p1 [], r1_others = [], r1_deferred = []\<rparr> us = Inr r1" by blast
  then have "fst ` set (r1_others r1) \<subseteq> fst ` set (expected_ids S n) - {i}"
    by (rule round1_others_run) simp
  moreover have "unat (n - 1) \<le> length (r2_packages r2)"
    using collect_Inr [OF l2 [unfolded dkg_round2_loop_def]] by simp
  moreover have "length (r1_others r1) = unat (n - 1)"
    using c by (auto simp: dkg_check_round1_def split: if_splits)
  ultimately show ?thesis unfolding frost_keys_def using dkg_start_incoming [OF st] p1 p2 p3 by blast
qed

lemma keygen_compute_share:
  assumes "serde_laws (ge_share E)"
    and "keygen_compute E g i ps payload io d = (d', Inr (answer, io'))"
  shows "\<exists>request ks kp pkp.
    decode_keygen_payload (ge_payload E) payload = Inr request \<and>
    read_key_share (ge_share E) (kgen_path g) (kg_wallet_id request) d' = Inr ks \<and>
    index_of ps (local_peer_id ps) = Some (ks_identifier ks - 1) \<and> ks_identifier ks \<noteq> 0 \<and>
    ks_min_signers ks = kg_threshold request \<and> ks_max_signers ks = of_nat (peerset_size ps) \<and>
    key_share_participants (ge_peers E) ps = Inr (ks_participants ks) \<and>
    frost_keys (ge_suite E (kgen_curve g)) (ks_identifier ks) (ks_min_signers ks) (ks_max_signers ks) (kp, pkp) \<and>
    ks_curve ks = kgen_curve g \<and>
    ks_signing_key ks = dk_signing_share (ge_suite E (kgen_curve g)) kp \<and>
    dk_verifying_share (ge_suite E (kgen_curve g)) kp = Some (ks_public_key ks) \<and>
    dk_verifying_key (ge_suite E (kgen_curve g)) pkp = Some (ks_group_public_key ks) \<and>
    dk_public_package (ge_suite E (kgen_curve g)) pkp = Some (ks_public_key_package ks) \<and>
    to_vec (ge_public_key E) \<lparr>pk_curve = kgen_curve g, pk_bytes = ks_group_public_key ks\<rparr> = Some answer"
proof -
  let ?S = "ge_suite E (kgen_curve g)" and ?n = "of_nat (peerset_size ps) :: u16"
  from assms(2) obtain k request kp pkp vs gk pkg parts gpk where
    k: "index_of ps (local_peer_id ps) = Some k" "k \<noteq> - 1"
    and rq: "decode_keygen_payload (ge_payload E) payload = Inr request"
    and run: "run_dkg ?S (ge_bytes E) (k + 1) (kg_threshold request) ?n io = Inr ((kp, pkp), io')"
    and vs: "dk_verifying_share ?S kp = Some vs"
    and gk: "dk_verifying_key ?S pkp = Some gk"
    and pkg: "dk_public_package ?S pkp = Some pkg"
    and parts: "key_share_participants (ge_peers E) ps = Inr parts"
    and save: "save_key_share (ge_share E) (kgen_path g) i (kg_wallet_id request)
      (keygen_share (kgen_curve g) (k + 1) (kg_threshold request) ?n (dk_signing_share ?S kp, vs, gk, pkg) parts) d = (d', Inr gpk)"
    and ans: "to_vec (ge_public_key E) \<lparr>pk_curve = kgen_curve g, pk_bytes = gpk\<rparr> = Some answer"
    by (auto simp: keygen_compute_def dkg_bytes_def Let_def split: sum.splits prod.splits)
  let ?ks = "keygen_share (kgen_curve g) (k + 1) (kg_threshold request) ?n (dk_signing_share ?S kp, vs, gk, pkg) parts"
  have "k + 1 \<noteq> 0" using k(2) by (metis eq_neg_iff_add_eq_0)
  then show ?thesis
    using k(1) rq vs gk pkg parts ans saved_share_read [OF assms(1) save, of "kg_wallet_id request"] run_dkg_success [OF run]
    by (intro exI [of _ request] exI [of _ ?ks] exI [of _ kp] exI [of _ pkp]) (simp add: keygen_share_def)
qed

text \<open>
  C8: a finished key generation leaves a share that signing can use. When the agent returns
  a public key, whatever messages it received, the threshold was between two and the number
  of parties, FROST's three steps produced the keys from \<open>n - 1\<close> packages of expected other
  parties, and the key share on disk under the wallet of the request holds, field by field,
  the curve of the agent, the local identifier, the signing share and the verifying share of
  the key package, the group key and the bytes of the public key package, the threshold, the
  number of parties and the participants of the peerset; the answer is the encoding of the
  group key in that share.
\<close>

theorem keygen_saves_share:
  assumes "serde_laws (ge_share E)"
    and "keygen_compute E g i ps payload io d = (d', Inr (answer, io'))"
  shows "\<exists>request ks kp pkp.
    decode_keygen_payload (ge_payload E) payload = Inr request \<and>
    read_key_share (ge_share E) (kgen_path g) (kg_wallet_id request) d' = Inr ks \<and>
    index_of ps (local_peer_id ps) = Some (ks_identifier ks - 1) \<and> ks_identifier ks \<noteq> 0 \<and>
    ks_min_signers ks = kg_threshold request \<and> ks_max_signers ks = of_nat (peerset_size ps) \<and>
    key_share_participants (ge_peers E) ps = Inr (ks_participants ks) \<and>
    frost_keys (ge_suite E (kgen_curve g)) (ks_identifier ks) (ks_min_signers ks) (ks_max_signers ks) (kp, pkp) \<and>
    ks_curve ks = kgen_curve g \<and>
    ks_signing_key ks = dk_signing_share (ge_suite E (kgen_curve g)) kp \<and>
    dk_verifying_share (ge_suite E (kgen_curve g)) kp = Some (ks_public_key ks) \<and>
    dk_verifying_key (ge_suite E (kgen_curve g)) pkp = Some (ks_group_public_key ks) \<and>
    dk_public_package (ge_suite E (kgen_curve g)) pkp = Some (ks_public_key_package ks) \<and>
    to_vec (ge_public_key E) \<lparr>pk_curve = kgen_curve g, pk_bytes = ks_group_public_key ks\<rparr> = Some answer"
  using assms by (rule keygen_compute_share)

text \<open>Party 2 of the sample peerset generates a key for two of three signers.\<close>

definition generated_share :: key_share where
  "generated_share = keygen_share Ed25519 2 2 3 ([11, 13], [11, 13], [1, 3], [1, 3])
     (ks_participants sample_share)"

definition sample_keygen_env :: "(u16, u16, bytes, u16, bytes, bytes, bytes, byte) keygen_env" where
  "sample_keygen_env =
     \<lparr>ge_suite = (\<lambda>_. plain_dkg), ge_bytes = plain_serde,
      ge_payload = single_serde \<lparr>kg_wallet_id = code_points ''w1'', kg_threshold = 2\<rparr> [5],
      ge_share = single_serde generated_share [42],
      ge_public_key = single_serde \<lparr>pk_curve = Ed25519, pk_bytes = [1, 3]\<rparr> [9], ge_peers = byte_peer_ops\<rparr>"

definition sample_save :: save_input where
  "sample_save = \<lparr>sv_mkdir_ok = True, sv_create_ok = True, sv_write_fails = None\<rparr>"

definition keygen_deliveries :: "protocol_request list" where
  "keygen_deliveries = [sample_request 1 None [1], sample_request 3 None [3],
     sample_request 1 (Some 2) [11], sample_request 3 (Some 2) [13]]"

lemma sample_run_dkg:
  "\<exists>io'. run_dkg plain_dkg plain_serde 2 2 3 (sample_io keygen_deliveries) = Inr (([11, 13], [1, 3]), io')"
  by (simp add: run_dkg_def dkg_start_def check_threshold_def plain_dkg_def plain_serde_def sample_io_def
      send_def dkg_round1_loop_def dkg_round1_msg_def keygen_deliveries_def sample_request_def expected_ids_def
      u16_range_def upt_rec dkg_check_round1_def id_to_u16_def bt_get_def dkg_round2_loop_def dkg_round2_msg_def
      del: bindR_eq_Inr)

lemma sample_keygen_compute:
  "\<exists>d' io'. keygen_compute sample_keygen_env (key_gen_new ''data/key.share'' Ed25519) sample_save sample_peerset [5]
     (sample_io keygen_deliveries) Map.empty = (d', Inr ([9], io'))"
proof -
  obtain io' where r: "run_dkg plain_dkg plain_serde 2 2 3 (sample_io keygen_deliveries) = Inr (([11, 13], [1, 3]), io')"
    using sample_run_dkg by blast
  have i: "index_of sample_peerset (local_peer_id sample_peerset) = Some 1" "peerset_size sample_peerset = 3"
    by (simp_all add: index_of_def sample_peerset_eq peerset_size_def)
  have w: "normalize_wallet_id (code_points ''w1'') = code_points ''w1''"
    by (rule normalize_normal) (simp add: normal_id_def code_points_def MAX_WALLET_ID_LEN_def allowed_def
        is_ascii_alphanumeric_def)
  have "save_key_share (single_serde generated_share [42]) ''data/key.share'' sample_save (code_points ''w1'')
      generated_share Map.empty = ([wallet_key_share_path ''data/key.share'' (code_points ''w1'') \<mapsto> [42]], Inr [1, 3])"
    by (simp add: save_key_share_def single_serde_def sample_save_def share_path_eq parent_def generated_share_def
        keygen_share_def)
  moreover have "dkg_bytes plain_dkg plain_serde 2 2 3 (sample_io keygen_deliveries) =
      Inr (([11, 13], [11, 13], [1, 3], [1, 3]), io')"
    unfolding dkg_bytes_def r by (simp add: plain_dkg_def)
  ultimately show ?thesis
    using sample_share_participants
    by (simp add: keygen_compute_def i sample_keygen_env_def key_gen_new_def decode_keygen_payload_def
        single_serde_def w checked_inc_def flip: generated_share_def)
qed

theorem keygen_saves_share_witness:
  "\<exists>d' ks. read_key_share (ge_share sample_keygen_env) ''data/key.share'' (code_points ''w1'') d' = Inr ks \<and>
     ks_curve ks = Ed25519 \<and> ks_identifier ks = 2 \<and> ks_min_signers ks = 2 \<and> ks_max_signers ks = 3"
proof -
  obtain d' io' where c: "keygen_compute sample_keygen_env (key_gen_new ''data/key.share'' Ed25519) sample_save
      sample_peerset [5] (sample_io keygen_deliveries) Map.empty = (d', Inr ([9], io'))"
    using sample_keygen_compute by blast
  have "serde_laws (ge_share sample_keygen_env)" by (simp add: sample_keygen_env_def single_serde_laws)
  from keygen_saves_share [OF this c] obtain request ks where r:
    "decode_keygen_payload (ge_payload sample_keygen_env) [5] = Inr request"
    "read_key_share (ge_share sample_keygen_env) ''data/key.share'' (kg_wallet_id request) d' = Inr ks"
    "index_of sample_peerset 20 = Some (ks_identifier ks - 1)" "ks_min_signers ks = kg_threshold request"
    "ks_max_signers ks = of_nat (peerset_size sample_peerset)" "ks_curve ks = Ed25519"
    by (auto simp: key_gen_new_def sample_peerset_eq)
  have "index_of sample_peerset 20 = Some 1" by (simp add: index_of_def sample_peerset_eq)
  with r(3) have "ks_identifier ks = 2" by (simp add: eq_diff_eq)
  moreover have "kg_threshold request = 2" "normalize_wallet_id (kg_wallet_id request) = normalize_wallet_id (code_points ''w1'')"
    using r(1) by (auto simp: decode_keygen_payload_def sample_keygen_env_def single_serde_def)
  ultimately show ?thesis
    using r by (auto simp: read_key_share_def share_path_eq peerset_size_def sample_peerset_eq)
qed

end
