(* ===== verification/Keysign.thy ===== *)
theory Keysign
  imports Key_Share Parties
begin

text \<open>
  \<open>tss/src/keysign.rs\<close>: the agent that signs a message with the key share of a wallet. The
  cryptography of \<open>frost-core\<close> is a record of operations over opaque types. A commitment
  and a signature share of the same signer may arrive in either order; the agent tells them
  apart by what their bytes decode to.
\<close>

section \<open>The FROST library\<close>

record ('id, 'ss, 'vs, 'vk, 'kp, 'nonce, 'com, 'pkg, 'share, 'pkp, 'sig) sign_suite =
  sg_identifier :: "u16 \<Rightarrow> 'id option"
  sg_signing_share :: "bytes \<Rightarrow> 'ss option"
  sg_verifying_share :: "bytes \<Rightarrow> 'vs option"
  sg_group_key :: "bytes \<Rightarrow> 'vk option"
  sg_key_package :: "'id \<Rightarrow> 'ss \<Rightarrow> 'vs \<Rightarrow> 'vk \<Rightarrow> u16 \<Rightarrow> 'kp"
  sg_commit :: "'kp \<Rightarrow> 'nonce \<times> 'com"
  sg_ser_com :: "'com \<Rightarrow> bytes option"
  sg_de_com :: "bytes \<Rightarrow> 'com option"
  sg_signing_package :: "('id, 'com) btree \<Rightarrow> bytes \<Rightarrow> 'pkg"
  sg_sign :: "'pkg \<Rightarrow> 'nonce \<Rightarrow> 'kp \<Rightarrow> 'share option"
  sg_ser_share :: "'share \<Rightarrow> bytes"
  sg_de_share :: "bytes \<Rightarrow> 'share option"
  sg_public_package :: "bytes \<Rightarrow> 'pkp option"
  sg_verifying_ids :: "'pkp \<Rightarrow> 'id list"
  sg_aggregate :: "'pkg \<Rightarrow> ('id, 'share) btree \<Rightarrow> 'pkp \<Rightarrow> 'sig option"
  sg_verifying_key :: "'pkp \<Rightarrow> 'vk"
  sg_verify :: "'vk \<Rightarrow> bytes \<Rightarrow> 'sig \<Rightarrow> bool"
  sg_ser_key :: "'vk \<Rightarrow> bytes option"
  sg_ser_sig :: "'sig \<Rightarrow> bytes option"

datatype keysign_error =
    SgPayload payload_error
  | SgShare share_error
  | IdentifierMismatch u16 u16
  | SgInvalidIdentifier
  | DeserializeSigningShare
  | DeserializeVerifyingShare
  | DeserializeGroupKey
  | SerializeCommitments
  | EncodeCommitments
  | SendCommitments
  | InvalidParticipant
  | SgReceive
  | SgInvalidSender u16
  | UnexpectedCommitment u16 "u16 list"
  | DecodeCommitments
  | DeserializeCommitments u16
  | MissingCommitments
  | SignError
  | EncodeSignatureShare
  | SendSignatureShare
  | UnexpectedShare u16 "u16 list"
  | DecodeSignatureShare
  | DeserializeSignatureShare u16
  | MissingShares
  | DeserializePublicPackage
  | NotInPublicPackage
  | AggregateError
  | VerificationFailed
  | SgSerializeGroupKey
  | SerializeSignature
  | EncodeSignature

record key_sign =
  ksign_path :: string

definition key_sign_new :: "string \<Rightarrow> key_sign" where
  "key_sign_new p = \<lparr>ksign_path = p\<rparr>"

section \<open>Round 1\<close>

text \<open>The key package is rebuilt from the share.\<close>

definition load_key_package ::
    "('id, 'ss, 'vs, 'vk, 'kp, 'nonce, 'com, 'pkg, 'share, 'pkp, 'sig) sign_suite \<Rightarrow> key_share \<Rightarrow>
     keysign_error halt + 'id \<times> 'kp" where
  "load_key_package S ks =
     bindR (or_fail SgInvalidIdentifier (sg_identifier S (ks_identifier ks))) (\<lambda>identifier_id.
     bindR (or_fail DeserializeSigningShare (sg_signing_share S (ks_signing_key ks))) (\<lambda>signing.
     bindR (or_fail DeserializeVerifyingShare (sg_verifying_share S (ks_public_key ks))) (\<lambda>verifying.
     bindR (or_fail DeserializeGroupKey (sg_group_key S (ks_group_public_key ks))) (\<lambda>verifying_key.
       Inr (identifier_id, sg_key_package S identifier_id signing verifying verifying_key (ks_min_signers ks))))))"

text \<open>\<open>signing_participants.len() - 1\<close> in the progress message panics on an empty list.\<close>

definition send_commitments ::
    "('id, 'ss, 'vs, 'vk, 'kp, 'nonce, 'com, 'pkg, 'share, 'pkp, 'sig) sign_suite \<Rightarrow> bytes serde \<Rightarrow>
     u16 list \<Rightarrow> 'com \<Rightarrow> agent_io \<Rightarrow> keysign_error halt + agent_io" where
  "send_commitments S cbor participants commitments io =
     bindR (or_fail SerializeCommitments (sg_ser_com S commitments)) (\<lambda>payload.
     bindR (or_fail EncodeCommitments (to_vec cbor payload)) (\<lambda>payload_cbor.
       if participants = [] then Inl (Panicked ''attempt to subtract with overflow'')
       else bindR (send SendCommitments payload_cbor None io) await_feedback))"

text \<open>The set of expected participants, or the first number that is no identifier.\<close>

fun expected_participants ::
    "('id :: linorder, 'ss, 'vs, 'vk, 'kp, 'nonce, 'com, 'pkg, 'share, 'pkp, 'sig) sign_suite \<Rightarrow>
     ('id, unit) btree \<Rightarrow> u16 list \<Rightarrow> keysign_error halt + ('id, unit) btree" where
  "expected_participants S ids [] = Inr ids"
| "expected_participants S ids (u # us) =
     bindR (or_fail InvalidParticipant (sg_identifier S u)) (\<lambda>i. expected_participants S (bt_insert i () ids) us)"

record ('id, 'com, 'share) sign_round1 =
  sr_commitments :: "('id, 'com) btree"
  sr_received :: "('id, unit) btree"
  sr_deferred :: "('id, 'share) btree"

text \<open>\<open>entry(k).or_insert(v)\<close>.\<close>

definition bt_or_insert :: "'k :: linorder \<Rightarrow> 'v \<Rightarrow> ('k, 'v) btree \<Rightarrow> ('k, 'v) btree" where
  "bt_or_insert k v m = (if bt_get k m = None then bt_insert k v m else m)"

text \<open>The signer a message comes from: its session index is translated to the identifier of
  key generation, which must belong to the session.\<close>

definition sender_of ::
    "('id :: linorder, 'ss, 'vs, 'vk, 'kp, 'nonce, 'com, 'pkg, 'share, 'pkp, 'sig) sign_suite \<Rightarrow>
     (u16 \<Rightarrow> u16 list \<Rightarrow> keysign_error) \<Rightarrow> ('id, unit) btree \<Rightarrow> u16 list \<Rightarrow> protocol_request \<Rightarrow>
     keysign_error halt + u16 \<times> 'id" where
  "sender_of S unexpected expected participants req =
     bindR (map_errR (Failed \<circ> SgShare)
       (participant_identifier_for_session_index (pr_from req) participants)) (\<lambda>sender_identifier.
     bindR (or_fail (SgInvalidSender sender_identifier) (sg_identifier S sender_identifier)) (\<lambda>sender_id.
       if bt_get sender_id expected = None then Inl (Failed (unexpected sender_identifier participants))
       else Inr (sender_identifier, sender_id)))"

definition sign_round1_msg ::
    "('id :: linorder, 'ss, 'vs, 'vk, 'kp, 'nonce, 'com, 'pkg, 'share, 'pkp, 'sig) sign_suite \<Rightarrow> bytes serde \<Rightarrow>
     ('id, unit) btree \<Rightarrow> u16 list \<Rightarrow> ('id, 'com, 'share) sign_round1 \<Rightarrow> protocol_request \<Rightarrow>
     keysign_error halt + ('id, 'com, 'share) sign_round1" where
  "sign_round1_msg S cbor expected participants s req =
     bindR (sender_of S UnexpectedCommitment expected participants req) (\<lambda>(sender_identifier, sender_id).
     bindR (or_fail DecodeCommitments (from_slice cbor (pr_payload req))) (\<lambda>payload.
       if bt_get sender_id (sr_received s) \<noteq> None then
         Inr (case sg_de_share S payload of
                Some sig_share \<Rightarrow> s\<lparr>sr_deferred := bt_or_insert sender_id sig_share (sr_deferred s)\<rparr>
              | None \<Rightarrow> s)
       else
         (case sg_de_com S payload of
            Some comms \<Rightarrow>
              Inr (s\<lparr>sr_commitments := bt_insert sender_id comms (sr_commitments s),
                     sr_received := bt_insert sender_id () (sr_received s)\<rparr>)
          | None \<Rightarrow>
              (case sg_de_share S payload of
                 Some sig_share \<Rightarrow> Inr (s\<lparr>sr_deferred := bt_or_insert sender_id sig_share (sr_deferred s)\<rparr>)
               | None \<Rightarrow> Inl (Failed (DeserializeCommitments sender_identifier))))))"

definition sign_round1_loop ::
    "('id :: linorder, 'ss, 'vs, 'vk, 'kp, 'nonce, 'com, 'pkg, 'share, 'pkp, 'sig) sign_suite \<Rightarrow> bytes serde \<Rightarrow>
     ('id, unit) btree \<Rightarrow> u16 list \<Rightarrow> 'id \<Rightarrow> 'com \<Rightarrow> agent_io \<Rightarrow>
     (keysign_error, ('id, 'com, 'share) sign_round1) agent_res" where
  "sign_round1_loop S cbor expected participants identifier_id commitments io =
     collect (\<lambda>s. length participants \<le> length (sr_received s)) SgReceive
       (sign_round1_msg S cbor expected participants) io [] (io_incoming io)
       \<lparr>sr_commitments = bt_insert identifier_id commitments [],
        sr_received = bt_insert identifier_id () [], sr_deferred = []\<rparr>"

section \<open>Round 2\<close>

definition send_share ::
    "('id, 'ss, 'vs, 'vk, 'kp, 'nonce, 'com, 'pkg, 'share, 'pkp, 'sig) sign_suite \<Rightarrow> bytes serde \<Rightarrow>
     'share \<Rightarrow> agent_io \<Rightarrow> keysign_error halt + agent_io" where
  "send_share S cbor share io =
     bindR (or_fail EncodeSignatureShare (to_vec cbor (sg_ser_share S share))) (\<lambda>payload_cbor.
     bindR (send SendSignatureShare payload_cbor None io) await_feedback)"

record ('id, 'share) sign_round2 =
  ss_shares :: "('id, 'share) btree"
  ss_received :: "('id, unit) btree"

text \<open>The shares that came early.\<close>

fun merge_deferred ::
    "('id :: linorder, unit) btree \<Rightarrow> ('id, 'share) btree \<Rightarrow> ('id, 'share) sign_round2 \<Rightarrow>
     ('id, 'share) sign_round2" where
  "merge_deferred expected [] s = s"
| "merge_deferred expected ((sender_id, sig_share) # rest) s =
     merge_deferred expected rest
       (if bt_get sender_id expected \<noteq> None \<and> bt_get sender_id (ss_received s) = None then
          \<lparr>ss_shares = bt_insert sender_id sig_share (ss_shares s),
           ss_received = bt_insert sender_id () (ss_received s)\<rparr>
        else s)"

definition sign_round2_msg ::
    "('id :: linorder, 'ss, 'vs, 'vk, 'kp, 'nonce, 'com, 'pkg, 'share, 'pkp, 'sig) sign_suite \<Rightarrow> bytes serde \<Rightarrow>
     ('id, unit) btree \<Rightarrow> u16 list \<Rightarrow> ('id, 'share) sign_round2 \<Rightarrow> protocol_request \<Rightarrow>
     keysign_error halt + ('id, 'share) sign_round2" where
  "sign_round2_msg S cbor expected participants s req =
     bindR (sender_of S UnexpectedShare expected participants req) (\<lambda>(sender_identifier, sender_id).
       if bt_get sender_id (ss_received s) \<noteq> None then Inr s
       else
         bindR (or_fail DecodeSignatureShare (from_slice cbor (pr_payload req))) (\<lambda>payload.
           case sg_de_share S payload of
             Some sig_share \<Rightarrow>
               Inr \<lparr>ss_shares = bt_insert sender_id sig_share (ss_shares s),
                    ss_received = bt_insert sender_id () (ss_received s)\<rparr>
           | None \<Rightarrow>
               if sg_de_com S payload \<noteq> None then Inr s
               else Inl (Failed (DeserializeSignatureShare sender_identifier))))"

definition sign_round2_loop ::
    "('id :: linorder, 'ss, 'vs, 'vk, 'kp, 'nonce, 'com, 'pkg, 'share, 'pkp, 'sig) sign_suite \<Rightarrow> bytes serde \<Rightarrow>
     ('id, unit) btree \<Rightarrow> u16 list \<Rightarrow> ('id, 'share) sign_round2 \<Rightarrow> agent_io \<Rightarrow>
     (keysign_error, ('id, 'share) sign_round2) agent_res" where
  "sign_round2_loop S cbor expected participants s io =
     collect (\<lambda>s. length participants \<le> length (ss_received s)) SgReceive
       (sign_round2_msg S cbor expected participants) io [] (io_incoming io) s"

section \<open>The signature\<close>

text \<open>\<open>commitments_map.keys() != expected\<close>: two ordered sets are equal when they list the same
  elements.\<close>

definition same_ids :: "('id, 'a) btree \<Rightarrow> ('id, 'b) btree \<Rightarrow> bool" where
  "same_ids m m' \<longleftrightarrow> map fst m = map fst m'"

definition finish_signature ::
    "('id :: linorder, 'ss, 'vs, 'vk, 'kp, 'nonce, 'com, 'pkg, 'share, 'pkp, 'sig) sign_suite \<Rightarrow> key_share \<Rightarrow>
     bytes \<Rightarrow> 'pkg \<Rightarrow> ('id, 'share) btree \<Rightarrow> keysign_error halt + signature" where
  "finish_signature S ks message package shares =
     bindR (or_fail DeserializePublicPackage (sg_public_package S (ks_public_key_package ks))) (\<lambda>pkp.
       if \<not> list_all (\<lambda>e. fst e \<in> set (sg_verifying_ids S pkp)) shares then Inl (Failed NotInPublicPackage)
       else
         bindR (or_fail AggregateError (sg_aggregate S package shares pkp)) (\<lambda>signature.
         if \<not> sg_verify S (sg_verifying_key S pkp) message signature then Inl (Failed VerificationFailed)
         else
           bindR (or_fail SgSerializeGroupKey (sg_ser_key S (sg_verifying_key S pkp))) (\<lambda>group_bytes.
           bindR (or_fail SerializeSignature (sg_ser_sig S signature)) (\<lambda>sig_bytes.
             Inr \<lparr>sig_curve = ks_curve ks, sig_pub_key = group_bytes, sig_signature = sig_bytes\<rparr>))))"

definition run_signing ::
    "('id :: linorder, 'ss, 'vs, 'vk, 'kp, 'nonce, 'com, 'pkg, 'share, 'pkp, 'sig) sign_suite \<Rightarrow> bytes serde \<Rightarrow>
     key_share \<Rightarrow> u16 list \<Rightarrow> bytes \<Rightarrow> agent_io \<Rightarrow> (keysign_error, signature) agent_res" where
  "run_signing S cbor ks participants message io =
     bindR (load_key_package S ks) (\<lambda>(identifier_id, key_package).
     let (nonces, commitments) = sg_commit S key_package in
     bindR (send_commitments S cbor participants commitments io) (\<lambda>io1.
     bindR (expected_participants S [] participants) (\<lambda>expected.
     bindR (sign_round1_loop S cbor expected participants identifier_id commitments io1) (\<lambda>(r1, io2).
     if \<not> same_ids (sr_commitments r1) expected then Inl (Failed MissingCommitments)
     else
       let package = sg_signing_package S (sr_commitments r1) message in
       bindR (or_fail SignError (sg_sign S package nonces key_package)) (\<lambda>share.
       bindR (send_share S cbor share io2) (\<lambda>io3.
       bindR (sign_round2_loop S cbor expected participants
           (merge_deferred expected (sr_deferred r1)
             \<lparr>ss_shares = bt_insert identifier_id share [], ss_received = bt_insert identifier_id () []\<rparr>) io3) (\<lambda>(r2, io4).
       if \<not> same_ids (ss_shares r2) expected then Inl (Failed MissingShares)
       else
         bindR (finish_signature S ks message package (ss_shares r2)) (\<lambda>signature.
           Inr (signature, io4)))))))))"

section \<open>The agent\<close>

record ('id, 'ss, 'vs, 'vk, 'kp, 'nonce, 'com, 'pkg, 'share, 'pkp, 'sig, 'p) keysign_env =
  se_suite :: "curve \<Rightarrow> ('id, 'ss, 'vs, 'vk, 'kp, 'nonce, 'com, 'pkg, 'share, 'pkp, 'sig) sign_suite"
  se_bytes :: "bytes serde"
  se_payload :: "sign_request_payload serde"
  se_share :: "key_share serde"
  se_signature :: "signature serde"
  se_peers :: "'p peer_id_ops"

definition keysign_protocol_id :: u64 where
  "keysign_protocol_id = 1"

definition keysign_compute ::
    "('id :: linorder, 'ss, 'vs, 'vk, 'kp, 'nonce, 'com, 'pkg, 'share, 'pkp, 'sig, 'p) keysign_env \<Rightarrow> key_sign \<Rightarrow>
     share_disk \<Rightarrow> 'p peerset \<Rightarrow> bytes \<Rightarrow> agent_io \<Rightarrow> (keysign_error, bytes) agent_res" where
  "keysign_compute E g d ps payload io =
     bindR (map_errR (Failed \<circ> SgPayload) (decode_sign_payload (se_payload E) payload)) (\<lambda>request.
     bindR (map_errR (Failed \<circ> SgShare) (read_key_share (se_share E) (ksign_path g) (sg_wallet_id request) d)) (\<lambda>ks.
     bindR (map_errR (lift_share SgShare) (apply_key_share_participants (se_peers E) ps ks)) (\<lambda>(parties, i).
       if i \<noteq> ks_identifier ks then Inl (Failed (IdentifierMismatch i (ks_identifier ks)))
       else
         bindR (run_signing (se_suite E (ks_curve ks)) (se_bytes E) ks (signing_participants parties)
           (sg_message request) io) (\<lambda>(signature, io').
         bindR (or_fail EncodeSignature (to_vec (se_signature E) signature)) (\<lambda>signature_bytes.
           Inr (signature_bytes, io'))))))"

section \<open>The receive loops as collectors\<close>

text \<open>The identifier behind a session index.\<close>

definition session_ident ::
    "('id, 'ss, 'vs, 'vk, 'kp, 'nonce, 'com, 'pkg, 'share, 'pkp, 'sig) sign_suite \<Rightarrow> u16 list \<Rightarrow> u16 \<Rightarrow> 'id option" where
  "session_ident S participants j =
     (case participant_identifier_for_session_index j participants of
        Inr u \<Rightarrow> sg_identifier S u | Inl _ \<Rightarrow> None)"

definition com_body ::
    "('id, 'ss, 'vs, 'vk, 'kp, 'nonce, 'com, 'pkg, 'share, 'pkp, 'sig) sign_suite \<Rightarrow> bytes serde \<Rightarrow>
     protocol_request \<Rightarrow> 'com option" where
  "com_body S cbor m = Option.bind (from_slice cbor (pr_payload m)) (sg_de_com S)"

definition share_body ::
    "('id, 'ss, 'vs, 'vk, 'kp, 'nonce, 'com, 'pkg, 'share, 'pkp, 'sig) sign_suite \<Rightarrow> bytes serde \<Rightarrow>
     protocol_request \<Rightarrow> 'share option" where
  "share_body S cbor m = Option.bind (from_slice cbor (pr_payload m)) (sg_de_share S)"

text \<open>A message of a signer of the session that is either a commitment or a signature share.\<close>

definition signer_ok where
  "signer_ok S cbor expected participants m \<longleftrightarrow>
     (\<exists>k. session_ident S participants (pr_from m) = Some k \<and> bt_get k expected \<noteq> None) \<and>
     (com_body S cbor m = None) \<noteq> (share_body S cbor m = None)"

definition com_entry where
  "com_entry S cbor participants m = from_entry (session_ident S participants) (com_body S cbor m) m"

definition share_entry where
  "share_entry S cbor participants m = from_entry (session_ident S participants) (share_body S cbor m) m"

definition sign1_inv :: "('id, 'com, 'share) sign_round1 \<Rightarrow> bool" where
  "sign1_inv s \<longleftrightarrow> map fst (sr_received s) = map fst (sr_commitments s)"

definition sign2_inv :: "('id, 'share) sign_round2 \<Rightarrow> bool" where
  "sign2_inv s \<longleftrightarrow> map fst (ss_received s) = map fst (ss_shares s)"

lemma same_keys_get: "map fst m = map fst m' \<Longrightarrow> bt_get k m = None \<longleftrightarrow> bt_get k m' = None"
  by (metis bt_get_None_iff list.set_map)

lemma same_keys_insert:
  "map fst m = map fst m' \<Longrightarrow> map fst (bt_insert k v m) = map fst (bt_insert k v' m')"
proof (induction m arbitrary: m')
  case (Cons e m)
  then obtain e' n where "m' = e' # n" by (cases m') auto
  with Cons show ?case by (cases e; cases e') auto
qed simp

lemma signer_message:
  assumes "signer_ok S cbor expected participants m"
  obtains k u b where "session_ident S participants (pr_from m) = Some k"
    "\<And>e. sender_of S e expected participants m = Inr (u, k)"
    "from_slice cbor (pr_payload m) = Some b"
    "com_body S cbor m = sg_de_com S b" "share_body S cbor m = sg_de_share S b"
    "(sg_de_com S b = None) \<noteq> (sg_de_share S b = None)"
proof -
  from assms obtain k where k: "session_ident S participants (pr_from m) = Some k" "bt_get k expected \<noteq> None"
    by (auto simp: signer_ok_def)
  then obtain u where u: "participant_identifier_for_session_index (pr_from m) participants = Inr u"
    "sg_identifier S u = Some k" by (auto simp: session_ident_def split: sum.splits)
  from assms obtain b where b: "from_slice cbor (pr_payload m) = Some b"
    by (cases "from_slice cbor (pr_payload m)") (auto simp: signer_ok_def com_body_def share_body_def)
  show thesis
  proof (rule that [OF k(1) _ b])
    show "sender_of S e expected participants m = Inr (u, k)" for e
      using k u by (simp add: sender_of_def del: bindR_eq_Inr)
    show "com_body S cbor m = sg_de_com S b" "share_body S cbor m = sg_de_share S b"
      using b by (simp_all add: com_body_def share_body_def)
    then show "(sg_de_com S b = None) \<noteq> (sg_de_share S b = None)" using assms by (simp add: signer_ok_def)
  qed
qed

text \<open>One step of each loop on such a message.\<close>

lemma sign_round1_step:
  assumes "signer_ok S cbor expected participants m" and "sign1_inv s"
    and "session_ident S participants (pr_from m) = Some k"
  shows "sign_round1_msg S cbor expected participants s m =
    Inr (case com_body S cbor m of
           Some c \<Rightarrow> if bt_get k (sr_commitments s) = None then
               s\<lparr>sr_commitments := bt_insert k c (sr_commitments s), sr_received := bt_insert k () (sr_received s)\<rparr>
             else s
         | None \<Rightarrow> s\<lparr>sr_deferred := bt_or_insert k (the (share_body S cbor m)) (sr_deferred s)\<rparr>)"
proof -
  obtain u b where b: "\<And>e. sender_of S e expected participants m = Inr (u, k)"
    "from_slice cbor (pr_payload m) = Some b" "com_body S cbor m = sg_de_com S b"
    "share_body S cbor m = sg_de_share S b" "(sg_de_com S b = None) \<noteq> (sg_de_share S b = None)"
    using signer_message [OF assms(1)] assms(3) by (metis option.inject)
  have "bt_get k (sr_received s) = None \<longleftrightarrow> bt_get k (sr_commitments s) = None"
    using assms(2) by (intro same_keys_get) (simp add: sign1_inv_def)
  with b show ?thesis
    by (auto simp: sign_round1_msg_def simp del: bindR_eq_Inr split: option.splits)
qed

lemma sign_round2_step:
  assumes "signer_ok S cbor expected participants m" and "sign2_inv s"
    and "session_ident S participants (pr_from m) = Some k"
  shows "sign_round2_msg S cbor expected participants s m =
    Inr (case share_body S cbor m of
           Some c \<Rightarrow> if bt_get k (ss_shares s) = None then
               \<lparr>ss_shares = bt_insert k c (ss_shares s), ss_received = bt_insert k () (ss_received s)\<rparr>
             else s
         | None \<Rightarrow> s)"
proof -
  obtain u b where b: "\<And>e. sender_of S e expected participants m = Inr (u, k)"
    "from_slice cbor (pr_payload m) = Some b" "com_body S cbor m = sg_de_com S b"
    "share_body S cbor m = sg_de_share S b" "(sg_de_com S b = None) \<noteq> (sg_de_share S b = None)"
    using signer_message [OF assms(1)] assms(3) by (metis option.inject)
  have "bt_get k (ss_received s) = None \<longleftrightarrow> bt_get k (ss_shares s) = None"
    using assms(2) by (intro same_keys_get) (simp add: sign2_inv_def)
  with b show ?thesis
    by (auto simp: sign_round2_msg_def simp del: bindR_eq_Inr split: option.splits)
qed

lemma signer_cases:
  assumes "signer_ok S cbor expected participants m"
  shows "\<exists>k. session_ident S participants (pr_from m) = Some k \<and>
    ((\<exists>c. com_body S cbor m = Some c \<and> share_body S cbor m = None \<and>
        com_entry S cbor participants m = Some (k, c) \<and> share_entry S cbor participants m = None) \<or>
     (\<exists>v. com_body S cbor m = None \<and> share_body S cbor m = Some v \<and>
        com_entry S cbor participants m = None \<and> share_entry S cbor participants m = Some (k, v)))"
  using assms
  by (auto simp: signer_ok_def com_entry_def share_entry_def from_entry_def split: option.splits)

interpretation coms: collector "sign_round1_msg S cbor expected participants" sr_commitments sign1_inv
    "signer_ok S cbor expected participants" "com_entry S cbor participants"
proof (unfold_locales, goal_cases)
  case (1 s m)
  with signer_cases [OF 1(2)] show ?case by (auto simp: sign_round1_step sign1_inv_def)
next
  case (2 s m k v)
  with signer_cases [OF 2(2)] show ?case by (auto simp: sign_round1_step sign1_inv_def intro: same_keys_insert)
qed

interpretation early: collector "sign_round1_msg S cbor expected participants" sr_deferred sign1_inv
    "signer_ok S cbor expected participants" "share_entry S cbor participants"
proof (unfold_locales, goal_cases)
  case (1 s m)
  with signer_cases [OF 1(2)] show ?case by (auto simp: sign_round1_step sign1_inv_def intro: same_keys_insert)
next
  case (2 s m k v)
  with signer_cases [OF 2(2)] show ?case by (auto simp: sign_round1_step sign1_inv_def bt_or_insert_def)
qed

interpretation shares: collector "sign_round2_msg S cbor expected participants" ss_shares sign2_inv
    "signer_ok S cbor expected participants" "share_entry S cbor participants"
proof (unfold_locales, goal_cases)
  case (1 s m)
  with signer_cases [OF 1(2)] show ?case by (auto simp: sign_round2_step sign2_inv_def)
next
  case (2 s m k v)
  with signer_cases [OF 2(2)] show ?case by (auto simp: sign_round2_step sign2_inv_def intro: same_keys_insert)
qed

section \<open>The signers of a session\<close>

text \<open>A session of different signers, the local one among them.\<close>

definition session_ok ::
    "('id, 'ss, 'vs, 'vk, 'kp, 'nonce, 'com, 'pkg, 'share, 'pkp, 'sig) sign_suite \<Rightarrow> u16 list \<Rightarrow> u16 \<Rightarrow> bool" where
  "session_ok S participants me \<longleftrightarrow>
     identifier_laws (sg_identifier S) \<and> distinct participants \<and> 0 \<notin> set participants \<and>
     me \<in> set participants \<and> length participants < 2 ^ 16"

definition signer :: "u16 list \<Rightarrow> u16 \<Rightarrow> u16" where
  "signer participants j = participants ! unat (j - 1)"

definition other_signers :: "u16 list \<Rightarrow> u16 \<Rightarrow> u16 list" where
  "other_signers participants me =
     filter (\<lambda>j. signer participants j \<noteq> me) (u16_range (of_nat (length participants)))"

lemma map_signer:
  assumes "length participants < 2 ^ 16"
  shows "map (signer participants) (u16_range (of_nat (length participants))) = participants"
proof (rule nth_equalityI)
  let ?n = "of_nat (length participants) :: u16"
  have n: "unat ?n = length participants" using assms by (simp add: unsigned_of_nat take_bit_nat_eq_self)
  then show "length (map (signer participants) (u16_range ?n)) = length participants" by (simp add: length_u16_range)
  fix a assume "a < length (map (signer participants) (u16_range ?n))"
  then have a: "a < length participants" using n by (simp add: length_u16_range)
  then have u: "u16_range ?n ! a = of_nat (Suc a)" unfolding u16_range_def n by (simp del: upt_Suc)
  have "unat (of_nat (Suc a) - 1 :: u16) = a"
    using a assms by (simp add: unsigned_of_nat take_bit_nat_eq_self)
  with a u n show "map (signer participants) (u16_range ?n) ! a = participants ! a"
    by (simp add: signer_def length_u16_range)
qed

lemma session_signer:
  assumes "length participants < 2 ^ 16" and "j \<in> set (u16_range (of_nat (length participants)))"
  shows "session_ident S participants j = sg_identifier S (signer participants j)"
proof -
  have j: "j \<noteq> 0" "unat j \<le> length participants"
    using assms by (auto simp: set_u16_range word_le_nat_alt unsigned_of_nat take_bit_nat_eq_self)
  have "unat j \<noteq> 0" using j(1) by (simp add: unsigned_eq_0_iff)
  with j have "unat (j - 1) < length participants" by (simp add: pred_u16)
  with j(1) show ?thesis by (simp add: session_ident_def participant_identifier_for_session_index_def signer_def)
qed

lemma other_signers_map:
  assumes "length participants < 2 ^ 16"
  shows "map (signer participants) (other_signers participants me) = filter (\<lambda>u. u \<noteq> me) participants"
proof -
  have "map (signer participants) (other_signers participants me) =
      filter (\<lambda>u. u \<noteq> me) (map (signer participants) (u16_range (of_nat (length participants))))"
    by (simp add: other_signers_def filter_map comp_def)
  then show ?thesis by (simp add: map_signer [OF assms])
qed

text \<open>The map over the session indices of the other signers is the map over their identifiers.\<close>

lemma session_map:
  assumes "length participants < 2 ^ 16"
  shows "id_map (session_ident S participants) (\<lambda>j. f (signer participants j)) (other_signers participants me) =
    id_map (sg_identifier S) f (filter (\<lambda>u. u \<noteq> me) participants)"
proof -
  have "id_map (session_ident S participants) (\<lambda>j. f (signer participants j)) (other_signers participants me) =
      id_map (sg_identifier S \<circ> signer participants) (f \<circ> signer participants) (other_signers participants me)"
    by (rule id_map_cong) (auto simp: session_signer [OF assms] other_signers_def)
  then show ?thesis by (simp add: other_signers_map [OF assms] flip: id_map_map)
qed

lemma session_identifies:
  assumes "session_ok S participants me"
  shows "identifies (session_ident S participants) (other_signers participants me)"
    and "distinct (other_signers participants me)"
    and "length participants = Suc (length (other_signers participants me))"
proof -
  from assms have laws: "identifier_laws (sg_identifier S)" and p: "distinct participants" "0 \<notin> set participants"
    "me \<in> set participants" "length participants < 2 ^ 16" by (simp_all add: session_ok_def)
  show d: "distinct (other_signers participants me)" by (simp add: other_signers_def distinct_u16_range)
  have inj: "inj_on (signer participants) (set (other_signers participants me))"
    using other_signers_map [OF p(4), of me] p(1) by (metis distinct_filter distinct_map)
  have mem: "signer participants j \<in> set participants" if "j \<in> set (other_signers participants me)" for j
    using that other_signers_map [OF p(4), of me] by (metis filter_is_subset image_eqI list.set_map subsetD)
  have sess: "session_ident S participants j = sg_identifier S (signer participants j)"
    if "j \<in> set (other_signers participants me)" for j
    using that by (intro session_signer [OF p(4)]) (simp add: other_signers_def)
  show "identifies (session_ident S participants) (other_signers participants me)"
    unfolding identifies_def
  proof
    show "None \<notin> session_ident S participants ` set (other_signers participants me)"
    proof
      assume "None \<in> session_ident S participants ` set (other_signers participants me)"
      then obtain j where "j \<in> set (other_signers participants me)" "sg_identifier S (signer participants j) = None"
        using sess by auto
      with mem [OF this(1)] p(2) laws show False by (simp add: identifier_laws_def)
    qed
    show "inj_on (session_ident S participants) (set (other_signers participants me))"
      using laws inj sess unfolding identifier_laws_def inj_on_def by metis
  qed
  have "length (other_signers participants me) = length (filter (\<lambda>u. u \<noteq> me) participants)"
    using other_signers_map [OF p(4), of me] by (metis length_map)
  with length_filter_neq [OF p(1,3)] p(3) show "length participants = Suc (length (other_signers participants me))"
    by (cases participants) auto
qed

lemma expected_participants_eq:
  assumes "identifier_laws (sg_identifier S)" and "0 \<notin> set us"
  shows "expected_participants S [] us = Inr (id_map (sg_identifier S) (\<lambda>_. ()) us)"
proof -
  have "expected_participants S ids us =
      Inr (foldl (\<lambda>m u. case sg_identifier S u of Some i \<Rightarrow> bt_insert i () m | None \<Rightarrow> m) ids us)" for ids
    using assms(2)
  proof (induction us arbitrary: ids)
    case (Cons u us)
    then obtain i where "sg_identifier S u = Some i" using assms(1) by (cases "sg_identifier S u") (auto simp: identifier_laws_def)
    with Cons show ?case by simp
  qed simp
  then show ?thesis by (simp add: id_map_def)
qed

section \<open>Signing in lock step\<close>

definition sign_synchronous ::
    "('id :: linorder, 'ss, 'vs, 'vk, 'kp, 'nonce, 'com, 'pkg, 'share, 'pkp, 'sig) sign_suite \<Rightarrow> bytes serde \<Rightarrow>
     key_share \<Rightarrow> u16 list \<Rightarrow> bytes \<Rightarrow> (u16 \<Rightarrow> 'com) \<Rightarrow> (u16 \<Rightarrow> 'share) \<Rightarrow> agent_io \<Rightarrow>
     (keysign_error, signature) agent_res" where
  "sign_synchronous S cbor ks participants message cm sh io =
     (let others = filter (\<lambda>u. u \<noteq> ks_identifier ks) participants in
      bindR (load_key_package S ks) (\<lambda>(i, key_package).
      let (nonces, commitments) = sg_commit S key_package;
          package = sg_signing_package S (bt_insert i commitments (id_map (sg_identifier S) cm others)) message in
      bindR (send_commitments S cbor participants commitments io) (\<lambda>io1.
      bindR (or_fail SignError (sg_sign S package nonces key_package)) (\<lambda>share.
      bindR (send_share S cbor share io1) (\<lambda>io2.
      bindR (finish_signature S ks message package
          (bt_insert i share (id_map (sg_identifier S) sh others))) (\<lambda>signature.
        Inr (signature, io2\<lparr>io_incoming := []\<rparr>)))))))"

text \<open>A complete delivery: one commitment and one signature share of each of the other signers,
  in any order; the bytes of neither decode as the other.\<close>

definition signing_delivery ::
    "('id, 'ss, 'vs, 'vk, 'kp, 'nonce, 'com, 'pkg, 'share, 'pkp, 'sig) sign_suite \<Rightarrow> bytes serde \<Rightarrow> u16 list \<Rightarrow>
     u16 \<Rightarrow> (u16 \<Rightarrow> 'com) \<Rightarrow> (u16 \<Rightarrow> 'share) \<Rightarrow> protocol_request list \<Rightarrow> bool" where
  "signing_delivery S cbor participants me cm sh ms \<longleftrightarrow>
     mset (map pr_from (filter (\<lambda>m. com_body S cbor m \<noteq> None) ms)) = mset (other_signers participants me) \<and>
     mset (map pr_from (filter (\<lambda>m. com_body S cbor m = None) ms)) = mset (other_signers participants me) \<and>
     list_all (\<lambda>m.
       com_body S cbor m = Some (cm (signer participants (pr_from m))) \<and> share_body S cbor m = None \<or>
       com_body S cbor m = None \<and> share_body S cbor m = Some (sh (signer participants (pr_from m)))) ms"

text \<open>Messages of such a delivery, which need not be all of them.\<close>

abbreviation com_senders where
  "com_senders S cbor ms \<equiv> map pr_from (filter (\<lambda>m. com_body S cbor m \<noteq> None) ms)"

abbreviation share_senders where
  "share_senders S cbor ms \<equiv> map pr_from (filter (\<lambda>m. com_body S cbor m = None) ms)"

definition signing_part ::
    "('id, 'ss, 'vs, 'vk, 'kp, 'nonce, 'com, 'pkg, 'share, 'pkp, 'sig) sign_suite \<Rightarrow> bytes serde \<Rightarrow> u16 list \<Rightarrow>
     u16 \<Rightarrow> (u16 \<Rightarrow> 'com) \<Rightarrow> (u16 \<Rightarrow> 'share) \<Rightarrow> protocol_request list \<Rightarrow> bool" where
  "signing_part S cbor participants me cm sh ms \<longleftrightarrow>
     distinct (com_senders S cbor ms) \<and> distinct (share_senders S cbor ms) \<and>
     list_all (\<lambda>m. pr_from m \<in> set (other_signers participants me) \<and>
       (com_body S cbor m = Some (cm (signer participants (pr_from m))) \<and> share_body S cbor m = None \<or>
        com_body S cbor m = None \<and> share_body S cbor m = Some (sh (signer participants (pr_from m))))) ms"

lemma signing_delivery_part:
  assumes "signing_delivery S cbor participants me cm sh ms"
  shows "signing_part S cbor participants me cm sh ms"
    and "mset (com_senders S cbor ms) = mset (other_signers participants me)"
    and "mset (share_senders S cbor ms) = mset (other_signers participants me)"
proof -
  show mm: "mset (com_senders S cbor ms) = mset (other_signers participants me)"
    "mset (share_senders S cbor ms) = mset (other_signers participants me)"
    using assms by (simp_all add: signing_delivery_def)
  have "distinct (other_signers participants me)" by (simp add: other_signers_def distinct_u16_range)
  then have "distinct (com_senders S cbor ms)" "distinct (share_senders S cbor ms)"
    using mm [THEN mset_eq_imp_distinct_iff] by blast+
  moreover have "pr_from m \<in> set (other_signers participants me)" if "m \<in> set ms" for m
    using that mm [THEN mset_eq_setD] by (cases "com_body S cbor m = None") auto
  ultimately show "signing_part S cbor participants me cm sh ms"
    using assms by (simp add: signing_part_def signing_delivery_def list_all_iff)
qed

lemma session_member:
  assumes "session_ok S participants me" and "j \<in> set (other_signers participants me)"
  shows "session_ident S participants j = Some (the (session_ident S participants j))"
    and "bt_get (the (session_ident S participants j)) (id_map (sg_identifier S) (\<lambda>_. ()) participants) = Some ()"
    and "sg_identifier S me = Some i \<Longrightarrow> the (session_ident S participants j) \<noteq> i"
proof -
  from assms(1) have laws: "identifier_laws (sg_identifier S)" and n: "length participants < 2 ^ 16"
    by (simp_all add: session_ok_def)
  have "signer participants j \<in> set (filter (\<lambda>u. u \<noteq> me) participants)"
    unfolding other_signers_map [OF n, symmetric] using assms(2) by simp
  then have m: "signer participants j \<in> set participants" "signer participants j \<noteq> me" by simp_all
  have e: "session_ident S participants j = sg_identifier S (signer participants j)"
    using assms(2) by (intro session_signer [OF n]) (simp add: other_signers_def)
  show s: "session_ident S participants j = Some (the (session_ident S participants j))"
    using session_identifies(1) [OF assms(1)] assms(2) by (cases "session_ident S participants j") (force simp: identifies_def)+
  show "bt_get (the (session_ident S participants j)) (id_map (sg_identifier S) (\<lambda>_. ()) participants) = Some ()"
    using m(1) s e by (auto simp: id_map_get [OF laws])
  show "the (session_ident S participants j) \<noteq> i" if "sg_identifier S me = Some i"
    using that s e m(2) laws unfolding identifier_laws_def by metis
qed

lemma signing_messages:
  assumes so: "session_ok S participants me" and d: "signing_part S cbor participants me cm sh ms"
  defines "expected \<equiv> id_map (sg_identifier S) (\<lambda>_. ()) participants"
  shows "list_all (\<lambda>m. signer_ok S cbor expected participants m \<and> com_entry S cbor participants m =
      (if com_body S cbor m \<noteq> None then Some (the (session_ident S participants (pr_from m)), cm (signer participants (pr_from m)))
       else None)) ms"
    and "list_all (\<lambda>m. signer_ok S cbor expected participants m \<and> share_entry S cbor participants m =
      (if com_body S cbor m = None then Some (the (session_ident S participants (pr_from m)), sh (signer participants (pr_from m)))
       else None)) ms"
proof -
  have sender: "pr_from m \<in> set (other_signers participants me)" if "m \<in> set ms" for m
    using that d by (simp add: signing_part_def list_all_iff)
  have *: "signer_ok S cbor expected participants m \<and>
      com_entry S cbor participants m =
        (if com_body S cbor m \<noteq> None then Some (the (session_ident S participants (pr_from m)), cm (signer participants (pr_from m)))
         else None) \<and>
      share_entry S cbor participants m =
        (if com_body S cbor m = None then Some (the (session_ident S participants (pr_from m)), sh (signer participants (pr_from m)))
         else None)" if mem: "m \<in> set ms" for m
  proof -
    have "com_body S cbor m = Some (cm (signer participants (pr_from m))) \<and> share_body S cbor m = None \<or>
       com_body S cbor m = None \<and> share_body S cbor m = Some (sh (signer participants (pr_from m)))"
      using d mem by (simp add: signing_part_def list_all_iff)
    moreover obtain k where "session_ident S participants (pr_from m) = Some k" "bt_get k expected = Some ()"
      using session_member(1,2) [OF so sender [OF mem]] unfolding expected_def by metis
    ultimately show ?thesis by (auto simp: signer_ok_def com_entry_def share_entry_def from_entry_def)
  qed
  then show "list_all (\<lambda>m. signer_ok S cbor expected participants m \<and> com_entry S cbor participants m =
      (if com_body S cbor m \<noteq> None then Some (the (session_ident S participants (pr_from m)), cm (signer participants (pr_from m)))
       else None)) ms"
    and "list_all (\<lambda>m. signer_ok S cbor expected participants m \<and> share_entry S cbor participants m =
      (if com_body S cbor m = None then Some (the (session_ident S participants (pr_from m)), sh (signer participants (pr_from m)))
       else None)) ms"
    unfolding list_all_iff by blast+
qed

lemma bt_insert_get_ext:
  assumes "bt_wf m" and "bt_wf m'" and "\<And>k. bt_get k m = (if k = i then Some v else bt_get k m')"
  shows "m = bt_insert i v m'"
  using assms by (intro bt_ext) simp_all

lemma session_own:
  assumes "session_ok S participants me" and "sg_identifier S me = Some i"
  shows "bt_get i (id_map (session_ident S participants) f (other_signers participants me)) = None"
proof -
  have "session_ident S participants u \<noteq> Some i" if "u \<in> set (other_signers participants me)" for u
    using session_member(1,3) [OF assms(1) that] assms(2) by (metis option.sel)
  then show ?thesis
    using id_map_get_on [OF session_identifies(1) [OF assms(1)], of i f] by (metis not_None_eq)
qed

lemma signing_part_append:
  assumes "signing_part S cbor participants me cm sh (us @ vs)"
  shows "signing_part S cbor participants me cm sh us" and "signing_part S cbor participants me cm sh vs"
  using assms by (auto simp: signing_part_def)

lemma part_senders:
  assumes so: "session_ok S participants me" and d: "signing_part S cbor participants me cm sh ms"
  shows "distinct (com_senders S cbor ms)" and "distinct (share_senders S cbor ms)"
    and "set (com_senders S cbor ms) \<subseteq> set (other_signers participants me)"
    and "set (share_senders S cbor ms) \<subseteq> set (other_signers participants me)"
    and "identifies (session_ident S participants) (com_senders S cbor ms)"
    and "identifies (session_ident S participants) (share_senders S cbor ms)"
proof -
  show "distinct (com_senders S cbor ms)" "distinct (share_senders S cbor ms)"
    using d by (simp_all add: signing_part_def)
  show sub: "set (com_senders S cbor ms) \<subseteq> set (other_signers participants me)"
    "set (share_senders S cbor ms) \<subseteq> set (other_signers participants me)"
    using d by (auto simp: signing_part_def list_all_iff)
  show "identifies (session_ident S participants) (com_senders S cbor ms)"
    "identifies (session_ident S participants) (share_senders S cbor ms)"
    by (rule identifies_subset [OF session_identifies(1) [OF so] sub(1)],
        rule identifies_subset [OF session_identifies(1) [OF so] sub(2)])
qed

text \<open>The state in which round 1 starts.\<close>

lemma round1_start:
  fixes S :: "('id :: linorder, 'ss, 'vs, 'vk, 'kp, 'nonce, 'com, 'pkg, 'share, 'pkp, 'sig) sign_suite" and c :: 'com
  assumes so: "session_ok S participants me" and me: "sg_identifier S me = Some i"
  defines "s \<equiv> \<lparr>sr_commitments = bt_insert i c [], sr_received = bt_insert i () [], sr_deferred = []\<rparr>
    :: ('id, 'com, 'share) sign_round1"
  shows "sign1_inv s" and "bt_wf (sr_commitments s)"
    and "\<forall>u \<in> set (other_signers participants me). bt_get (the (session_ident S participants u)) (sr_commitments s) = None"
    and "length participants = length (sr_commitments s) + length (other_signers participants me)"
  using session_member(3) [OF so _ me] session_identifies(3) [OF so] by (auto simp: s_def sign1_inv_def bt_get_def)

lemma sign1_fin: "\<forall>t. sign1_inv t \<longrightarrow> (n \<le> length (sr_received t)) = (n \<le> length (sr_commitments t))"
  unfolding sign1_inv_def by (metis length_map)

lemma sign2_fin: "\<forall>t. sign2_inv t \<longrightarrow> (n \<le> length (ss_received t)) = (n \<le> length (ss_shares t))"
  unfolding sign2_inv_def by (metis length_map)

text \<open>Round 1 waits while a commitment is missing.\<close>

lemma sign_round1_waits:
  fixes S :: "('id :: linorder, 'ss, 'vs, 'vk, 'kp, 'nonce, 'com, 'pkg, 'share, 'pkp, 'sig) sign_suite"
  assumes so: "session_ok S participants me" and me: "sg_identifier S me = Some i"
    and d: "signing_part S cbor participants me cm sh ms"
    and few: "mset (com_senders S cbor ms) \<noteq> mset (other_signers participants me)" and io: "\<not> io_closed io"
  defines "expected \<equiv> id_map (sg_identifier S) (\<lambda>_. ()) participants"
  shows "sign_round1_loop S cbor expected participants i c (io\<lparr>io_incoming := ms\<rparr>) = Inl (Waiting (io\<lparr>io_incoming := []\<rparr>))"
proof -
  let ?s = "\<lparr>sr_commitments = bt_insert i c [], sr_received = bt_insert i () [], sr_deferred = []\<rparr>
    :: ('id, 'com, 'share) sign_round1"
  note p = part_senders(1,3,5) [OF so d] and s = round1_start [OF so me, of c]
  have "length (com_senders S cbor ms) < length (other_signers participants me)"
    by (rule fewer_parties [OF p(1) session_identifies(2) [OF so] p(2) few])
  then have n: "length (sr_commitments ?s) +
      length (com_senders S cbor ms) < length participants" using s(4) by simp
  have f: "\<forall>u \<in> set (com_senders S cbor ms). bt_get (the (session_ident S participants u))
      (sr_commitments ?s) = None"
    using s(3) p(2) by blast
  show ?thesis
    using coms.collect_too_few_nil [where x = ms and err = SgReceive,
        OF signing_messages(1) [OF so d] p(3,1) s(1,2) f sign1_fin n io]
    by (simp add: sign_round1_loop_def expected_def)
qed

text \<open>With the commitments of all others: all commitments are collected, and the shares among the
  messages taken are kept.\<close>

lemma sign_round1_delivery:
  fixes S :: "('id :: linorder, 'ss, 'vs, 'vk, 'kp, 'nonce, 'com, 'pkg, 'share, 'pkp, 'sig) sign_suite"
  assumes so: "session_ok S participants me" and me: "sg_identifier S me = Some i"
    and d: "signing_part S cbor participants me cm sh ms"
    and mm: "mset (com_senders S cbor ms) = mset (other_signers participants me)"
  defines "expected \<equiv> id_map (sg_identifier S) (\<lambda>_. ()) participants"
  shows "\<exists>us vs r. ms = us @ vs \<and> filter (\<lambda>m. com_body S cbor m \<noteq> None) vs = [] \<and>
    sign_round1_loop S cbor expected participants i c (io\<lparr>io_incoming := ms\<rparr>) = Inr (r, io\<lparr>io_incoming := vs\<rparr>) \<and>
    sr_commitments r = bt_insert i c (id_map (session_ident S participants)
      (\<lambda>j. cm (signer participants j)) (other_signers participants me)) \<and>
    sr_deferred r = id_map (session_ident S participants) (\<lambda>j. sh (signer participants j))
      (map pr_from (filter (\<lambda>m. com_body S cbor m = None) us))"
proof -
  let ?others = "other_signers participants me"
  let ?s = "\<lparr>sr_commitments = bt_insert i c [], sr_received = bt_insert i () [], sr_deferred = []\<rparr>
    :: ('id, 'com, 'share) sign_round1"
  note ids = session_identifies [OF so] and s = round1_start [OF so me, of c]
  note msgs = signing_messages [OF so d, folded expected_def]
  from coms.collect_parties_nil [where err = SgReceive and io = io and x = ms, OF msgs(1) ids(1,2) mm s(1-3) sign1_fin s(4)]
  obtain us vs u where u: "ms = us @ vs" "filter (\<lambda>m. com_body S cbor m \<noteq> None) vs = []"
    "handle_all (sign_round1_msg S cbor expected participants) ?s us = Inr u" "sign1_inv u" "bt_wf (sr_commitments u)"
    "\<forall>k. bt_get k (sr_commitments u) = (case bt_get k (id_map (session_ident S participants)
      (\<lambda>j. cm (signer participants j)) ?others) of None \<Rightarrow> bt_get k (sr_commitments ?s) | Some v \<Rightarrow> Some v)"
    "collect (\<lambda>s. length participants \<le> length (sr_received s)) SgReceive (sign_round1_msg S cbor expected participants)
      (io\<lparr>io_incoming := ms\<rparr>) [] ms ?s = Inr (u, io\<lparr>io_incoming := vs\<rparr>)" by blast
  have "sr_commitments u = bt_insert i c (id_map (session_ident S participants) (\<lambda>j. cm (signer participants j)) ?others)"
  proof (rule bt_insert_get_ext)
    show "bt_get k (sr_commitments u) = (if k = i then Some c else
        bt_get k (id_map (session_ident S participants) (\<lambda>j. cm (signer participants j)) ?others))" for k
      using u(6) session_own [OF so me, of "\<lambda>j. cm (signer participants j)"]
      by (cases "k = i") (simp_all add: bt_get_def split: option.split)
  qed (simp_all add: u(5))
  moreover have "sr_deferred u = id_map (session_ident S participants) (\<lambda>j. sh (signer participants j))
      (map pr_from (filter (\<lambda>m. com_body S cbor m = None) us))"
  proof (rule early.handle_parties_map)
    show "list_all (\<lambda>m. signer_ok S cbor expected participants m \<and> share_entry S cbor participants m =
      (if com_body S cbor m = None then Some (the (session_ident S participants (pr_from m)), sh (signer participants (pr_from m)))
       else None)) us" using msgs(2) u(1) by simp
    show "handle_all (sign_round1_msg S cbor expected participants) ?s us = Inr u" by (rule u(3))
    show "identifies (session_ident S participants) (map pr_from (filter (\<lambda>m. com_body S cbor m = None) us))"
      "distinct (map pr_from (filter (\<lambda>m. com_body S cbor m = None) us))"
      using part_senders(2,6) [OF so signing_part_append(1) [OF d [unfolded u(1)]]] by simp_all
  qed (simp_all add: sign1_inv_def)
  ultimately show ?thesis using u by (intro exI [of _ us] exI [of _ vs] exI [of _ u]) (simp add: sign_round1_loop_def)
qed

lemma merge_deferred_get:
  assumes "sign2_inv s" and "bt_wf (ss_shares s)" and "distinct (map fst ds)"
    and "\<forall>k \<in> fst ` set ds. bt_get k expected \<noteq> None \<and> bt_get k (ss_shares s) = None"
  shows "sign2_inv (merge_deferred expected ds s) \<and> bt_wf (ss_shares (merge_deferred expected ds s)) \<and>
    (\<forall>k. bt_get k (ss_shares (merge_deferred expected ds s)) =
      (case map_of ds k of None \<Rightarrow> bt_get k (ss_shares s) | Some v \<Rightarrow> Some v))"
  using assms
proof (induction expected ds s rule: merge_deferred.induct)
  case (1 expected s)
  then show ?case by simp
next
  case (2 expected k v ds s)
  let ?s = "\<lparr>ss_shares = bt_insert k v (ss_shares s), ss_received = bt_insert k () (ss_received s)\<rparr>"
  have k: "bt_get k expected \<noteq> None \<and> bt_get k (ss_received s) = None"
    using 2(2,5) same_keys_get [of "ss_received s" "ss_shares s" k] by (simp add: sign2_inv_def)
  have "sign2_inv ?s" "bt_wf (ss_shares ?s)"
    using 2(2,3) by (simp_all add: sign2_inv_def same_keys_insert)
  moreover have "\<forall>j \<in> fst ` set ds. bt_get j expected \<noteq> None \<and> bt_get j (ss_shares ?s) = None"
    using 2(4,5) by auto
  moreover have "map_of ds k = None" using 2(4) by (simp add: map_of_eq_None_iff)
  ultimately show ?case using 2(1) 2(4) k by (auto split: option.splits)
qed

text \<open>The state in which round 2 starts.\<close>

lemma merged_shares:
  fixes S :: "('id :: linorder, 'ss, 'vs, 'vk, 'kp, 'nonce, 'com, 'pkg, 'share, 'pkp, 'sig) sign_suite"
  assumes so: "session_ok S participants me" and me: "sg_identifier S me = Some i"
    and us: "identifies (session_ident S participants) us" "set us \<subseteq> set (other_signers participants me)"
    and s_def: "s = merge_deferred (id_map (sg_identifier S) (\<lambda>_. ()) participants)
      (id_map (session_ident S participants) f us)
      \<lparr>ss_shares = bt_insert i share [], ss_received = bt_insert i () []\<rparr>"
  shows "sign2_inv s" and "ss_shares s = bt_insert i share (id_map (session_ident S participants) f us)"
proof -
  let ?expected = "id_map (sg_identifier S) (\<lambda>_. ()) participants"
  let ?d = "id_map (session_ident S participants) f us"
  let ?s = "\<lparr>ss_shares = bt_insert i share [], ss_received = bt_insert i () []\<rparr> :: ('id, 'a) sign_round2"
  have ids: "k \<noteq> i \<and> bt_get k ?expected \<noteq> None" if "k \<in> fst ` set ?d" for k
  proof -
    from that obtain v where "bt_get k ?d = Some v" using bt_get_None_iff [of k ?d] by auto
    then obtain u where "u \<in> set us" "session_ident S participants u = Some k" by (auto simp: id_map_get_on [OF us(1)])
    with session_member(2,3) [OF so, of u] us(2) me show ?thesis by auto
  qed
  have p: "sign2_inv ?s" "bt_wf (ss_shares ?s)" "distinct (map fst ?d)"
    "\<forall>k \<in> fst ` set ?d. bt_get k ?expected \<noteq> None \<and> bt_get k (ss_shares ?s) = None"
    using ids by (auto simp: sign2_inv_def bt_get_def intro!: bt_wf_distinct)
  from merge_deferred_get [OF p] have m: "sign2_inv s" "bt_wf (ss_shares s)"
    "\<And>k. bt_get k (ss_shares s) = (case bt_get k ?d of None \<Rightarrow> bt_get k (ss_shares ?s) | Some v \<Rightarrow> Some v)"
    by (auto simp: bt_get_def s_def)
  show "sign2_inv s" by (rule m(1))
  show "ss_shares s = bt_insert i share ?d"
  proof (rule bt_insert_get_ext [OF m(2)])
    have "bt_get i ?d = None" using ids by (auto simp: bt_get_None_iff)
    then show "bt_get k (ss_shares s) = (if k = i then Some share else bt_get k ?d)" for k
      using m(3) [of k] by (cases "k = i") (simp_all add: bt_get_def split: option.split)
  qed simp
qed

lemma round2_start:
  assumes so: "session_ok S participants me" and me: "sg_identifier S me = Some i"
    and d: "signing_part S cbor participants me cm sh (us @ vs)"
    and s: "ss_shares s = bt_insert i share (id_map (session_ident S participants)
      (\<lambda>j. sh (signer participants j)) (share_senders S cbor us))"
  shows "bt_wf (ss_shares s)"
    and "\<forall>u \<in> set (share_senders S cbor vs). bt_get (the (session_ident S participants u)) (ss_shares s) = None"
    and "length (ss_shares s) = Suc (length (share_senders S cbor us))"
proof -
  let ?sess = "session_ident S participants" and ?sh = "\<lambda>j. sh (signer participants j)"
  note p = part_senders(2,4,6) [OF so d] and pu = part_senders(2,4,6) [OF so signing_part_append(1) [OF d]]
  show "bt_wf (ss_shares s)" by (simp add: s)
  show "\<forall>u \<in> set (share_senders S cbor vs). bt_get (the (?sess u)) (ss_shares s) = None"
  proof
    fix u assume u: "u \<in> set (share_senders S cbor vs)"
    have "the (?sess u) \<noteq> i" using u p(2) by (intro session_member(3) [OF so _ me]) auto
    moreover have "bt_get (the (?sess u)) (id_map ?sess ?sh (share_senders S cbor us)) = None"
      using p(1,3) u by (intro id_map_other [where ys = "share_senders S cbor vs"]) simp_all
    ultimately show "bt_get (the (?sess u)) (ss_shares s) = None" by (simp add: s)
  qed
  have "?sess u \<noteq> Some i" if "u \<in> set (share_senders S cbor us)" for u
    using session_member(1,3) [OF so subsetD [OF pu(2) that]] me by (metis option.sel)
  then have "bt_get i (id_map ?sess ?sh (share_senders S cbor us)) = None"
    using id_map_get_on [OF pu(3), of i ?sh] by (metis not_None_eq)
  then show "length (ss_shares s) = Suc (length (share_senders S cbor us))"
    using length_id_map [OF pu(3,1), of ?sh] by (simp add: s length_bt_insert_new)
qed

text \<open>Round 2 waits while a share is missing.\<close>

lemma sign_round2_waits:
  assumes so: "session_ok S participants me" and me: "sg_identifier S me = Some i"
    and d: "signing_part S cbor participants me cm sh (us @ vs)"
    and few: "mset (share_senders S cbor (us @ vs)) \<noteq> mset (other_signers participants me)" and io: "\<not> io_closed io"
    and s: "sign2_inv s" "ss_shares s = bt_insert i share (id_map (session_ident S participants)
      (\<lambda>j. sh (signer participants j)) (share_senders S cbor us))"
  defines "expected \<equiv> id_map (sg_identifier S) (\<lambda>_. ()) participants"
  shows "sign_round2_loop S cbor expected participants s (io\<lparr>io_incoming := vs\<rparr>) = Inl (Waiting (io\<lparr>io_incoming := []\<rparr>))"
proof -
  note p = part_senders(2,4) [OF so d] and pv = part_senders(2,6) [OF so signing_part_append(2) [OF d]]
  note st = round2_start [OF so me d s(2)]
  have "length (share_senders S cbor (us @ vs)) < length (other_signers participants me)"
    by (rule fewer_parties [OF p(1) session_identifies(2) [OF so] p(2) few])
  then have n: "length (ss_shares s) + length (share_senders S cbor vs) < length participants"
    using session_identifies(3) [OF so] st(3) by simp
  show ?thesis
    using shares.collect_too_few_nil [where x = vs and err = SgReceive,
        OF signing_messages(2) [OF so signing_part_append(2) [OF d]] pv(2,1) s(1) st(1,2) sign2_fin n io]
    by (simp add: sign_round2_loop_def expected_def)
qed

lemma sign_round2_delivery:
  assumes so: "session_ok S participants me" and me: "sg_identifier S me = Some i"
    and d: "signing_part S cbor participants me cm sh (us @ vs)"
    and mm: "mset (share_senders S cbor (us @ vs)) = mset (other_signers participants me)"
    and vs: "filter (\<lambda>m. com_body S cbor m \<noteq> None) vs = []"
    and s: "sign2_inv s" "ss_shares s = bt_insert i share (id_map (session_ident S participants)
      (\<lambda>j. sh (signer participants j)) (share_senders S cbor us))"
  defines "expected \<equiv> id_map (sg_identifier S) (\<lambda>_. ()) participants"
  shows "\<exists>r. sign_round2_loop S cbor expected participants s (io\<lparr>io_incoming := vs\<rparr>) = Inr (r, io\<lparr>io_incoming := []\<rparr>) \<and>
    ss_shares r = bt_insert i share (id_map (session_ident S participants)
      (\<lambda>j. sh (signer participants j)) (other_signers participants me))"
proof -
  let ?sess = "session_ident S participants" and ?sh = "\<lambda>j. sh (signer participants j)"
  let ?others = "other_signers participants me" and ?p = "share_senders S cbor"
  note pv = part_senders(2,6) [OF so signing_part_append(2) [OF d]] and st = round2_start [OF so me d s(2)]
  have all: "id_map ?sess ?sh (?p us @ ?p vs) = id_map ?sess ?sh ?others"
    using mset_eq_setD [OF mm] part_senders(6) [OF so d] by (intro id_map_perm) simp_all
  have n: "length participants = length (ss_shares s) + length (?p vs)"
    using session_identifies(3) [OF so] st(3) mset_eq_length [OF mm] by simp
  note e = signing_messages(2) [OF so signing_part_append(2) [OF d], folded expected_def]
  from shares.collect_parties_nil [where err = SgReceive and io = io and x = vs,
      OF e pv(2,1) refl s(1) st(1,2) sign2_fin n]
  obtain as bs t where t: "vs = as @ bs" "filter (\<lambda>m. com_body S cbor m = None) bs = []" "bt_wf (ss_shares t)"
    "\<forall>k. bt_get k (ss_shares t) = (case bt_get k (id_map ?sess ?sh (?p vs)) of
      None \<Rightarrow> bt_get k (ss_shares s) | Some v \<Rightarrow> Some v)"
    "collect (\<lambda>s. length participants \<le> length (ss_received s)) SgReceive (sign_round2_msg S cbor expected participants)
      (io\<lparr>io_incoming := vs\<rparr>) [] vs s = Inr (t, io\<lparr>io_incoming := bs\<rparr>)" by blast
  have "bs = []" using t(1,2) vs by (auto simp: filter_empty_conv)
  moreover have "ss_shares t = bt_insert i share (id_map ?sess ?sh ?others)"
  proof (rule bt_insert_get_ext [OF t(3)])
    show "bt_get k (ss_shares t) = (if k = i then Some share else bt_get k (id_map ?sess ?sh ?others))" for k
      using t(4) s(2) session_own [OF so me, of ?sh] unfolding all [symmetric] id_map_append_get
      by (auto split: option.splits)
  qed simp
  ultimately show ?thesis using t(5) by (simp add: sign_round2_loop_def)
qed

text \<open>The state in which round 2 starts, after the shares that came early, and what it collects.\<close>

lemma round2_merged:
  fixes S :: "('id :: linorder, 'ss, 'vs, 'vk, 'kp, 'nonce, 'com, 'pkg, 'share, 'pkp, 'sig) sign_suite" and share :: 'share
  assumes so: "session_ok S participants me" and me: "sg_identifier S me = Some i"
    and d: "signing_part S cbor participants me cm sh (us @ vs)"
    and vs: "filter (\<lambda>m. com_body S cbor m \<noteq> None) vs = []" and io: "\<not> io_closed io \<or>
      mset (share_senders S cbor (us @ vs)) = mset (other_signers participants me)"
  defines "expected \<equiv> id_map (sg_identifier S) (\<lambda>_. ()) participants"
  defines "loop \<equiv> sign_round2_loop S cbor expected participants (merge_deferred expected
      (id_map (session_ident S participants) (\<lambda>j. sh (signer participants j)) (share_senders S cbor us))
      \<lparr>ss_shares = bt_insert i share [], ss_received = bt_insert i () []\<rparr>) (io\<lparr>io_incoming := vs\<rparr>)"
  shows "if mset (share_senders S cbor (us @ vs)) = mset (other_signers participants me) then
      \<exists>r. loop = Inr (r, io\<lparr>io_incoming := []\<rparr>) \<and>
        ss_shares r = bt_insert i share (id_map (sg_identifier S) sh (filter (\<lambda>u. u \<noteq> me) participants))
    else loop = Inl (Waiting (io\<lparr>io_incoming := []\<rparr>))"
proof -
  note pu = part_senders(4,6) [OF so signing_part_append(1) [OF d]]
  note m = merged_shares [OF so me pu(2,1) refl, of "\<lambda>j. sh (signer participants j)" share]
  have "length participants < 2 ^ 16" using so by (simp add: session_ok_def)
  note eq = session_map [OF this, of S sh me]
  show ?thesis
  proof (cases "mset (share_senders S cbor (us @ vs)) = mset (other_signers participants me)")
    case True
    with sign_round2_delivery [OF so me d True vs m, of io] show ?thesis
      unfolding loop_def expected_def eq by simp
  next
    case False
    with sign_round2_waits [OF so me d False _ m, of io] io show ?thesis
      unfolding loop_def expected_def by simp
  qed
qed

lemma bt_same_ids:
  assumes "bt_wf m" and "bt_wf m'" and "\<And>k. bt_get k m = None \<longleftrightarrow> bt_get k m' = None"
  shows "same_ids m m'"
  unfolding same_ids_def
proof (rule sorted_distinct_set_unique)
  show "sorted (map fst m)" "sorted (map fst m')" "distinct (map fst m)" "distinct (map fst m')"
    using assms(1,2) by (simp_all add: bt_wf_def strict_sorted_iff)
  show "set (map fst m) = set (map fst m')" using assms(3) by (auto simp: bt_get_None_iff simp del: set_map) (metis list.set_map)+
qed

lemma session_same_ids:
  assumes so: "session_ok S participants me" and me: "sg_identifier S me = Some i"
  shows "same_ids (bt_insert i v (id_map (sg_identifier S) f (filter (\<lambda>u. u \<noteq> me) participants)))
    (id_map (sg_identifier S) (\<lambda>_. ()) participants)"
proof (rule bt_same_ids)
  from so have laws: "identifier_laws (sg_identifier S)" and m: "me \<in> set participants" by (simp_all add: session_ok_def)
  show "bt_get k (bt_insert i v (id_map (sg_identifier S) f (filter (\<lambda>u. u \<noteq> me) participants))) = None \<longleftrightarrow>
    bt_get k (id_map (sg_identifier S) (\<lambda>_. ()) participants) = None" for k
    using me m by (cases "k = i") (auto simp: id_map_None [OF laws])
qed simp_all

lemma send_share_incoming:
  assumes "\<And>k. io_feedback_done io k"
  shows "send_share S cbor share (io\<lparr>io_incoming := x\<rparr>) =
    bindR (send_share S cbor share io) (\<lambda>io'. Inr (io'\<lparr>io_incoming := x\<rparr>))"
  using assms
  by (cases "to_vec cbor (sg_ser_share S share)") (simp_all add: send_share_def send_def await_feedback_def Let_def)

lemma send_commitments_io:
  assumes "send_commitments S cbor participants c io = Inr io1"
  shows "io_incoming io1 = io_incoming io \<and> io_feedback_done io1 = io_feedback_done io"
  using assms by (auto simp: send_commitments_def send_def await_feedback_def Let_def split: if_splits)

text \<open>With a complete delivery the agent runs in lock step.\<close>

lemma signing_after_commitments:
  assumes so: "session_ok S participants (ks_identifier ks)"
    and d: "signing_delivery S cbor participants (ks_identifier ks) cm sh (io_incoming io)"
    and fb: "\<And>k. io_feedback_done io k"
    and kp: "load_key_package S ks = Inr (i, kp)" and c: "sg_commit S kp = (nonces, c)"
    and sc: "send_commitments S cbor participants c io = Inr io1"
  shows "run_signing S cbor ks participants message io =
    sign_synchronous S cbor ks participants message cm sh io"
proof -
  have me: "sg_identifier S (ks_identifier ks) = Some i" using kp by (auto simp: load_key_package_def)
  have laws: "identifier_laws (sg_identifier S)" and n: "length participants < 2 ^ 16" and z: "0 \<notin> set participants"
    using so by (simp_all add: session_ok_def)
  let ?others = "filter (\<lambda>u. u \<noteq> ks_identifier ks) participants"
  let ?expected = "id_map (sg_identifier S) (\<lambda>_. ()) participants"
  let ?coms = "bt_insert i c (id_map (sg_identifier S) cm ?others)"
  note defs = run_signing_def sign_synchronous_def Let_def kp c and p = signing_delivery_part [OF d]
  note io1 = send_commitments_io [OF sc]
  have "io1\<lparr>io_incoming := io_incoming io1\<rparr> = io1" by simp
  with sign_round1_delivery [OF so me p(1,2), of c io1] io1 obtain us vs r where
    ms: "io_incoming io = us @ vs" "filter (\<lambda>m. com_body S cbor m \<noteq> None) vs = []"
    and l1: "sign_round1_loop S cbor ?expected participants i c io1 = Inr (r, io1\<lparr>io_incoming := vs\<rparr>)"
    and r: "sr_commitments r = bt_insert i c (id_map (session_ident S participants)
      (\<lambda>j. cm (signer participants j)) (other_signers participants (ks_identifier ks)))"
    "sr_deferred r = id_map (session_ident S participants) (\<lambda>j. sh (signer participants j))
      (map pr_from (filter (\<lambda>m. com_body S cbor m = None) us))" by metis
  have r1: "sr_commitments r = ?coms" using r(1) by (simp add: session_map [OF n])
  have ids: "same_ids ?coms ?expected" "\<And>s. same_ids (bt_insert i s (id_map (sg_identifier S) sh ?others)) ?expected"
    by (rule session_same_ids [OF so me])+
  note defs = defs sc expected_participants_eq [OF laws z] l1 r1 ids
  show ?thesis
  proof (cases "sg_sign S (sg_signing_package S ?coms message) nonces kp")
    case None
    then show ?thesis by (simp add: defs del: bindR_eq_Inr)
  next
    case (Some share)
    show ?thesis
    proof (cases "send_share S cbor share io1")
      case (Inl e)
      with Some fb io1 show ?thesis by (simp add: defs send_share_incoming del: bindR_eq_Inr)
    next
      case (Inr io2)
      obtain r2 where "sign_round2_loop S cbor ?expected participants
          (merge_deferred ?expected (sr_deferred r) \<lparr>ss_shares = bt_insert i share [], ss_received = bt_insert i () []\<rparr>)
          (io2\<lparr>io_incoming := vs\<rparr>) = Inr (r2, io2\<lparr>io_incoming := []\<rparr>)"
        "ss_shares r2 = bt_insert i share (id_map (sg_identifier S) sh ?others)"
        using round2_merged [OF so me p(1) [unfolded ms(1)] ms(2)] p(3) unfolding r(2) ms(1) by (metis (no_types, lifting))
      with Some Inr fb io1 show ?thesis by (simp add: defs send_share_incoming del: bindR_eq_Inr)
    qed
  qed
qed

lemma run_signing_synchronous:
  assumes "session_ok S participants (ks_identifier ks)"
    and "signing_delivery S cbor participants (ks_identifier ks) cm sh (io_incoming io)"
    and "\<And>k. io_feedback_done io k"
  shows "run_signing S cbor ks participants message io =
    sign_synchronous S cbor ks participants message cm sh io"
proof (cases "load_key_package S ks")
  case (Inl e)
  then show ?thesis by (simp add: run_signing_def sign_synchronous_def)
next
  case (Inr x)
  then obtain i kp where kp: "load_key_package S ks = Inr (i, kp)" by (cases x) auto
  obtain nonces c where c: "sg_commit S kp = (nonces, c)" by fastforce
  show ?thesis
  proof (cases "send_commitments S cbor participants c io")
    case (Inl e)
    then show ?thesis by (simp add: run_signing_def sign_synchronous_def Let_def kp c)
  next
    case (Inr io1)
    from signing_after_commitments [OF assms kp c this] show ?thesis .
  qed
qed

text \<open>
  C6: signing refines its lock-step description. For every order in which the commitments
  and signature shares of the other signers arrive, shares before commitments included,
  the agent behaves exactly like the synchronous protocol: FROST signs the package with the
  commitments of all signers, the shares of all signers are aggregated, the same messages
  are sent, the result or error is the same, and no message is left over.
\<close>

theorem signing_refines_lock_step:
  assumes so: "session_ok S participants (ks_identifier ks)"
    and d: "signing_delivery S cbor participants (ks_identifier ks) cm sh (io_incoming io)"
    and fb: "\<And>k. io_feedback_done io k"
  shows "run_signing S cbor ks participants message io =
    sign_synchronous S cbor ks participants message cm sh io"
  using assms by (rule run_signing_synchronous)

text \<open>A suite over transparent values: commitments start with byte 1, shares with byte 2, and
  the signature lists the shares.\<close>

definition tagged :: "byte \<Rightarrow> bytes \<Rightarrow> bytes option" where
  "tagged t b = (if b \<noteq> [] \<and> hd b = t then Some b else None)"

definition plain_sign ::
    "(u16, bytes, bytes, bytes, u16, unit, bytes, bytes, bytes, bytes, bytes) sign_suite" where
  "plain_sign =
     \<lparr>sg_identifier = (\<lambda>u. if u = 0 then None else Some u), sg_signing_share = Some, sg_verifying_share = Some,
      sg_group_key = Some, sg_key_package = (\<lambda>i _ _ _ _. i), sg_commit = (\<lambda>i. ((), [1, ucast i])),
      sg_ser_com = Some, sg_de_com = tagged 1, sg_signing_package = (\<lambda>m msg. concat (map snd m) @ msg),
      sg_sign = (\<lambda>_ _ i. Some [2, ucast i]), sg_ser_share = (\<lambda>b. b), sg_de_share = tagged 2,
      sg_public_package = Some, sg_verifying_ids = (\<lambda>_. [1, 2, 3]),
      sg_aggregate = (\<lambda>_ m _. Some (concat (map snd m))), sg_verifying_key = (\<lambda>b. b),
      sg_verify = (\<lambda>_ _ s. length s mod 2 = 0), sg_ser_key = Some, sg_ser_sig = Some\<rparr>"

text \<open>Signer 3 of three; the share of signer 2 overtakes its commitment.\<close>

definition signing_deliveries :: "protocol_request list" where
  "signing_deliveries = [sample_request 2 None [2, 2], sample_request 1 None [1, 1],
     sample_request 2 None [1, 2], sample_request 1 None [2, 1]]"

theorem signing_refines_lock_step_witness:
  "\<exists>io'. run_signing plain_sign plain_serde sample_share [1, 2, 3] [7] (sample_io signing_deliveries) =
     Inr (\<lparr>sig_curve = Ed25519, sig_pub_key = [4], sig_signature = [2, 1, 2, 2, 2, 3]\<rparr>, io')"
proof -
  have "session_ok plain_sign [1, 2, 3] (ks_identifier sample_share)"
    by (simp add: session_ok_def identifier_laws_def plain_sign_def sample_share_def)
  moreover have "signing_delivery plain_sign plain_serde [1, 2, 3] (ks_identifier sample_share)
      (\<lambda>u. [1, ucast u]) (\<lambda>u. [2, ucast u]) (io_incoming (sample_io signing_deliveries))"
    by (simp add: signing_delivery_def sample_io_def signing_deliveries_def sample_request_def other_signers_def
        signer_def u16_range_def upt_rec com_body_def share_body_def plain_serde_def plain_sign_def tagged_def
        sample_share_def)
  moreover have "io_feedback_done (sample_io signing_deliveries) k" for k by (simp add: sample_io_def)
  ultimately have "run_signing plain_sign plain_serde sample_share [1, 2, 3] [7] (sample_io signing_deliveries) =
      sign_synchronous plain_sign plain_serde sample_share [1, 2, 3] [7] (\<lambda>u. [1, ucast u]) (\<lambda>u. [2, ucast u])
        (sample_io signing_deliveries)"
    by (rule signing_refines_lock_step)
  then show ?thesis
    by (simp add: sign_synchronous_def load_key_package_def send_commitments_def send_share_def send_def
        await_feedback_def finish_signature_def plain_sign_def plain_serde_def sample_share_def sample_io_def
        id_map_def del: bindR_eq_Inr)
qed

section \<open>What a finished signing has checked\<close>

text \<open>A signature that verifies under the group key for the message, aggregated from the shares
  of exactly the expected signers over a package with the commitments of exactly them, all
  of them known to the public key package of the share.\<close>

definition verified_signature ::
    "('id :: linorder, 'ss, 'vs, 'vk, 'kp, 'nonce, 'com, 'pkg, 'share, 'pkp, 'sig) sign_suite \<Rightarrow> key_share \<Rightarrow>
     u16 list \<Rightarrow> bytes \<Rightarrow> signature \<Rightarrow> bool" where
  "verified_signature S ks participants message s \<longleftrightarrow>
     (\<exists>expected coms shares pkp sig.
       expected_participants S [] participants = Inr expected \<and>
       same_ids coms expected \<and> same_ids shares expected \<and>
       sg_public_package S (ks_public_key_package ks) = Some pkp \<and>
       set (map fst shares) \<subseteq> set (sg_verifying_ids S pkp) \<and>
       sg_aggregate S (sg_signing_package S coms message) shares pkp = Some sig \<and>
       sg_verify S (sg_verifying_key S pkp) message sig \<and>
       sg_ser_sig S sig = Some (sig_signature s) \<and> sg_ser_key S (sg_verifying_key S pkp) = Some (sig_pub_key s) \<and>
       sig_curve s = ks_curve ks)"

lemma finish_signature_Inr:
  assumes "finish_signature S ks message package shares = Inr s"
  shows "\<exists>pkp sig. sg_public_package S (ks_public_key_package ks) = Some pkp \<and>
    set (map fst shares) \<subseteq> set (sg_verifying_ids S pkp) \<and> sg_aggregate S package shares pkp = Some sig \<and>
    sg_verify S (sg_verifying_key S pkp) message sig \<and> sg_ser_sig S sig = Some (sig_signature s) \<and>
    sg_ser_key S (sg_verifying_key S pkp) = Some (sig_pub_key s) \<and> sig_curve s = ks_curve ks"
  using assms by (fastforce simp: finish_signature_def list_all_iff split: if_splits)

lemma run_signing_verified:
  assumes "run_signing S cbor ks participants message io = Inr (s, io')"
  shows "verified_signature S ks participants message s"
proof -
  from assms obtain i kp where kp: "load_key_package S ks = Inr (i, kp)" by (auto simp: run_signing_def)
  obtain nonces c where "sg_commit S kp = (nonces, c)" by fastforce
  with assms kp obtain expected coms shares where
    e: "expected_participants S [] participants = Inr expected"
    and ids: "same_ids coms expected" "same_ids shares expected"
    and fin: "finish_signature S ks message (sg_signing_package S coms message) shares = Inr s"
    by (auto simp: run_signing_def Let_def split: if_splits)
  from finish_signature_Inr [OF fin] e ids show ?thesis unfolding verified_signature_def by blast
qed

text \<open>
  C5: a node never returns an unchecked signature. When the signing agent answers, whatever
  messages it received, the key share of the requested wallet gave the local node the
  identifier it signs with, and the answer encodes a signature of the requested message
  that verifies under the group key, aggregated from one share and one commitment of every
  member of the session and of nobody else.
\<close>

theorem keysign_answer_verified:
  assumes "keysign_compute E g d ps payload io = Inr (answer, io')"
  shows "\<exists>request ks parties s.
    decode_sign_payload (se_payload E) payload = Inr request \<and>
    read_key_share (se_share E) (ksign_path g) (sg_wallet_id request) d = Inr ks \<and>
    apply_key_share_participants (se_peers E) ps ks = Inr (parties, ks_identifier ks) \<and>
    verified_signature (se_suite E (ks_curve ks)) ks (signing_participants parties) (sg_message request) s \<and>
    to_vec (se_signature E) s = Some answer"
proof -
  from assms obtain request ks parties i s where
    r: "decode_sign_payload (se_payload E) payload = Inr request"
    "read_key_share (se_share E) (ksign_path g) (sg_wallet_id request) d = Inr ks"
    and a: "apply_key_share_participants (se_peers E) ps ks = Inr (parties, i)" "i = ks_identifier ks"
    and run: "run_signing (se_suite E (ks_curve ks)) (se_bytes E) ks (signing_participants parties)
      (sg_message request) io = Inr (s, io')"
    and t: "to_vec (se_signature E) s = Some answer"
    by (auto simp: keysign_compute_def split: prod.splits if_splits)
  from run_signing_verified [OF run] r a t show ?thesis by blast
qed

definition sample_signature :: signature where
  "sample_signature = \<lparr>sig_curve = Ed25519, sig_pub_key = [4], sig_signature = [2, 1, 2, 3]\<rparr>"

definition sample_keysign_env ::
    "(u16, bytes, bytes, bytes, u16, unit, bytes, bytes, bytes, bytes, bytes, byte) keysign_env" where
  "sample_keysign_env =
     \<lparr>se_suite = (\<lambda>_. plain_sign), se_bytes = plain_serde,
      se_payload = single_serde \<lparr>sg_wallet_id = code_points ''w1'', sg_message = [7]\<rparr> [5],
      se_share = single_serde sample_share [42], se_signature = single_serde sample_signature [9],
      se_peers = byte_peer_ops\<rparr>"

definition sample_share_disk :: share_disk where
  "sample_share_disk = [wallet_key_share_path ''data/key.share'' (code_points ''w1'') \<mapsto> [42]]"

lemma sample_keysign_compute:
  "\<exists>io'. keysign_compute sample_keysign_env (key_sign_new ''data/key.share'') sample_share_disk sample_signers [5]
     (sample_io [sample_request 1 None [1, 1], sample_request 1 None [2, 1]]) = Inr ([9], io')"
proof -
  have w: "normalize_wallet_id (code_points ''w1'') = code_points ''w1''"
    by (rule normalize_normal) (simp add: normal_id_def code_points_def MAX_WALLET_ID_LEN_def allowed_def
        is_ascii_alphanumeric_def)
  have rd: "read_key_share (se_share sample_keysign_env) ''data/key.share'' (code_points ''w1'') sample_share_disk =
      Inr sample_share"
    by (simp add: read_key_share_def sample_share_disk_def sample_keysign_env_def single_serde_def)
  have "apply_key_share_participants byte_peer_ops sample_signers sample_share =
      Inr (sample_signers\<lparr>parties := [0, 2]\<rparr>, 3)"
    by (simp add: apply_key_share_participants_def key_share_parties_for_peers_def sample_share_def sample_signers_def
        byte_peer_ops_def checked_dec_def)
  moreover have "\<exists>io'. run_signing plain_sign plain_serde sample_share [1, 3] [7]
      (sample_io [sample_request 1 None [1, 1], sample_request 1 None [2, 1]]) = Inr (sample_signature, io')"
    by (simp add: run_signing_def load_key_package_def send_commitments_def send_share_def send_def sample_request_def
        await_feedback_def finish_signature_def plain_sign_def plain_serde_def sample_share_def sample_io_def
        sign_round1_loop_def sign_round2_loop_def sign_round1_msg_def sign_round2_msg_def sender_of_def bt_get_def
        participant_identifier_for_session_index_def tagged_def same_ids_def sample_signature_def del: bindR_eq_Inr)
  moreover have "sg_message \<lparr>sg_wallet_id = code_points ''w1'', sg_message = [7]\<rparr> = [7]" by simp
  ultimately show ?thesis
    using rd by (auto simp: keysign_compute_def decode_sign_payload_def sample_keysign_env_def single_serde_def w
        key_sign_new_def signing_participants_def sample_share_def [THEN arg_cong [where f = ks_identifier]])
qed

theorem keysign_answer_verified_witness:
  "\<exists>parties s. verified_signature plain_sign sample_share (signing_participants parties) [7] s \<and>
     apply_key_share_participants byte_peer_ops sample_signers sample_share = Inr (parties, 3) \<and>
     to_vec (se_signature sample_keysign_env) s = Some [9]"
proof -
  obtain io' where c: "keysign_compute sample_keysign_env (key_sign_new ''data/key.share'') sample_share_disk
      sample_signers [5] (sample_io [sample_request 1 None [1, 1], sample_request 1 None [2, 1]]) = Inr ([9], io')"
    using sample_keysign_compute by blast
  from keysign_answer_verified [OF c] obtain request ks parties s where r:
    "decode_sign_payload (se_payload sample_keysign_env) [5] = Inr request"
    "read_key_share (se_share sample_keysign_env) ''data/key.share'' (sg_wallet_id request) sample_share_disk = Inr ks"
    "apply_key_share_participants byte_peer_ops sample_signers ks = Inr (parties, ks_identifier ks)"
    "verified_signature plain_sign ks (signing_participants parties) (sg_message request) s"
    "to_vec (se_signature sample_keysign_env) s = Some [9]"
    by (auto simp: sample_keysign_env_def key_sign_new_def)
  have "sg_message request = [7]" using r(1)
    by (auto simp: decode_sign_payload_def sample_keysign_env_def single_serde_def)
  moreover have "ks = sample_share" using r(2)
    by (auto simp: read_key_share_def sample_keysign_env_def single_serde_def split: if_splits)
  ultimately show ?thesis using r(3-5) by (auto simp: sample_share_def)
qed

end
