(* ===== verification/Factory.thy ===== *)
theory Factory
  imports Worker Keygen Keysign
begin

text \<open>
  \<open>tss/src/factory.rs\<close>: the factory that gives the worker its two protocol agents. The
  worker knows an agent by the protocol id it announces.
\<close>

record tss_factory =
  tf_key_path :: string
  tf_curve :: curve

definition tss_factory_new :: "string \<Rightarrow> curve \<Rightarrow> tss_factory" where
  "tss_factory_new key_path c = \<lparr>tf_key_path = key_path, tf_curve = c\<rparr>"

datatype tss_agent = KeyGenAgent key_gen | KeySignAgent key_sign

fun protocol_id_of :: "tss_agent \<Rightarrow> u64" where
  "protocol_id_of (KeyGenAgent _) = keygen_protocol_id"
| "protocol_id_of (KeySignAgent _) = keysign_protocol_id"

definition tss_make :: "tss_factory \<Rightarrow> u64 \<Rightarrow> service_error + tss_agent" where
  "tss_make f pid =
     (if pid = 0 then Inr (KeyGenAgent (key_gen_new (tf_key_path f) (tf_curve f)))
      else if pid = 1 then Inr (KeySignAgent (key_sign_new (tf_key_path f)))
      else Inl (UnknownProtocolId pid))"

definition tss_keysign :: "tss_factory \<Rightarrow> tss_agent" where
  "tss_keysign f = KeySignAgent (key_sign_new (tf_key_path f))"

definition tss_keygen :: "tss_factory \<Rightarrow> tss_agent" where
  "tss_keygen f = KeyGenAgent (key_gen_new (tf_key_path f) (tf_curve f))"

definition boxed :: "tss_agent \<Rightarrow> agent" where
  "boxed a = \<lparr>ag_protocol_id = protocol_id_of a\<rparr>"

text \<open>The factory as the worker sees it.\<close>

definition tss_agents :: "tss_factory \<Rightarrow> agent_factory" where
  "tss_agents f =
     \<lparr>af_make = (\<lambda>pid. bindR (tss_make f pid) (\<lambda>a. Inr (boxed a))),
      af_keygen = boxed (tss_keygen f), af_keysign = boxed (tss_keysign f)\<rparr>"

text \<open>What one node announces, another node of the same build accepts and answers with the same
  protocol; no other protocol id is accepted.\<close>

lemma tss_make_own:
  "tss_make f (protocol_id_of (tss_keygen g)) = Inr (tss_keygen f)"
  "tss_make f (protocol_id_of (tss_keysign g)) = Inr (tss_keysign f)"
  by (simp_all add: tss_make_def tss_keygen_def tss_keysign_def keygen_protocol_id_def keysign_protocol_id_def)

lemma tss_make_iff: "(\<exists>a. tss_make f pid = Inr a) \<longleftrightarrow> pid = 0 \<or> pid = 1"
  by (simp add: tss_make_def)

lemma af_make_protocol:
  "af_make (tss_agents f) pid = Inr a \<Longrightarrow> ag_protocol_id a = pid"
  by (auto simp: tss_agents_def boxed_def tss_make_def keygen_protocol_id_def keysign_protocol_id_def split: if_splits)

end
