(* ===== verification/Request_Responses.thy ===== *)
theory Request_Responses
  imports Network_Service "HOL-Library.AList" "HOL-Library.Multiset"
begin

text \<open>
  \<open>RequestResponsesBehaviour\<close> of \<open>network/src/request_responses.rs\<close>: the registered
  protocols, the outbound requests that await a reply, the inbound requests that await a
  response, and \<open>poll\<close>. The libp2p request-response behaviour of a protocol is outside:
  what its calls return (connected or not, the new request id, the events it yields) is an
  input, and the calls on it are effects. A \<open>oneshot\<close> sender that goes out of scope is
  the effect \<open>RrDrop\<close>, so that the fate of every channel is in the trace.
\<close>

section \<open>Protocols\<close>

text \<open>A \<open>ProtocolName\<close> is compared, hashed and looked up by its text, whichever of its two
  representations holds it.\<close>

datatype protocol_name = Static string | OnHeap string

fun pn_deref :: "protocol_name \<Rightarrow> string" where
  "pn_deref (Static name) = name"
| "pn_deref (OnHeap name) = name"

definition pn_eq :: "protocol_name \<Rightarrow> protocol_name \<Rightarrow> bool" where
  "pn_eq p q \<longleftrightarrow> pn_deref p = pn_deref q"

type_synonym pname = string

text \<open>The failures of the libp2p behaviour and their conversions.\<close>

datatype p2p_outbound_failure =
  P2pDialFailure | P2pTimeout | P2pConnectionClosed | P2pUnsupportedProtocols | P2pIo io_kind

definition outbound_failure_from :: "p2p_outbound_failure \<Rightarrow> outbound_failure" where
  "outbound_failure_from out =
     (case out of
        P2pDialFailure \<Rightarrow> DialFailure
      | P2pTimeout \<Rightarrow> OutTimeout
      | P2pConnectionClosed \<Rightarrow> OutConnectionClosed
      | P2pUnsupportedProtocols \<Rightarrow> OutUnsupportedProtocols
      | P2pIo e \<Rightarrow> OutIo e)"

datatype inbound_failure =
  InTimeout | InConnectionClosed | InUnsupportedProtocols | ResponseOmission | InIo io_kind

datatype p2p_inbound_failure =
    P2pInTimeout | P2pInConnectionClosed | P2pInUnsupportedProtocols | P2pResponseOmission
  | P2pInIo io_kind

definition inbound_failure_from :: "p2p_inbound_failure \<Rightarrow> inbound_failure" where
  "inbound_failure_from out =
     (case out of
        P2pResponseOmission \<Rightarrow> ResponseOmission
      | P2pInTimeout \<Rightarrow> InTimeout
      | P2pInConnectionClosed \<Rightarrow> InConnectionClosed
      | P2pInUnsupportedProtocols \<Rightarrow> InUnsupportedProtocols
      | P2pInIo e \<Rightarrow> InIo e)"

type_synonym queue = nat

record protocol_config =
  pc_name :: pname
  pc_fallback_names :: "pname list"
  pc_max_request_size :: u64
  pc_max_response_size :: u64
  pc_request_timeout :: nat
  pc_inbound_queue :: "queue option"

definition protocol_config_new :: "pname \<Rightarrow> queue option \<Rightarrow> protocol_config" where
  "protocol_config_new name inbound_queue =
     \<lparr>pc_name = name, pc_fallback_names = [], pc_max_request_size = 8 * 1024 * 1024,
      pc_max_response_size = 10 * 1024, pc_request_timeout = from_secs 30,
      pc_inbound_queue = inbound_queue\<rparr>"

definition should_connect :: "if_disconnected \<Rightarrow> bool" where
  "should_connect c = (case c of TryConnect \<Rightarrow> True | ImmediateError \<Rightarrow> False)"

text \<open>What a libp2p behaviour is created with.\<close>

datatype protocol_support = Full | Outbound

record p2p_behaviour =
  pb_codec :: generic_codec
  pb_protocols :: "(string \<times> protocol_support) list"
  pb_request_timeout :: nat

record protocol_details =
  pd_behaviour :: p2p_behaviour
  pd_inbound_queue :: "queue option"
  pd_request_timeout :: nat

section \<open>The state\<close>

type_synonym request_id = nat
type_synonym response_channel = nat
type_synonym protocol_request_id = "pname \<times> request_id"

record pending_request =
  pr_started_at :: instant
  pr_response_tx :: "oneshot option"
  pr_fallback_request :: "(bytes \<times> pname) option"

text \<open>An entry of \<open>pending_responses\<close> is the future that waits for the response builder; it
  is named by the oneshot it waits on.\<close>

record 'p pending_response =
  ps_rx :: oneshot
  ps_peer :: 'p
  ps_request_id :: request_id
  ps_protocol :: pname
  ps_channel :: response_channel

text \<open>
  The hash maps with an entry per request are association lists, so that \<open>retain\<close> visits
  their entries in some order; \<open>protocols\<close> is only looked up, and the order in which
  \<open>poll\<close> visits it is an argument there.
\<close>

record 'p rr_behaviour =
  rr_protocols :: "pname \<rightharpoonup> protocol_details"
  rr_pending_requests :: "(protocol_request_id \<times> pending_request) list"
  rr_pending_responses :: "'p pending_response list"
  rr_arrival_time :: "protocol_request_id \<rightharpoonup> instant"
  rr_send_feedback :: "protocol_request_id \<rightharpoonup> oneshot"
  rr_peer_store :: "'p \<Rightarrow> int"

datatype register_error = DuplicateProtocol pname

datatype response_failure = ResponseNetwork inbound_failure

datatype 'p rr_event =
    InboundRequest 'p pname "response_failure + nat"
  | RequestFinished 'p pname nat "request_failure + unit"
  | ReputationChanges 'p "int list"

datatype 'p rr_effect =
    RrSendRequest pname 'p wire_message request_id
  | RrSendResponse pname response_channel bytes
  | RrAnswer oneshot "request_failure + bytes \<times> pname"
  | RrDrop oneshot
  | RrIncoming queue "'p incoming_request"
  | RrFeedback oneshot
  | RrBridge oneshot 'p "receiver option"
  | RrTrySend "receiver option" "request_failure + 'p \<times> bytes"

text \<open>\<open>peer_store.rs\<close>: the threshold (a division of \<open>i32\<close> that truncates) and the store the
  node uses.\<close>

definition BANNED_THRESHOLD :: int where
  "BANNED_THRESHOLD = 71 * - (2 ^ 31 div 100)"

definition mock_peer_reputation :: "'p \<Rightarrow> int" where
  "mock_peer_reputation _ = 0"

definition protocol_behaviour :: "protocol_config \<Rightarrow> p2p_behaviour" where
  "protocol_behaviour protocol =
     \<lparr>pb_codec = \<lparr>max_request_size = pc_max_request_size protocol,
                   max_response_size = pc_max_response_size protocol\<rparr>,
      pb_protocols =
        map (\<lambda>name. (name, if pc_inbound_queue protocol \<noteq> None then Full else Outbound))
          (pc_name protocol # pc_fallback_names protocol),
      pb_request_timeout = pc_request_timeout protocol\<rparr>"

text \<open>The protocol names of the node are the names of its rooms, which begin with a slash, so
  the conversion of a name to a \<open>StreamProtocol\<close> does not panic.\<close>

fun register_protocols ::
    "protocol_config list \<Rightarrow> (pname \<rightharpoonup> protocol_details) \<Rightarrow>
     register_error + (pname \<rightharpoonup> protocol_details)" where
  "register_protocols [] protocols = Inr protocols"
| "register_protocols (protocol # list) protocols =
     (case protocols (pc_name protocol) of
        None \<Rightarrow>
          register_protocols list
            (protocols(pc_name protocol \<mapsto>
               \<lparr>pd_behaviour = protocol_behaviour protocol,
                pd_inbound_queue = pc_inbound_queue protocol,
                pd_request_timeout = pc_request_timeout protocol\<rparr>))
      | Some _ \<Rightarrow> Inl (DuplicateProtocol (pc_name protocol)))"

definition rr_new ::
    "protocol_config list \<Rightarrow> ('p \<Rightarrow> int) \<Rightarrow> register_error + 'p rr_behaviour" where
  "rr_new list peer_store =
     bindR (register_protocols list Map.empty) (\<lambda>protocols.
       Inr \<lparr>rr_protocols = protocols, rr_pending_requests = [], rr_pending_responses = [],
            rr_arrival_time = Map.empty, rr_send_feedback = Map.empty,
            rr_peer_store = peer_store\<rparr>)"

section \<open>Sending requests\<close>

text \<open>What the libp2p behaviour answers when a request is handed to it.\<close>

record send_env =
  se_now :: instant
  se_connected :: bool
  se_request_id :: request_id

text \<open>
  \<open>pending_requests.insert\<close> gives back the entry that the id had, whose sender is dropped
  then; the \<open>debug_assert!\<close> that there is none is compiled out of a release build.
\<close>

definition insert_pending ::
    "pname \<Rightarrow> request_id \<Rightarrow> pending_request \<Rightarrow> 'p rr_behaviour \<Rightarrow>
     'p rr_behaviour \<times> 'p rr_effect list" where
  "insert_pending p rid req s =
     (s\<lparr>rr_pending_requests := AList.update (p, rid) req (rr_pending_requests s)\<rparr>,
      case map_of (rr_pending_requests s) (p, rid) of
        None \<Rightarrow> []
      | Some prev \<Rightarrow> map RrDrop (opt_list (pr_response_tx prev)))"

definition compat_wire_message :: "bytes \<Rightarrow> wire_message" where
  "compat_wire_message request =
     \<lparr>wm_context = \<lparr>message_type = Computation, protocol_id = 0,
                      session_id = NO_SESSION_ID, message_id = 0\<rparr>,
      wm_payload = request, wm_is_broadcast = False\<rparr>"

definition send_request_inner ::
    "send_env \<Rightarrow> 'p \<Rightarrow> pname \<Rightarrow> bytes \<Rightarrow> (bytes \<times> pname) option \<Rightarrow> oneshot \<Rightarrow> if_disconnected \<Rightarrow>
     'p rr_behaviour \<Rightarrow> 'p rr_behaviour \<times> 'p rr_effect list" where
  "send_request_inner e target protocol_name request fallback_request pending_response connect s =
     (if se_connected e \<or> should_connect connect then
        let (s', dropped) =
          insert_pending protocol_name (se_request_id e)
            \<lparr>pr_started_at = se_now e, pr_response_tx = Some pending_response,
             pr_fallback_request = fallback_request\<rparr> s
        in (s', RrSendRequest protocol_name target (compat_wire_message request) (se_request_id e)
                # dropped)
      else (s, [RrAnswer pending_response (Inl NotConnected)]))"

definition rr_send_request ::
    "send_env \<Rightarrow> 'p \<Rightarrow> pname \<Rightarrow> bytes \<Rightarrow> (bytes \<times> pname) option \<Rightarrow> oneshot \<Rightarrow> if_disconnected \<Rightarrow>
     'p rr_behaviour \<Rightarrow> 'p rr_behaviour \<times> 'p rr_effect list" where
  "rr_send_request e target protocol_name request fallback_request pending_response connect s =
     (case rr_protocols s protocol_name of
        Some _ \<Rightarrow>
          send_request_inner e target protocol_name request fallback_request pending_response
            connect s
      | None \<Rightarrow> (s, [RrAnswer pending_response (Inl UnknownProtocol)]))"

text \<open>
  The bridge task waits for the oneshot \<open>tx\<close> and copies what arrives there to the caller's
  \<open>mpsc\<close> sender; a dropped \<open>tx\<close> ends it without a message. \<open>None\<close> in place of the sender
  is the dummy one of a broadcast without feedback, whose receiver is gone.
\<close>

definition bridge_task ::
    "'p \<Rightarrow> receiver option \<Rightarrow> (request_failure + bytes \<times> pname) option \<Rightarrow> 'p rr_effect list" where
  "bridge_task target pending_response received =
     (case received of
        None \<Rightarrow> []
      | Some (Inr (payload, _)) \<Rightarrow> [RrTrySend pending_response (Inr (target, payload))]
      | Some (Inl e) \<Rightarrow> [RrTrySend pending_response (Inl e)])"

definition send_request_with_context ::
    "send_env \<Rightarrow> oneshot \<Rightarrow> 'p \<Rightarrow> pname \<Rightarrow> message_context \<Rightarrow> bytes \<Rightarrow> bool \<Rightarrow> receiver option \<Rightarrow>
     if_disconnected \<Rightarrow> 'p rr_behaviour \<Rightarrow> 'p rr_behaviour \<times> 'p rr_effect list" where
  "send_request_with_context e tx target protocol_name ctx payload is_broadcast pending_response
     connect s =
     (let bridge = RrBridge tx target pending_response;
          wire_message = \<lparr>wm_context = ctx, wm_payload = payload, wm_is_broadcast = is_broadcast\<rparr>
      in case rr_protocols s protocol_name of
           Some _ \<Rightarrow>
             if se_connected e \<or> should_connect connect then
               let (s', dropped) =
                 insert_pending protocol_name (se_request_id e)
                   \<lparr>pr_started_at = se_now e, pr_response_tx = Some tx,
                    pr_fallback_request = None\<rparr> s
               in (s', bridge # RrSendRequest protocol_name target wire_message (se_request_id e)
                       # dropped)
             else (s, [bridge, RrTrySend pending_response (Inl NotConnected), RrDrop tx])
         | None \<Rightarrow> (s, [bridge, RrTrySend pending_response (Inl UnknownProtocol), RrDrop tx]))"

text \<open>Each target of a broadcast comes with what the behaviour answers for it and with the
  oneshot of its bridge.\<close>

fun rr_broadcast_message ::
    "('p \<times> send_env \<times> oneshot) list \<Rightarrow> pname \<Rightarrow> message_context \<Rightarrow> bytes \<Rightarrow> receiver option \<Rightarrow>
     if_disconnected \<Rightarrow> 'p rr_behaviour \<Rightarrow> 'p rr_behaviour \<times> 'p rr_effect list" where
  "rr_broadcast_message [] protocol_name ctx payload pending_response connect s = (s, [])"
| "rr_broadcast_message ((target, e, tx) # targets) protocol_name ctx payload pending_response
     connect s =
     (let (s1, effs1) =
            send_request_with_context e tx target protocol_name ctx payload True pending_response
              connect s;
          (s2, effs2) =
            rr_broadcast_message targets protocol_name ctx payload pending_response connect s1
      in (s2, effs1 @ effs2))"

section \<open>Polling\<close>

text \<open>What the libp2p behaviour of a protocol yields when it is polled.\<close>

datatype 'p p2p_event =
    P2pRequest 'p request_id wire_message response_channel
  | P2pResponse 'p request_id "unit + bytes"
  | P2pOutboundFailure 'p request_id p2p_outbound_failure
  | P2pInboundFailure 'p request_id p2p_inbound_failure
  | P2pResponseSent 'p request_id

datatype ('p, 'x) p2p_to_swarm = P2pGenerateEvent "'p p2p_event" | P2pDial 'x | P2pOther 'x

datatype ('p, 'x) rr_to_swarm = RrGenerateEvent "'p rr_event" | RrDial 'x | RrOther pname 'x

text \<open>
  With an event come the instant at which it is handled, the oneshot that is created for an
  inbound request, whether the response builder's queue takes it (it may be full or
  closed), and whether the receiver of the caller's oneshot still exists.
\<close>

record event_env =
  ee_now :: instant
  ee_tx :: oneshot
  ee_accepted :: bool
  ee_alive :: bool

text \<open>How a handler goes on: with the next event of the protocol, at the label \<open>'poll_all\<close>, or
  by returning from \<open>poll\<close>.\<close>

datatype ('p, 'x) control = PollNext | PollAgain | PollReturn "('p, 'x) rr_to_swarm"

text \<open>A fallback request that is to be sent: peer, protocol, request, the caller's channel.\<close>

type_synonym 'p fallback = "'p \<times> pname \<times> bytes \<times> oneshot"

text \<open>The periodic check, \<open>pending_requests.retain\<close>.\<close>

fun check_requests ::
    "instant \<Rightarrow> (pname \<rightharpoonup> protocol_details) \<Rightarrow> (protocol_request_id \<times> pending_request) list \<Rightarrow>
     (protocol_request_id \<times> pending_request) list \<times> 'p rr_effect list" where
  "check_requests now protocols [] = ([], [])"
| "check_requests now protocols ((i, req) # reqs) =
     (let (kept, effs) = check_requests now protocols reqs in
      case protocols (fst i) of
        None \<Rightarrow>
          (kept, map (\<lambda>tx. RrAnswer tx (Inl UnknownProtocol)) (opt_list (pr_response_tx req)) @ effs)
      | Some details \<Rightarrow>
          if pd_request_timeout details < now - pr_started_at req then
            (kept, map (\<lambda>tx. RrAnswer tx (Inl (Network OutTimeout)))
                     (opt_list (pr_response_tx req)) @ effs)
          else ((i, req) # kept, effs))"

definition poll_tick ::
    "instant option \<Rightarrow> 'p rr_behaviour \<Rightarrow> 'p rr_behaviour \<times> 'p rr_effect list" where
  "poll_tick tick s =
     (case tick of
        None \<Rightarrow> (s, [])
      | Some now \<Rightarrow>
          let (kept, effs) = check_requests now (rr_protocols s) (rr_pending_requests s)
          in (s\<lparr>rr_pending_requests := kept\<rparr>, effs))"

text \<open>
  The futures that are ready: the oneshot each waits on, what arrived there (\<open>None\<close> when
  its sender was dropped) and whether the behaviour takes the response.
\<close>

type_synonym ready_response = "oneshot \<times> outgoing_response option \<times> bool"

definition finish_response ::
    "'p pending_response \<Rightarrow> outgoing_response option \<Rightarrow> bool \<Rightarrow> 'p rr_behaviour \<Rightarrow>
     'p rr_behaviour \<times> 'p rr_effect list" where
  "finish_response ps outcome taken s =
     (case outcome of
        None \<Rightarrow> (s, [])
      | Some response \<Rightarrow>
          (case or_result response of
             Inl _ \<Rightarrow> (s, [])
           | Inr payload \<Rightarrow>
               (case rr_protocols s (ps_protocol ps) of
                  None \<Rightarrow> (s, [])
                | Some _ \<Rightarrow>
                    (if taken then
                       case or_sent_feedback response of
                         None \<Rightarrow> s
                       | Some fb \<Rightarrow>
                           s\<lparr>rr_send_feedback :=
                               (rr_send_feedback s)((ps_protocol ps, ps_request_id ps) \<mapsto> fb)\<rparr>
                     else s,
                     [RrSendResponse (ps_protocol ps) (ps_channel ps) payload]))))"

fun drain_responses ::
    "ready_response list \<Rightarrow> 'p rr_behaviour \<Rightarrow> 'p rr_behaviour \<times> 'p rr_effect list" where
  "drain_responses [] s = (s, [])"
| "drain_responses ((rx, outcome, taken) # ready) s =
     (case find (\<lambda>ps. ps_rx ps = rx) (rr_pending_responses s) of
        None \<Rightarrow> drain_responses ready s
      | Some ps \<Rightarrow>
          let s0 = s\<lparr>rr_pending_responses := remove1 ps (rr_pending_responses s)\<rparr>;
              (s1, effs1) = finish_response ps outcome taken s0;
              (s2, effs2) = drain_responses ready s1
          in (s2, effs1 @ effs2))"

text \<open>The handlers of \<open>poll_protocol\<close>, one for each event of the libp2p behaviour.\<close>

definition on_request ::
    "event_env \<Rightarrow> pname \<Rightarrow> protocol_details \<Rightarrow> 'p \<Rightarrow> request_id \<Rightarrow> wire_message \<Rightarrow>
     response_channel \<Rightarrow> 'p rr_behaviour \<Rightarrow>
     'p rr_behaviour \<times> 'p rr_effect list \<times> ('p, 'x) control" where
  "on_request e protocol details peer rid request channel s =
     (let s1 = s\<lparr>rr_arrival_time := (rr_arrival_time s)((protocol, rid) \<mapsto> ee_now e)\<rparr> in
      if rr_peer_store s peer < BANNED_THRESHOLD then (s1, [], PollNext)
      else
        (s1\<lparr>rr_pending_responses := rr_pending_responses s @
             [\<lparr>ps_rx = ee_tx e, ps_peer = peer, ps_request_id = rid, ps_protocol = protocol,
               ps_channel = channel\<rparr>]\<rparr>,
         (case pd_inbound_queue details of
            None \<Rightarrow> []
          | Some resp_builder \<Rightarrow>
              if ee_accepted e then
                [RrIncoming resp_builder
                   \<lparr>ir_context = wm_context request, ir_peer = peer, ir_peer_id = peer,
                    ir_is_broadcast = wm_is_broadcast request, ir_peer_index = 0,
                    ir_payload = wm_payload request, ir_pending_response = ee_tx e\<rparr>]
              else []),
         PollAgain))"

definition on_response ::
    "event_env \<Rightarrow> pname \<Rightarrow> 'p \<Rightarrow> request_id \<Rightarrow> unit + bytes \<Rightarrow> 'p rr_behaviour \<Rightarrow>
     'p rr_behaviour \<times> 'p rr_effect list \<times> ('p, 'x) control" where
  "on_response e protocol peer rid response s =
     (case map_of (rr_pending_requests s) (protocol, rid) of
        None \<Rightarrow> (s, [], PollNext)
      | Some req \<Rightarrow>
          let s' = s\<lparr>rr_pending_requests := AList.delete (protocol, rid) (rr_pending_requests s)\<rparr>
          in case pr_response_tx req of
               None \<Rightarrow> (s', [], PollNext)
             | Some tx \<Rightarrow>
                 (s',
                  [RrAnswer tx (case response of Inl _ \<Rightarrow> Inl Refused
                                | Inr resp \<Rightarrow> Inr (resp, protocol))],
                  PollReturn (RrGenerateEvent
                    (RequestFinished peer protocol (ee_now e - pr_started_at req)
                       (if ee_alive e then Inr () else Inl Obsolete)))))"

definition on_outbound_failure ::
    "event_env \<Rightarrow> pname \<Rightarrow> 'p \<Rightarrow> request_id \<Rightarrow> p2p_outbound_failure \<Rightarrow> 'p rr_behaviour \<Rightarrow>
     'p rr_behaviour \<times> 'p rr_effect list \<times> 'p fallback list \<times> ('p, 'x) control" where
  "on_outbound_failure e protocol peer rid err s =
     (let error = outbound_failure_from err in
      case map_of (rr_pending_requests s) (protocol, rid) of
        None \<Rightarrow> (s, [], [], PollNext)
      | Some req \<Rightarrow>
          let s' = s\<lparr>rr_pending_requests := AList.delete (protocol, rid) (rr_pending_requests s)\<rparr>
          in case pr_response_tx req of
               None \<Rightarrow> (s', [], [], PollNext)
             | Some tx \<Rightarrow>
                 (case (error, pr_fallback_request req) of
                    (OutUnsupportedProtocols, Some (fallback_request, fallback_protocol)) \<Rightarrow>
                      (s', [], [(peer, fallback_protocol, fallback_request, tx)], PollNext)
                  | _ \<Rightarrow>
                      (s', [RrAnswer tx (Inl (Network error))], [],
                       PollReturn (RrGenerateEvent
                         (RequestFinished peer protocol (ee_now e - pr_started_at req)
                            (Inl (Network error)))))))"

definition on_inbound_failure ::
    "pname \<Rightarrow> 'p \<Rightarrow> request_id \<Rightarrow> p2p_inbound_failure \<Rightarrow> 'p rr_behaviour \<Rightarrow>
     'p rr_behaviour \<times> ('p, 'x) control" where
  "on_inbound_failure protocol peer rid err s =
     (s\<lparr>rr_arrival_time := (rr_arrival_time s)((protocol, rid) := None),
        rr_send_feedback := (rr_send_feedback s)((protocol, rid) := None)\<rparr>,
      PollReturn (RrGenerateEvent
        (InboundRequest peer protocol (Inl (ResponseNetwork (inbound_failure_from err))))))"

definition on_response_sent ::
    "event_env \<Rightarrow> pname \<Rightarrow> 'p \<Rightarrow> request_id \<Rightarrow> 'p rr_behaviour \<Rightarrow>
     (anyhow, 'p rr_behaviour \<times> 'p rr_effect list \<times> ('p, 'x) control) res" where
  "on_response_sent e protocol peer rid s =
     (case rr_arrival_time s (protocol, rid) of
        None \<Rightarrow> Inl (Panic ''Time is added for each inbound request on arrival'')
      | Some t \<Rightarrow>
          Inr (s\<lparr>rr_arrival_time := (rr_arrival_time s)((protocol, rid) := None),
                 rr_send_feedback := (rr_send_feedback s)((protocol, rid) := None)\<rparr>,
               map RrFeedback (opt_list (rr_send_feedback s (protocol, rid))),
               PollReturn (RrGenerateEvent
                 (InboundRequest peer protocol (Inr (ee_now e - t))))))"

definition on_p2p_event ::
    "event_env \<Rightarrow> pname \<Rightarrow> protocol_details \<Rightarrow> 'p p2p_event \<Rightarrow> 'p rr_behaviour \<Rightarrow>
     (anyhow, 'p rr_behaviour \<times> 'p rr_effect list \<times> 'p fallback list \<times> ('p, 'x) control) res" where
  "on_p2p_event e protocol details ev s =
     (case ev of
        P2pRequest peer rid request channel \<Rightarrow>
          let (s', effs, c) = on_request e protocol details peer rid request channel s
          in Inr (s', effs, [], c)
      | P2pResponse peer rid response \<Rightarrow>
          let (s', effs, c) = on_response e protocol peer rid response s in Inr (s', effs, [], c)
      | P2pOutboundFailure peer rid err \<Rightarrow> Inr (on_outbound_failure e protocol peer rid err s)
      | P2pInboundFailure peer rid err \<Rightarrow>
          let (s', c) = on_inbound_failure protocol peer rid err s in Inr (s', [], [], c)
      | P2pResponseSent peer rid \<Rightarrow>
          bindR (on_response_sent e protocol peer rid s) (\<lambda>(s', effs, c). Inr (s', effs, [], c)))"

text \<open>
  The calls of \<open>behaviour.poll\<close> return in turn the elements of the list \<open>polled\<close>, where
  \<open>None\<close> is \<open>Pending\<close>, and \<open>Pending\<close> when it is exhausted.
\<close>

type_synonym ('p, 'x) polled = "(event_env \<times> ('p, 'x) p2p_to_swarm) option"

fun poll_protocol ::
    "pname \<Rightarrow> protocol_details \<Rightarrow> ('p, 'x) polled list \<Rightarrow> 'p rr_behaviour \<Rightarrow>
     (anyhow, 'p rr_behaviour \<times> 'p rr_effect list \<times> 'p fallback list \<times> ('p, 'x) control \<times>
              ('p, 'x) polled list) res" where
  "poll_protocol protocol details [] s = Inr (s, [], [], PollNext, [])"
| "poll_protocol protocol details (None # polled) s = Inr (s, [], [], PollNext, polled)"
| "poll_protocol protocol details (Some (e, ev) # polled) s =
     (case ev of
        P2pDial opts \<Rightarrow> Inr (s, [], [], PollReturn (RrDial opts), polled)
      | P2pOther event \<Rightarrow> Inr (s, [], [], PollReturn (RrOther protocol event), polled)
      | P2pGenerateEvent ev \<Rightarrow>
          bindR (on_p2p_event e protocol details ev s) (\<lambda>(s1, effs1, fbs1, c1).
            case c1 of
              PollNext \<Rightarrow>
                bindR (poll_protocol protocol details polled s1) (\<lambda>(s2, effs2, fbs2, c2, rest).
                  Inr (s2, effs1 @ effs2, fbs1 @ fbs2, c2, rest))
            | _ \<Rightarrow> Inr (s1, effs1, fbs1, c1, polled)))"

text \<open>The list of names is the order in which the hash map yields its entries.\<close>

fun poll_protocols ::
    "pname list \<Rightarrow> ('p, 'x) polled list \<Rightarrow> 'p rr_behaviour \<Rightarrow>
     (anyhow, 'p rr_behaviour \<times> 'p rr_effect list \<times> 'p fallback list \<times> ('p, 'x) control) res" where
  "poll_protocols [] polled s = Inr (s, [], [], PollNext)"
| "poll_protocols (protocol # order) polled s =
     (case rr_protocols s protocol of
        None \<Rightarrow> poll_protocols order polled s
      | Some details \<Rightarrow>
          bindR (poll_protocol protocol details polled s) (\<lambda>(s1, effs1, fbs1, c1, rest).
            case c1 of
              PollNext \<Rightarrow>
                bindR (poll_protocols order rest s1) (\<lambda>(s2, effs2, fbs2, c2).
                  Inr (s2, effs1 @ effs2, fbs1 @ fbs2, c2))
            | _ \<Rightarrow> Inr (s1, effs1, fbs1, c1)))"

fun send_fallbacks ::
    "(nat \<Rightarrow> send_env) \<Rightarrow> 'p fallback list \<Rightarrow> 'p rr_behaviour \<Rightarrow>
     'p rr_behaviour \<times> 'p rr_effect list" where
  "send_fallbacks env [] s = (s, [])"
| "send_fallbacks env ((peer, protocol, request, pending_response) # fallbacks) s =
     (let (s1, effs1) =
            (case rr_protocols s protocol of
               None \<Rightarrow> (s, [RrDrop pending_response])
             | Some _ \<Rightarrow>
                 send_request_inner (env 0) peer protocol request None pending_response
                   ImmediateError s);
          (s2, effs2) = send_fallbacks (env \<circ> Suc) fallbacks s1
      in (s2, effs1 @ effs2))"

text \<open>
  The inputs of one round of the loop \<open>'poll_all\<close>: the tick of the periodic check when it
  is due, the responses that are ready, what the behaviours yield, and what they answer to
  the fallback requests. The list of fallback requests is local to the round, so its
  channels are dropped when the round ends early.
\<close>

record ('p, 'x) poll_round =
  po_tick :: "instant option"
  po_ready :: "ready_response list"
  po_polled :: "('p, 'x) polled list"
  po_send :: "nat \<Rightarrow> send_env"

definition fallback_tx :: "'p fallback \<Rightarrow> oneshot" where
  "fallback_tx f = (case f of (_, _, _, tx) \<Rightarrow> tx)"

definition rr_poll_round ::
    "pname list \<Rightarrow> ('p, 'x) poll_round \<Rightarrow> 'p rr_behaviour \<Rightarrow>
     (anyhow, 'p rr_behaviour \<times> 'p rr_effect list \<times> ('p, 'x) control) res" where
  "rr_poll_round order r s =
     (let (s1, effs1) = poll_tick (po_tick r) s;
          (s2, effs2) = drain_responses (po_ready r) s1
      in bindR (poll_protocols order (po_polled r) s2) (\<lambda>(s3, effs3, fallbacks, c).
           case c of
             PollNext \<Rightarrow>
               let (s4, effs4) = send_fallbacks (po_send r) fallbacks s3
               in Inr (s4, effs1 @ effs2 @ effs3 @ effs4, PollNext)
           | _ \<Rightarrow>
               Inr (s3, effs1 @ effs2 @ effs3 @ map (RrDrop \<circ> fallback_tx) fallbacks, c)))"

text \<open>\<open>poll\<close>: \<open>None\<close> is \<open>Poll::Pending\<close>. A round for which the list has no input is one in which
  nothing is ready, and it changes nothing.\<close>

fun rr_poll ::
    "pname list \<Rightarrow> ('p, 'x) poll_round list \<Rightarrow> 'p rr_behaviour \<Rightarrow>
     (anyhow, 'p rr_behaviour \<times> 'p rr_effect list \<times> ('p, 'x) rr_to_swarm option) res" where
  "rr_poll order [] s = Inr (s, [], None)"
| "rr_poll order (r # rs) s =
     bindR (rr_poll_round order r s) (\<lambda>(s1, effs1, c).
       case c of
         PollNext \<Rightarrow> Inr (s1, effs1, None)
       | PollReturn out \<Rightarrow> Inr (s1, effs1, Some out)
       | PollAgain \<Rightarrow>
           bindR (rr_poll order rs s1) (\<lambda>(s2, effs2, out). Inr (s2, effs1 @ effs2, out)))"

section \<open>The other methods of the behaviour\<close>

text \<open>
  A pending connection is never refused. An established one gets a handler from every
  protocol whose behaviour gives one, under the protocol's name; events of the swarm go to
  every protocol, those of a connection to the one that is named.
\<close>

definition rr_handle_pending_outbound_connection :: "'d + 'p list" where
  "rr_handle_pending_outbound_connection = Inr []"

definition established_handlers ::
    "pname list \<Rightarrow> (pname \<Rightarrow> 'd + 'h) \<Rightarrow> 'p rr_behaviour \<Rightarrow> (pname \<times> 'h) list" where
  "established_handlers order handler s =
     List.map_filter (\<lambda>p. case (rr_protocols s p, handler p) of
                            (Some _, Inr h) \<Rightarrow> Some (p, h) | _ \<Rightarrow> None) order"

definition rr_on_swarm_event :: "pname list \<Rightarrow> 'x \<Rightarrow> 'p rr_behaviour \<Rightarrow> (pname \<times> 'x) list" where
  "rr_on_swarm_event order event s =
     map (\<lambda>p. (p, event)) (filter (\<lambda>p. rr_protocols s p \<noteq> None) order)"

definition rr_on_connection_handler_event :: "pname \<Rightarrow> 'x \<Rightarrow> 'p rr_behaviour \<Rightarrow> (pname \<times> 'x) list" where
  "rr_on_connection_handler_event p event s =
     (case rr_protocols s p of Some _ \<Rightarrow> [(p, event)] | None \<Rightarrow> [])"

text \<open>The handlers are under different names, which is why building the \<open>MultiHandler\<close> cannot
  meet a duplicate.\<close>

lemma established_handlers_subset:
  "set (map fst (established_handlers order handler s)) \<subseteq> set order"
  by (induction order)
    (auto simp: established_handlers_def List.map_filter_simps split: option.splits sum.splits)

lemma established_handlers_distinct:
  "distinct order \<Longrightarrow> distinct (map fst (established_handlers order handler s))"
proof (induction order)
  case (Cons p order)
  with established_handlers_subset [of order handler s] show ?case
    by (auto simp: established_handlers_def List.map_filter_simps split: option.splits sum.splits)
qed (simp add: established_handlers_def List.map_filter_simps)

section \<open>The behaviour's calls as a system\<close>

text \<open>
  The swarm calls the operations one after the other. \<open>step\<close> may stop with a panic; the
  locale states what it means that no response channel is duplicated or lost: the channels
  a state holds and those an operation answers or drops are the ones it held before and the
  ones the operation was given.
\<close>

fun run_calls ::
    "('s \<Rightarrow> 'o \<Rightarrow> ('e, 's \<times> 'f list) res) \<Rightarrow> 's \<Rightarrow> 'o list \<Rightarrow> ('e, 's \<times> 'f list) res" where
  "run_calls step s [] = Inr (s, [])"
| "run_calls step s (c # cs) =
     bindR (step s c) (\<lambda>(s1, effs1).
       bindR (run_calls step s1 cs) (\<lambda>(s2, effs2). Inr (s2, effs1 @ effs2)))"

locale linear_channels =
  fixes step :: "'s \<Rightarrow> 'o \<Rightarrow> ('e, 's \<times> 'f list) res"
    and inv :: "'s \<Rightarrow> bool"
    and owned :: "'s \<Rightarrow> oneshot multiset"
    and settled :: "'f list \<Rightarrow> oneshot multiset"
    and given :: "'o \<Rightarrow> oneshot multiset"
  assumes step_inv: "inv s \<Longrightarrow> step s c = Inr (s', effs) \<Longrightarrow> inv s'"
    and step_linear: "inv s \<Longrightarrow> step s c = Inr (s', effs) \<Longrightarrow>
      owned s' + settled effs = owned s + given c"
    and settled_nil: "settled [] = {#}"
    and settled_append: "settled (xs @ ys) = settled xs + settled ys"
begin

lemma run_inv:
  "inv s \<Longrightarrow> run_calls step s cs = Inr (s', effs) \<Longrightarrow> inv s'"
  by (induction cs arbitrary: s effs) (auto simp: bindR_eq_Inr dest: step_inv)

lemma run_linear:
  "inv s \<Longrightarrow> run_calls step s cs = Inr (s', effs) \<Longrightarrow>
   owned s' + settled effs = owned s + sum_list (map given cs)"
proof (induction cs arbitrary: s effs)
  case Nil
  then show ?case by (simp add: settled_nil)
next
  case (Cons c cs)
  then obtain s1 effs1 effs2 where 1: "step s c = Inr (s1, effs1)"
    and 2: "run_calls step s1 cs = Inr (s', effs2)" and e: "effs = effs1 @ effs2"
    by (auto simp: bindR_eq_Inr)
  have "owned s' + settled effs2 = owned s1 + sum_list (map given cs)"
    by (rule Cons.IH [OF step_inv [OF Cons.prems(1) 1] 2])
  with step_linear [OF Cons.prems(1) 1] show ?case
    by (simp add: e settled_append) (metis add.assoc add.commute)
qed

end

text \<open>
  A relation between the states before and after a part of \<open>poll\<close>, with the effects and the
  fallback requests of the part, holds of every call of \<open>poll\<close> when the handlers establish
  it, it composes, and it survives the end of a round, early or regular. \<open>I\<close> is what it needs
  of the state before.
\<close>

locale poll_relation =
  fixes I :: "'p rr_behaviour \<Rightarrow> bool"
    and R :: "'p rr_behaviour \<Rightarrow> 'p rr_behaviour \<Rightarrow> 'p rr_effect list \<Rightarrow> 'p fallback list \<Rightarrow> bool"
    and out_type :: "('p, 'x) control itself"
  assumes rel_refl: "I s \<Longrightarrow> R s s [] []"
    and rel_trans: "R s s1 effs1 fbs1 \<Longrightarrow> R s1 s2 effs2 fbs2 \<Longrightarrow> R s s2 (effs1 @ effs2) (fbs1 @ fbs2)"
    and rel_keep: "I s \<Longrightarrow> R s s' effs fbs \<Longrightarrow> I s'"
    and rel_tick: "I s \<Longrightarrow> poll_tick tick s = (s', effs) \<Longrightarrow> R s s' effs []"
    and rel_unlink: "I s \<Longrightarrow> R s (s\<lparr>rr_pending_responses := pending\<rparr>) [] []"
    and rel_finish: "I s \<Longrightarrow> finish_response ps outcome taken s = (s', effs) \<Longrightarrow> R s s' effs []"
    and rel_event: "I s \<Longrightarrow>
      on_p2p_event e p d ev s = Inr (s', effs, fbs, c :: ('p, 'x) control) \<Longrightarrow> R s s' effs fbs"
    and rel_lost: "I s \<Longrightarrow> R s s' effs fbs \<Longrightarrow> R s s' (effs @ map (RrDrop \<circ> fallback_tx) fbs) []"
    and rel_sent: "I s \<Longrightarrow> R s s' effs fbs \<Longrightarrow> send_fallbacks env fbs s' = (s2, effs2) \<Longrightarrow>
      R s s2 (effs @ effs2) []"
begin

lemma drain_responses_rel: "I s \<Longrightarrow> drain_responses ready s = (s', effs) \<Longrightarrow> R s s' effs []"
proof (induction ready s arbitrary: s' effs rule: drain_responses.induct)
  case (1 s)
  then show ?case by (simp add: rel_refl)
next
  case (2 rx outcome taken ready s)
  show ?case
  proof (cases "find (\<lambda>ps. ps_rx ps = rx) (rr_pending_responses s)")
    case None
    with 2 show ?thesis by simp
  next
    case (Some ps)
    let ?s0 = "s\<lparr>rr_pending_responses := remove1 ps (rr_pending_responses s)\<rparr>"
    obtain s1 effs1 where 1: "finish_response ps outcome taken ?s0 = (s1, effs1)" by fastforce
    obtain effs2 where 3: "drain_responses ready s1 = (s', effs2)" and e: "effs = effs1 @ effs2"
      using 2(4) Some 1 by (auto split: prod.splits)
    have u: "R s ?s0 [] []" by (rule rel_unlink [OF 2(3)])
    from rel_trans [OF u rel_finish [OF rel_keep [OF 2(3) u] 1]] have m: "R s s1 effs1 []" by simp
    have "R s1 s' effs2 []"
      by (rule 2(2) [OF Some refl _ _ rel_keep [OF 2(3) m] 3]) (simp_all add: 1)
    from rel_trans [OF m this] show ?thesis by (simp add: e)
  qed
qed

lemma poll_protocol_rel:
  fixes polled :: "('p, 'x) polled list"
  shows "I s \<Longrightarrow> poll_protocol p d polled s = Inr (s', effs, fbs, c, rest) \<Longrightarrow> R s s' effs fbs"
proof (induction p d polled s arbitrary: s' effs fbs c rest rule: poll_protocol.induct)
  case (3 p d e ev polled s)
  show ?case
  proof (cases ev)
    case (P2pGenerateEvent g)
    with 3(3) obtain s1 effs1 fbs1 and c1 :: "('p, 'x) control" where
      g: "on_p2p_event e p d g s = Inr (s1, effs1, fbs1, c1)" by auto
    have m: "R s s1 effs1 fbs1" by (rule rel_event [OF 3(2) g])
    show ?thesis
    proof (cases c1)
      case PollNext
      with 3(3) P2pGenerateEvent g obtain effs2 fbs2 where
        r: "poll_protocol p d polled s1 = Inr (s', effs2, fbs2, c, rest)"
        and e: "effs = effs1 @ effs2" "fbs = fbs1 @ fbs2" by auto
      have "R s1 s' effs2 fbs2"
        using 3(1) [OF P2pGenerateEvent g refl refl refl PollNext rel_keep [OF 3(2) m] r] .
      from rel_trans [OF m this] show ?thesis by (simp add: e)
    qed (use 3(3) P2pGenerateEvent g m in auto)
  qed (use 3 in \<open>auto simp: rel_refl\<close>)
qed (auto simp: rel_refl)

lemma poll_protocols_rel:
  fixes polled :: "('p, 'x) polled list"
  shows "I s \<Longrightarrow> poll_protocols order polled s = Inr (s', effs, fbs, c) \<Longrightarrow> R s s' effs fbs"
proof (induction order polled s arbitrary: s' effs fbs c rule: poll_protocols.induct)
  case (1 polled s)
  then show ?case by (simp add: rel_refl)
next
  case (2 p order polled s)
  show ?case
  proof (cases "rr_protocols s p")
    case None
    with 2 show ?thesis by simp
  next
    case (Some d)
    with 2(4) obtain s1 effs1 fbs1 rest and c1 :: "('p, 'x) control" where
      g: "poll_protocol p d polled s = Inr (s1, effs1, fbs1, c1, rest)" by auto
    have m: "R s s1 effs1 fbs1" by (rule poll_protocol_rel [OF 2(3) g])
    show ?thesis
    proof (cases c1)
      case PollNext
      with 2(4) Some g obtain effs2 fbs2 where
        r: "poll_protocols order rest s1 = Inr (s', effs2, fbs2, c)"
        and e: "effs = effs1 @ effs2" "fbs = fbs1 @ fbs2" by auto
      have "R s1 s' effs2 fbs2"
        using 2(2) [OF Some g refl refl refl refl PollNext rel_keep [OF 2(3) m] r] .
      from rel_trans [OF m this] show ?thesis by (simp add: e)
    qed (use 2(4) Some g m in auto)
  qed
qed

lemma rr_poll_round_rel:
  fixes r :: "('p, 'x) poll_round"
  assumes "I s" and "rr_poll_round order r s = Inr (s', effs, c)"
  shows "R s s' effs []"
proof -
  obtain s1 effs1 where 1: "poll_tick (po_tick r) s = (s1, effs1)" by fastforce
  obtain s2 effs2 where 2: "drain_responses (po_ready r) s1 = (s2, effs2)" by fastforce
  from assms(2) 1 2 obtain s3 effs3 fbs and c3 :: "('p, 'x) control" where
    3: "poll_protocols order (po_polled r) s2 = Inr (s3, effs3, fbs, c3)"
    by (auto simp: rr_poll_round_def)
  have m1: "R s s1 effs1 []" by (rule rel_tick [OF assms(1) 1])
  note i1 = rel_keep [OF assms(1) m1]
  have m2: "R s1 s2 effs2 []" by (rule drain_responses_rel [OF i1 2])
  have "R s2 s3 effs3 fbs" by (rule poll_protocols_rel [OF rel_keep [OF i1 m2] 3])
  from rel_trans [OF m1 rel_trans [OF m2 this]]
  have m: "R s s3 (effs1 @ effs2 @ effs3) fbs" by simp
  show ?thesis
  proof (cases c3)
    case PollNext
    obtain s4 effs4 where 4: "send_fallbacks (po_send r) fbs s3 = (s4, effs4)" by fastforce
    from rel_sent [OF assms(1) m 4] assms(2) 1 2 3 4 PollNext show ?thesis
      by (auto simp: rr_poll_round_def)
  qed (use rel_lost [OF assms(1) m] assms(2) 1 2 3 in \<open>auto simp: rr_poll_round_def\<close>)
qed

lemma rr_poll_rel:
  fixes rs :: "('p, 'x) poll_round list"
  shows "I s \<Longrightarrow> rr_poll order rs s = Inr (s', effs, out) \<Longrightarrow> R s s' effs []"
proof (induction rs arbitrary: s effs)
  case Nil
  then show ?case by (simp add: rel_refl)
next
  case (Cons r rs)
  then obtain s1 effs1 and c :: "('p, 'x) control" where
    r: "rr_poll_round order r s = Inr (s1, effs1, c)" by auto
  have m: "R s s1 effs1 []" by (rule rr_poll_round_rel [OF Cons.prems(1) r])
  show ?case
  proof (cases c)
    case PollAgain
    with Cons.prems(2) r obtain effs2 where
      2: "rr_poll order rs s1 = Inr (s', effs2, out)" and e: "effs = effs1 @ effs2" by auto
    from rel_trans [OF m Cons.IH [OF rel_keep [OF Cons.prems(1) m] 2]] show ?thesis
      by (simp add: e)
  qed (use Cons.prems(2) r m in auto)
qed

end

datatype ('p, 'x) rr_call =
    CallSendRequest send_env 'p pname bytes "(bytes \<times> pname) option" oneshot if_disconnected
  | CallSendWithContext send_env oneshot 'p pname message_context bytes bool "receiver option"
      if_disconnected
  | CallBroadcast "('p \<times> send_env \<times> oneshot) list" pname message_context bytes
      "receiver option" if_disconnected
  | CallPoll "pname list" "('p, 'x) poll_round list"

definition rr_step ::
    "'p rr_behaviour \<Rightarrow> ('p, 'x) rr_call \<Rightarrow> (anyhow, 'p rr_behaviour \<times> 'p rr_effect list) res" where
  "rr_step s c =
     (case c of
        CallSendRequest e target p request fallback tx connect \<Rightarrow>
          Inr (rr_send_request e target p request fallback tx connect s)
      | CallSendWithContext e tx target p ctx payload bc pending_response connect \<Rightarrow>
          Inr (send_request_with_context e tx target p ctx payload bc pending_response connect s)
      | CallBroadcast targets p ctx payload pending_response connect \<Rightarrow>
          Inr (rr_broadcast_message targets p ctx payload pending_response connect s)
      | CallPoll order rounds \<Rightarrow>
          bindR (rr_poll order rounds s) (\<lambda>(s', effs, _). Inr (s', effs)))"

fun given_tx :: "('p, 'x) rr_call \<Rightarrow> oneshot multiset" where
  "given_tx (CallSendRequest e target p request fallback tx connect) = {#tx#}"
| "given_tx (CallSendWithContext e tx target p ctx payload bc recv connect) = {#tx#}"
| "given_tx (CallBroadcast targets p ctx payload recv connect) =
     mset (map (\<lambda>(target, e, tx). tx) targets)"
| "given_tx (CallPoll order rounds) = {#}"

definition request_txs :: "(protocol_request_id \<times> pending_request) list \<Rightarrow> oneshot multiset" where
  "request_txs reqs = mset (concat (map (\<lambda>(i, req). opt_list (pr_response_tx req)) reqs))"

definition owned_tx :: "'p rr_behaviour \<Rightarrow> oneshot multiset" where
  "owned_tx s = request_txs (rr_pending_requests s)"

fun settled_tx :: "'p rr_effect \<Rightarrow> oneshot list" where
  "settled_tx (RrAnswer tx r) = [tx]"
| "settled_tx (RrDrop tx) = [tx]"
| "settled_tx _ = []"

definition settled_txs :: "'p rr_effect list \<Rightarrow> oneshot multiset" where
  "settled_txs effs = mset (concat (map settled_tx effs))"

definition fallback_txs :: "'p fallback list \<Rightarrow> oneshot multiset" where
  "fallback_txs fbs = mset (map fallback_tx fbs)"

text \<open>Request ids are keys, and no entry has lost its channel.\<close>

definition requests_wf :: "(protocol_request_id \<times> pending_request) list \<Rightarrow> bool" where
  "requests_wf reqs \<longleftrightarrow>
     distinct (map fst reqs) \<and> (\<forall>(i, req) \<in> set reqs. pr_response_tx req \<noteq> None)"

definition rr_inv :: "'p rr_behaviour \<Rightarrow> bool" where
  "rr_inv s \<longleftrightarrow> requests_wf (rr_pending_requests s)"

section \<open>No channel is lost\<close>

lemma settled_txs_simps [simp]:
  "settled_txs [] = {#}"
  "settled_txs (e # effs) = mset (settled_tx e) + settled_txs effs"
  "settled_txs (xs @ ys) = settled_txs xs + settled_txs ys"
  by (simp_all add: settled_txs_def)

lemma settled_txs_answers [simp]: "settled_txs (map (\<lambda>tx. RrAnswer tx r) txs) = mset txs"
  by (induction txs) simp_all

lemma settled_txs_drops [simp]: "settled_txs (map RrDrop txs) = mset txs"
  by (induction txs) simp_all

lemma settled_txs_fallbacks [simp]:
  "settled_txs (map (RrDrop \<circ> fallback_tx) fbs) = fallback_txs fbs"
  by (induction fbs) (simp_all add: fallback_txs_def)

lemma fallback_txs_simps [simp]:
  "fallback_txs [] = {#}"
  "fallback_txs ((peer, p, request, tx) # fbs) = {#tx#} + fallback_txs fbs"
  "fallback_txs (xs @ ys) = fallback_txs xs + fallback_txs ys"
  by (simp_all add: fallback_txs_def fallback_tx_def)

lemma settled_txs_feedback [simp]: "settled_txs (map RrFeedback txs) = {#}"
  by (induction txs) simp_all

lemma request_txs_simps [simp]:
  "request_txs [] = {#}"
  "request_txs ((i, req) # reqs) = mset (opt_list (pr_response_tx req)) + request_txs reqs"
  by (simp_all add: request_txs_def)

lemma request_txs_delete:
  assumes "distinct (map fst reqs)" and "map_of reqs k = Some req"
  shows "request_txs reqs = request_txs (AList.delete k reqs) + mset (opt_list (pr_response_tx req))"
  using assms
proof (induction reqs)
  case Nil
  then show ?case by simp
next
  case (Cons x reqs)
  obtain i r where x: "x = (i, r)" by (cases x)
  show ?case
  proof (cases "i = k")
    case True
    with Cons.prems x show ?thesis by simp
  next
    case False
    with Cons x show ?thesis by (simp add: ac_simps)
  qed
qed

lemma request_txs_update:
  "distinct (map fst reqs) \<Longrightarrow>
   request_txs (AList.update k req reqs) +
     (case map_of reqs k of None \<Rightarrow> {#} | Some prev \<Rightarrow> mset (opt_list (pr_response_tx prev))) =
   request_txs reqs + mset (opt_list (pr_response_tx req))"
proof (induction reqs)
  case Nil
  show ?case by simp
next
  case (Cons x reqs)
  obtain i r where x: "x = (i, r)" by (cases x)
  show ?case
  proof (cases "i = k")
    case True
    with x show ?thesis by (simp add: ac_simps)
  next
    case False
    with Cons x show ?thesis by (simp add: ac_simps split: option.splits)
  qed
qed

lemma set_update_subset: "set (AList.update k v al) \<subseteq> insert (k, v) (set al)"
  by (induction al) auto

lemma set_delete_subset: "set (AList.delete k al) \<subseteq> set al"
  by (auto simp: AList.delete_eq)

lemma requests_wf_delete [simp]: "requests_wf reqs \<Longrightarrow> requests_wf (AList.delete k reqs)"
  using set_delete_subset [of k reqs] by (auto simp: requests_wf_def distinct_delete)

lemma requests_wf_update [simp]:
  "requests_wf reqs \<Longrightarrow> pr_response_tx req \<noteq> None \<Longrightarrow> requests_wf (AList.update k req reqs)"
  using set_update_subset [of k req reqs] by (auto simp: requests_wf_def distinct_update)

text \<open>
  \<open>moves s given s' effs left\<close>: from \<open>s\<close>, with the channels \<open>given\<close>, to \<open>s'\<close>, with the effects
  \<open>effs\<close> and the channels \<open>left\<close> in the hands of the caller.
\<close>

definition moves ::
    "'p rr_behaviour \<Rightarrow> oneshot multiset \<Rightarrow> 'p rr_behaviour \<Rightarrow> 'p rr_effect list \<Rightarrow> oneshot multiset \<Rightarrow>
     bool" where
  "moves s given s' effs left \<longleftrightarrow>
     rr_inv s' \<and> owned_tx s' + settled_txs effs + left = owned_tx s + given"

lemma moves_refl: "rr_inv s \<Longrightarrow> moves s {#} s [] {#}"
  by (simp add: moves_def)

lemma moves_trans:
  "moves s g1 s1 effs1 l1 \<Longrightarrow> moves s1 g2 s2 effs2 l2 \<Longrightarrow>
   moves s (g1 + g2) s2 (effs1 @ effs2) (l1 + l2)"
proof -
  assume 1: "moves s g1 s1 effs1 l1" and 2: "moves s1 g2 s2 effs2 l2"
  have "owned_tx s2 + settled_txs (effs1 @ effs2) + (l1 + l2) =
      (owned_tx s2 + settled_txs effs2 + l2) + (settled_txs effs1 + l1)" by (simp add: ac_simps)
  also have "\<dots> = (owned_tx s1 + settled_txs effs1 + l1) + g2"
    using 2 by (simp add: moves_def ac_simps)
  also have "\<dots> = owned_tx s + (g1 + g2)" using 1 by (simp add: moves_def ac_simps)
  finally show ?thesis using 2 by (simp add: moves_def)
qed

lemma moves_settle:
  assumes "moves s g s1 effs1 l" and "moves s1 l s2 effs2 {#}"
  shows "moves s g s2 (effs1 @ effs2) {#}"
  using moves_trans [OF assms] by (simp add: moves_def add.assoc [symmetric])

lemma moves_inv: "moves s g s' effs l \<Longrightarrow> rr_inv s'"
  by (simp add: moves_def)

lemma insert_pending_moves:
  assumes "rr_inv s" and "insert_pending p rid req s = (s', effs)" and "pr_response_tx req = Some tx"
  shows "moves s {#tx#} s' effs {#}"
proof -
  have "distinct (map fst (rr_pending_requests s))" using assms(1) by (simp add: rr_inv_def requests_wf_def)
  from request_txs_update [OF this, of "(p, rid)" req] assms show ?thesis
    by (auto simp: moves_def insert_pending_def rr_inv_def owned_tx_def split: option.splits)
qed

lemma send_request_inner_moves:
  assumes "rr_inv s" and "send_request_inner e target p request fb tx connect s = (s', effs)"
  shows "moves s {#tx#} s' effs {#}"
proof (cases "se_connected e \<or> should_connect connect")
  case True
  with assms(2) obtain effs' where
    "insert_pending p (se_request_id e) \<lparr>pr_started_at = se_now e, pr_response_tx = Some tx,
       pr_fallback_request = fb\<rparr> s = (s', effs')"
    and "effs = RrSendRequest p target (compat_wire_message request) (se_request_id e) # effs'"
    by (auto simp: send_request_inner_def split: prod.splits)
  with insert_pending_moves [OF assms(1)] show ?thesis by (fastforce simp: moves_def)
next
  case False
  with assms show ?thesis by (auto simp: send_request_inner_def moves_def)
qed

lemma rr_send_request_moves:
  assumes "rr_inv s" and "rr_send_request e target p request fb tx connect s = (s', effs)"
  shows "moves s {#tx#} s' effs {#}"
  using assms send_request_inner_moves [OF assms(1)]
  by (auto simp: rr_send_request_def moves_def split: option.splits)

lemma send_request_with_context_moves:
  assumes "rr_inv s"
    and "send_request_with_context e tx target p ctx payload bc recv connect s = (s', effs)"
  shows "moves s {#tx#} s' effs {#}"
proof (cases "rr_protocols s p \<noteq> None \<and> (se_connected e \<or> should_connect connect)")
  case True
  with assms(2) obtain effs' where
    "insert_pending p (se_request_id e) \<lparr>pr_started_at = se_now e, pr_response_tx = Some tx,
       pr_fallback_request = None\<rparr> s = (s', effs')"
    and "settled_txs effs = settled_txs effs'"
    by (auto simp: send_request_with_context_def Let_def split: prod.splits)
  with insert_pending_moves [OF assms(1)] show ?thesis by (fastforce simp: moves_def)
next
  case False
  with assms show ?thesis
    by (auto simp: send_request_with_context_def moves_def Let_def split: option.splits)
qed

lemma rr_broadcast_message_moves:
  assumes "rr_inv s"
    and "rr_broadcast_message targets p ctx payload recv connect s = (s', effs)"
  shows "moves s (mset (map (\<lambda>(target, e, tx). tx) targets)) s' effs {#}"
  using assms
proof (induction targets arbitrary: s effs)
  case Nil
  then show ?case by (simp add: moves_refl)
next
  case (Cons x targets)
  obtain target e tx where x: "x = (target, e, tx)" by (cases x)
  with Cons.prems(2) obtain s1 effs1 effs2 where
    1: "send_request_with_context e tx target p ctx payload True recv connect s = (s1, effs1)"
    and 2: "rr_broadcast_message targets p ctx payload recv connect s1 = (s', effs2)"
    and e: "effs = effs1 @ effs2"
    by (auto split: prod.splits)
  have m1: "moves s {#tx#} s1 effs1 {#}" by (rule send_request_with_context_moves [OF Cons.prems(1) 1])
  with Cons.IH [OF moves_inv [OF m1] 2] show ?case
    using moves_trans [OF m1] by (fastforce simp: x e)
qed

text \<open>The parts of a round of \<open>poll\<close>.\<close>

lemma check_requests_txs:
  "check_requests now protocols reqs = (kept, effs) \<Longrightarrow>
   request_txs kept + settled_txs effs = request_txs reqs"
proof (induction reqs arbitrary: kept effs)
  case Nil
  then show ?case by simp
next
  case (Cons x reqs)
  then show ?case
    by (cases x) (fastforce split: prod.splits option.splits if_splits simp: ac_simps)
qed

lemma check_requests_subset:
  "check_requests now protocols reqs = (kept, effs) \<Longrightarrow>
   set kept \<subseteq> set reqs \<and> (distinct (map fst reqs) \<longrightarrow> distinct (map fst kept))"
proof (induction reqs arbitrary: kept effs)
  case Nil
  then show ?case by simp
next
  case (Cons x reqs)
  then show ?case
    by (cases x) (fastforce split: prod.splits option.splits if_splits)
qed

lemma poll_tick_moves:
  fixes s :: "'p rr_behaviour"
  assumes "rr_inv s" and "poll_tick tick s = (s', effs)"
  shows "moves s {#} s' effs {#}"
proof (cases tick)
  case None
  with assms show ?thesis by (simp add: poll_tick_def moves_refl)
next
  case (Some now)
  obtain kept effs' where c: "check_requests now (rr_protocols s) (rr_pending_requests s) =
      (kept, effs' :: 'p rr_effect list)" by fastforce
  with assms(2) Some have s': "s' = s\<lparr>rr_pending_requests := kept\<rparr>" and e: "effs = effs'"
    by (simp_all add: poll_tick_def)
  have "requests_wf kept"
    using check_requests_subset [OF c] assms(1) by (auto simp: rr_inv_def requests_wf_def)
  with check_requests_txs [OF c] show ?thesis
    by (simp add: moves_def s' e rr_inv_def owned_tx_def)
qed

lemma finish_response_moves:
  "rr_inv s \<Longrightarrow> finish_response ps outcome taken s = (s', effs) \<Longrightarrow> moves s {#} s' effs {#}"
  by (auto simp: finish_response_def moves_def rr_inv_def owned_tx_def
      split: option.splits sum.splits if_splits)

lemma moves_delete:
  assumes "rr_inv s" and "map_of (rr_pending_requests s) k = Some req"
  shows "rr_inv (s\<lparr>rr_pending_requests := AList.delete k (rr_pending_requests s)\<rparr>) \<and>
    owned_tx (s\<lparr>rr_pending_requests := AList.delete k (rr_pending_requests s)\<rparr>) +
      mset (opt_list (pr_response_tx req)) = owned_tx s"
  using assms request_txs_delete [of "rr_pending_requests s" k req]
  by (auto simp: rr_inv_def owned_tx_def requests_wf_def [THEN iffD1])

lemma on_request_moves:
  "rr_inv s \<Longrightarrow> on_request e p d peer rid request ch s = (s', effs, c) \<Longrightarrow> moves s {#} s' effs {#}"
  by (auto simp: on_request_def moves_def rr_inv_def owned_tx_def Let_def
      split: option.splits if_splits)

lemma on_response_moves:
  assumes "rr_inv s" and "on_response e p peer rid response s = (s', effs, c)"
  shows "moves s {#} s' effs {#}"
proof (cases "map_of (rr_pending_requests s) (p, rid)")
  case None
  with assms show ?thesis by (simp add: on_response_def moves_def)
next
  case (Some req)
  from moves_delete [OF assms(1) Some] assms(2) Some show ?thesis
    by (auto simp: on_response_def moves_def Let_def split: option.splits)
qed

lemma on_outbound_failure_moves:
  assumes "rr_inv s" and "on_outbound_failure e p peer rid err s = (s', effs, fbs, c)"
  shows "moves s {#} s' effs (fallback_txs fbs)"
proof (cases "map_of (rr_pending_requests s) (p, rid)")
  case None
  with assms show ?thesis by (simp add: on_outbound_failure_def moves_def)
next
  case (Some req)
  from moves_delete [OF assms(1) Some] assms(2) Some show ?thesis
    by (auto simp: on_outbound_failure_def moves_def Let_def
        split: option.splits outbound_failure.splits)
qed

lemma on_inbound_failure_moves:
  "rr_inv s \<Longrightarrow> on_inbound_failure p peer rid err s = (s', c) \<Longrightarrow> moves s {#} s' [] {#}"
  by (auto simp: on_inbound_failure_def moves_def rr_inv_def owned_tx_def)

lemma on_response_sent_moves:
  "rr_inv s \<Longrightarrow> on_response_sent e p peer rid s = Inr (s', effs, c) \<Longrightarrow> moves s {#} s' effs {#}"
  by (auto simp: on_response_sent_def moves_def rr_inv_def owned_tx_def split: option.splits)

lemma on_p2p_event_moves:
  "rr_inv s \<Longrightarrow> on_p2p_event e p d ev s = Inr (s', effs, fbs, c) \<Longrightarrow>
   moves s {#} s' effs (fallback_txs fbs)"
  by (cases ev)
    (auto simp: on_p2p_event_def on_request_moves on_response_moves on_outbound_failure_moves
      on_inbound_failure_moves on_response_sent_moves split: prod.splits)

lemma send_fallbacks_moves:
  "rr_inv s \<Longrightarrow> send_fallbacks env fbs s = (s', effs) \<Longrightarrow>
   moves s (fallback_txs fbs) s' effs {#}"
proof (induction env fbs s arbitrary: s' effs rule: send_fallbacks.induct)
  case (1 env s)
  then show ?case by (simp add: moves_refl)
next
  case (2 env peer p request tx fbs s)
  let ?first = "case rr_protocols s p of None \<Rightarrow> (s, [RrDrop tx])
    | Some _ \<Rightarrow> send_request_inner (env 0) peer p request None tx ImmediateError s"
  obtain s1 effs1 where f: "?first = (s1, effs1)" by fastforce
  obtain effs2 where r: "send_fallbacks (env \<circ> Suc) fbs s1 = (s', effs2)"
    and e: "effs = effs1 @ effs2"
    using 2(3) f by (auto split: prod.splits)
  have m: "moves s {#tx#} s1 effs1 {#}"
    using f send_request_inner_moves [OF 2(2)] 2(2) by (auto simp: moves_def split: option.splits)
  have "moves s1 (fallback_txs fbs) s' effs2 {#}"
    by (rule 2(1) [OF f [symmetric] refl moves_inv [OF m] r])
  with moves_trans [OF m] show ?case by (fastforce simp: e)
qed

interpretation poll_moves: poll_relation rr_inv
  "\<lambda>s s' effs fbs. moves s {#} s' effs (fallback_txs fbs)" "TYPE(('p, 'x) control)"
proof (unfold_locales, goal_cases)
  case (2 s s1 effs1 fbs1 s2 effs2 fbs2)
  from moves_trans [OF this] show ?case by simp
next
  case (8 s s' effs fbs)
  then show ?case by (simp add: moves_def ac_simps)
next
  case (9 s s' effs fbs env s2 effs2)
  from moves_settle [OF 9(2) send_fallbacks_moves [OF moves_inv [OF 9(2)] 9(3)]]
  show ?case by simp
qed (auto simp: moves_refl poll_tick_moves finish_response_moves on_p2p_event_moves
    moves_def [of _ _ "_\<lparr>rr_pending_responses := _\<rparr>"] rr_inv_def [of "_\<lparr>rr_pending_responses := _\<rparr>"]
    rr_inv_def [symmetric] owned_tx_def intro: moves_inv)

lemma rr_step_moves:
  "rr_inv s \<Longrightarrow> rr_step s c = Inr (s', effs) \<Longrightarrow> moves s (given_tx c) s' effs {#}"
  by (cases c)
    (auto simp: rr_step_def rr_send_request_moves send_request_with_context_moves
      dest: rr_broadcast_message_moves poll_moves.rr_poll_rel)

interpretation rr: linear_channels rr_step rr_inv owned_tx settled_txs given_tx
  by unfold_locales (auto dest: rr_step_moves simp: moves_def)

section \<open>Requests without a fallback\<close>

text \<open>
  The network worker sends without fallback requests. Then no channel is dropped: a call
  of \<open>poll\<close> only takes entries out of \<open>pending_requests\<close>.
\<close>

definition quiet :: "'p rr_behaviour \<Rightarrow> bool" where
  "quiet s \<longleftrightarrow> (\<forall>(i, req) \<in> set (rr_pending_requests s). pr_fallback_request req = None)"

definition calm :: "'p rr_behaviour \<Rightarrow> 'p rr_behaviour \<Rightarrow> 'p rr_effect list \<Rightarrow> bool" where
  "calm s s' effs \<longleftrightarrow>
     set (rr_pending_requests s') \<subseteq> set (rr_pending_requests s) \<and>
     rr_protocols s' = rr_protocols s \<and> (\<forall>tx. RrDrop tx \<notin> set effs)"

lemma calm_refl: "calm s s []"
  by (simp add: calm_def)

lemma calm_trans: "calm s s1 effs1 \<Longrightarrow> calm s1 s2 effs2 \<Longrightarrow> calm s s2 (effs1 @ effs2)"
  by (auto simp: calm_def)

lemma calm_quiet: "calm s s' effs \<Longrightarrow> quiet s \<Longrightarrow> quiet s'"
  by (auto simp: calm_def quiet_def)

lemma check_requests_no_drop:
  "check_requests now protocols reqs = (kept, effs) \<Longrightarrow> RrDrop tx \<notin> set effs"
proof (induction reqs arbitrary: kept effs)
  case Nil
  then show ?case by simp
next
  case (Cons x reqs)
  then show ?case
    by (cases x) (fastforce split: prod.splits option.splits if_splits)
qed

lemma poll_tick_calm: "poll_tick tick s = (s', effs) \<Longrightarrow> calm s s' effs"
proof (cases tick)
  case None
  then show "poll_tick tick s = (s', effs) \<Longrightarrow> calm s s' effs"
    by (simp add: poll_tick_def calm_refl)
next
  case (Some now)
  assume "poll_tick tick s = (s', effs)"
  with Some obtain kept where
    c: "check_requests now (rr_protocols s) (rr_pending_requests s) = (kept, effs)"
    and s': "s' = s\<lparr>rr_pending_requests := kept\<rparr>"
    by (auto simp: poll_tick_def split: prod.splits)
  from check_requests_subset [OF c] check_requests_no_drop [OF c] show "calm s s' effs"
    by (simp add: calm_def s')
qed

lemma finish_response_calm: "finish_response ps outcome taken s = (s', effs) \<Longrightarrow> calm s s' effs"
  by (auto simp: finish_response_def calm_def split: option.splits sum.splits if_splits)

lemma on_p2p_event_calm:
  assumes "quiet s" and "on_p2p_event e p d ev s = Inr (s', effs, fbs, c)"
  shows "calm s s' effs \<and> fbs = []"
proof (cases ev)
  case (P2pOutboundFailure peer rid err)
  show ?thesis
  proof (cases "map_of (rr_pending_requests s) (p, rid)")
    case (Some req)
    then have "pr_fallback_request req = None"
      using assms(1) by (force simp: quiet_def dest: map_of_SomeD)
    with Some assms(2) P2pOutboundFailure set_delete_subset show ?thesis
      by (fastforce simp: on_p2p_event_def on_outbound_failure_def calm_def Let_def
          split: option.splits outbound_failure.splits)
  qed (use assms(2) P2pOutboundFailure in
      \<open>auto simp: on_p2p_event_def on_outbound_failure_def calm_def\<close>)
next
  case (P2pResponse peer rid response)
  with assms(2) set_delete_subset [of "(p, rid)" "rr_pending_requests s"] show ?thesis
    by (auto simp: on_p2p_event_def on_response_def calm_def Let_def split: option.splits)
qed (use assms(2) in \<open>auto simp: on_p2p_event_def on_request_def on_inbound_failure_def
      on_response_sent_def calm_def Let_def split: option.splits if_splits\<close>)

interpretation poll_calm: poll_relation quiet
  "\<lambda>s s' effs fbs. calm s s' effs \<and> fbs = []" "TYPE(('p, 'x) control)"
  by unfold_locales
    (auto simp: calm_refl poll_tick_calm finish_response_calm calm_def [of _ "_\<lparr>rr_pending_responses := _\<rparr>"]
      dest: on_p2p_event_calm intro: calm_trans calm_quiet)

text \<open>The calls of the network worker: no fallback, a registered protocol, \<open>TryConnect\<close>.\<close>

fun worker_call :: "(pname \<rightharpoonup> protocol_details) \<Rightarrow> ('p, 'x) rr_call \<Rightarrow> bool" where
  "worker_call protocols (CallSendRequest e target p request fallback tx connect) \<longleftrightarrow>
     protocols p \<noteq> None \<and> fallback = None \<and> connect = TryConnect"
| "worker_call protocols (CallSendWithContext e tx target p ctx payload bc recv connect) \<longleftrightarrow>
     protocols p \<noteq> None \<and> connect = TryConnect"
| "worker_call protocols (CallBroadcast targets p ctx payload recv connect) \<longleftrightarrow>
     protocols p \<noteq> None \<and> connect = TryConnect"
| "worker_call protocols (CallPoll order rounds) \<longleftrightarrow> True"

text \<open>The ids under which a call enters its requests.\<close>

fun call_keys :: "('p, 'x) rr_call \<Rightarrow> protocol_request_id list" where
  "call_keys (CallSendRequest e target p request fallback tx connect) = [(p, se_request_id e)]"
| "call_keys (CallSendWithContext e tx target p ctx payload bc recv connect) =
     [(p, se_request_id e)]"
| "call_keys (CallBroadcast targets p ctx payload recv connect) =
     map (\<lambda>(target, e, tx). (p, se_request_id e)) targets"
| "call_keys (CallPoll order rounds) = []"

text \<open>\<open>enters s ks s' effs\<close>: the step enters requests under ids of \<open>ks\<close> only, all without a
  fallback, and drops no channel.\<close>

definition pending_keys :: "'p rr_behaviour \<Rightarrow> protocol_request_id set" where
  "pending_keys s = fst ` set (rr_pending_requests s)"

definition enters ::
    "'p rr_behaviour \<Rightarrow> protocol_request_id list \<Rightarrow> 'p rr_behaviour \<Rightarrow> 'p rr_effect list \<Rightarrow> bool" where
  "enters s ks s' effs \<longleftrightarrow>
     quiet s' \<and> rr_protocols s' = rr_protocols s \<and> pending_keys s' \<subseteq> pending_keys s \<union> set ks \<and>
     (\<forall>tx. RrDrop tx \<notin> set effs)"

lemma enters_trans:
  "enters s ks1 s1 effs1 \<Longrightarrow> enters s1 ks2 s2 effs2 \<Longrightarrow> enters s (ks1 @ ks2) s2 (effs1 @ effs2)"
  by (auto simp: enters_def)

lemma insert_pending_enters:
  assumes "quiet s" and "(p, rid) \<notin> pending_keys s" and "pr_fallback_request req = None"
    and "insert_pending p rid req s = (s', effs)"
  shows "enters s [(p, rid)] s' effs \<and> effs = []"
proof -
  have n: "map_of (rr_pending_requests s) (p, rid) = None"
    using assms(2) by (simp add: map_of_eq_None_iff pending_keys_def)
  have "quiet s'"
    using assms set_update_subset [of "(p, rid)" req "rr_pending_requests s"]
    by (fastforce simp: insert_pending_def quiet_def)
  moreover have "pending_keys s' = insert (p, rid) (pending_keys s)"
    using assms(4) by (clarsimp simp: insert_pending_def pending_keys_def dom_update)
  ultimately show ?thesis using assms(4) n by (auto simp: insert_pending_def enters_def)
qed

lemma send_request_with_context_enters:
  assumes "quiet s" and "(p, se_request_id e) \<notin> pending_keys s" and "rr_protocols s p \<noteq> None"
    and "send_request_with_context e tx target p ctx payload bc recv TryConnect s = (s', effs)"
  shows "enters s [(p, se_request_id e)] s' effs"
proof -
  from assms(3,4) obtain effs' where
    "insert_pending p (se_request_id e) \<lparr>pr_started_at = se_now e, pr_response_tx = Some tx,
       pr_fallback_request = None\<rparr> s = (s', effs')"
    and e: "effs = RrBridge tx target recv # RrSendRequest p target
      \<lparr>wm_context = ctx, wm_payload = payload, wm_is_broadcast = bc\<rparr> (se_request_id e) # effs'"
    by (auto simp: send_request_with_context_def should_connect_def split: prod.splits)
  from insert_pending_enters [OF assms(1,2) _ this(1)] show ?thesis by (simp add: e enters_def)
qed

lemma rr_send_request_enters:
  assumes "quiet s" and "(p, se_request_id e) \<notin> pending_keys s" and "rr_protocols s p \<noteq> None"
    and "rr_send_request e target p request None tx TryConnect s = (s', effs)"
  shows "enters s [(p, se_request_id e)] s' effs"
proof -
  from assms(3,4) obtain effs' where
    "insert_pending p (se_request_id e) \<lparr>pr_started_at = se_now e, pr_response_tx = Some tx,
       pr_fallback_request = None\<rparr> s = (s', effs')"
    and e: "effs = RrSendRequest p target (compat_wire_message request) (se_request_id e) # effs'"
    by (auto simp: rr_send_request_def send_request_inner_def should_connect_def
        split: prod.splits)
  from insert_pending_enters [OF assms(1,2) _ this(1)] show ?thesis by (simp add: e enters_def)
qed

lemma rr_broadcast_message_enters:
  assumes "quiet s" and "rr_protocols s p \<noteq> None"
    and "distinct (map (\<lambda>(target, e, tx). (p, se_request_id e)) targets)"
    and "set (map (\<lambda>(target, e, tx). (p, se_request_id e)) targets) \<inter> pending_keys s = {}"
    and "rr_broadcast_message targets p ctx payload recv TryConnect s = (s', effs)"
  shows "enters s (map (\<lambda>(target, e, tx). (p, se_request_id e)) targets) s' effs"
  using assms
proof (induction targets arbitrary: s effs)
  case Nil
  then show ?case by (simp add: enters_def)
next
  case (Cons x targets)
  obtain target e tx where x: "x = (target, e, tx)" by (cases x)
  with Cons.prems(5) obtain s1 effs1 effs2 where
    1: "send_request_with_context e tx target p ctx payload True recv TryConnect s = (s1, effs1)"
    and 2: "rr_broadcast_message targets p ctx payload recv TryConnect s1 = (s', effs2)"
    and e: "effs = effs1 @ effs2"
    by (auto split: prod.splits)
  have m: "enters s [(p, se_request_id e)] s1 effs1"
    using Cons.prems(4) by (intro send_request_with_context_enters [OF Cons.prems(1) _ Cons.prems(2) 1])
      (auto simp: x)
  let ?ks = "map (\<lambda>(target, e, tx). (p, se_request_id e)) targets"
  have "(p, se_request_id e) \<notin> set ?ks" and "distinct ?ks" and "set ?ks \<inter> pending_keys s = {}"
    using Cons.prems(3,4) by (simp_all add: x)
  moreover from this m have "set ?ks \<inter> pending_keys s1 = {}" unfolding enters_def by force
  ultimately have "enters s1 ?ks s' effs2"
    using Cons.prems(2) m by (intro Cons.IH [OF _ _ _ _ 2]) (auto simp: enters_def)
  from enters_trans [OF m this] show ?case by (simp add: x e)
qed

lemma rr_step_enters:
  assumes "quiet s" and "worker_call (rr_protocols s) c" and "rr_step s c = Inr (s', effs)"
    and "distinct (call_keys c)" and "set (call_keys c) \<inter> pending_keys s = {}"
  shows "enters s (call_keys c) s' effs"
proof (cases c)
  case (CallPoll order rounds)
  with assms(3) obtain out where "rr_poll order rounds s = Inr (s', effs, out)"
    by (auto simp: rr_step_def)
  from poll_calm.rr_poll_rel [OF assms(1) this] CallPoll assms(1) show ?thesis
    by (auto simp: enters_def calm_def pending_keys_def intro: calm_quiet)
next
  case (CallBroadcast targets p ctx payload recv connect)
  with assms show ?thesis
    by (simp add: rr_step_def) (rule rr_broadcast_message_enters, simp_all)
qed (use assms in \<open>auto simp: rr_step_def intro: rr_send_request_enters
      send_request_with_context_enters\<close>)

lemma run_calls_enters:
  assumes "quiet s" and "\<forall>c \<in> set cs. worker_call (rr_protocols s) c"
    and "run_calls rr_step s cs = Inr (s', effs)"
    and "distinct (concat (map call_keys cs))"
    and "set (concat (map call_keys cs)) \<inter> pending_keys s = {}"
  shows "enters s (concat (map call_keys cs)) s' effs"
  using assms
proof (induction cs arbitrary: s effs)
  case Nil
  then show ?case by (simp add: enters_def)
next
  case (Cons c cs)
  from Cons.prems(3) obtain s1 effs1 effs2 where 1: "rr_step s c = Inr (s1, effs1)"
    and 2: "run_calls rr_step s1 cs = Inr (s', effs2)" and e: "effs = effs1 @ effs2" by auto
  have m: "enters s (call_keys c) s1 effs1"
    using Cons.prems by (intro rr_step_enters [OF _ _ 1]) auto
  then have "enters s1 (concat (map call_keys cs)) s' effs2"
    using Cons.prems by (intro Cons.IH [OF _ _ 2]) (auto simp: enters_def)
  from enters_trans [OF m this] show ?case by (simp add: e)
qed

lemma rr_new_empty:
  assumes "rr_new cfgs store = Inr s"
  shows "rr_inv s \<and> quiet s \<and> owned_tx s = {#} \<and> pending_keys s = {}"
  using assms
  by (auto simp: rr_new_def rr_inv_def requests_wf_def quiet_def owned_tx_def pending_keys_def)

lemma count_settled_txs:
  "\<forall>tx. RrDrop tx \<notin> set effs \<Longrightarrow>
   count (settled_txs effs) tx = length (filter (\<lambda>e. \<exists>r. e = RrAnswer tx r) effs)"
proof (induction effs)
  case Nil
  then show ?case by simp
next
  case (Cons e effs)
  then show ?case by (cases e) auto
qed

section \<open>The periodic check\<close>

text \<open>A request is overdue when it has been pending for longer than its protocol allows.\<close>

definition overdue :: "instant \<Rightarrow> (pname \<rightharpoonup> protocol_details) \<Rightarrow> protocol_request_id \<times> pending_request \<Rightarrow> bool" where
  "overdue now protocols x =
     (case protocols (fst (fst x)) of
        None \<Rightarrow> True
      | Some d \<Rightarrow> pd_request_timeout d < now - pr_started_at (snd x))"

lemma check_requests_kept:
  "check_requests now protocols reqs = (kept, effs) \<Longrightarrow> x \<in> set kept \<Longrightarrow> \<not> overdue now protocols x"
proof (induction reqs arbitrary: kept effs)
  case Nil
  then show ?case by simp
next
  case (Cons y reqs)
  then show ?case
    by (cases y) (fastforce simp: overdue_def split: prod.splits option.splits if_splits)
qed

lemma check_requests_timeout:
  "check_requests now protocols reqs = (kept, effs) \<Longrightarrow> (i, req) \<in> set reqs \<Longrightarrow>
   protocols (fst i) = Some d \<Longrightarrow> pd_request_timeout d < now - pr_started_at req \<Longrightarrow>
   pr_response_tx req = Some tx \<Longrightarrow> RrAnswer tx (Inl (Network OutTimeout)) \<in> set effs"
proof (induction reqs arbitrary: kept effs)
  case Nil
  then show ?case by simp
next
  case (Cons y reqs)
  then show ?case
    by (cases y) (fastforce split: prod.splits option.splits if_splits)
qed

text \<open>A round with a tick is the check followed by the same round without it.\<close>

lemma rr_poll_after_tick:
  assumes "poll_tick (po_tick r) s = (s1, effs1)"
  shows "rr_poll order (r # rs) s =
    bindR (rr_poll order (r\<lparr>po_tick := None\<rparr> # rs) s1) (\<lambda>(s', effs, out). Inr (s', effs1 @ effs, out))"
proof -
  have "rr_poll_round order r s =
    bindR (rr_poll_round order (r\<lparr>po_tick := None\<rparr>) s1) (\<lambda>(s', effs, c). Inr (s', effs1 @ effs, c))"
    using assms
    by (cases "poll_protocols order (po_polled r) (fst (drain_responses (po_ready r) s1))")
      (auto simp: rr_poll_round_def poll_tick_def [of None] split: prod.splits control.splits)
  then show ?thesis
    by (cases "rr_poll_round order (r\<lparr>po_tick := None\<rparr>) s1") 
      (auto split: prod.splits control.splits simp: bindR_def split: sum.splits)
qed

lemma rr_poll_tick:
  fixes rs :: "('p, 'x) poll_round list"
  assumes "quiet s" and "rr_poll order (r # rs) s = Inr (s', effs, out)" and "po_tick r = Some now"
  shows "(\<forall>x \<in> set (rr_pending_requests s'). \<not> overdue now (rr_protocols s) x) \<and>
    (\<forall>i req d tx. (i, req) \<in> set (rr_pending_requests s) \<and> rr_protocols s (fst i) = Some d \<and>
       pd_request_timeout d < now - pr_started_at req \<and> pr_response_tx req = Some tx \<longrightarrow>
       RrAnswer tx (Inl (Network OutTimeout)) \<in> set effs)"
proof -
  obtain s1 effs1 where t: "poll_tick (po_tick r) s = (s1, effs1)" by fastforce
  with assms(2) obtain effs2 where
    2: "rr_poll order (r\<lparr>po_tick := None\<rparr> # rs) s1 = Inr (s', effs2, out)"
    and e: "effs = effs1 @ effs2"
    by (auto simp: rr_poll_after_tick [OF t] simp del: rr_poll.simps)
  obtain kept where
    c: "check_requests now (rr_protocols s) (rr_pending_requests s) = (kept, effs1)"
    and s1: "s1 = s\<lparr>rr_pending_requests := kept\<rparr>"
    using t assms(3) by (auto simp: poll_tick_def split: prod.splits)
  have "quiet s1" by (rule calm_quiet [OF poll_tick_calm [OF t] assms(1)])
  from poll_calm.rr_poll_rel [OF this 2] have "set (rr_pending_requests s') \<subseteq> set kept"
    by (auto simp: calm_def s1)
  with check_requests_kept [OF c] check_requests_timeout [OF c] show ?thesis
    by (auto simp: e subset_iff)
qed

section \<open>Inbound requests\<close>

text \<open>Only requests of peers whose reputation reaches the threshold are handed to a response
  builder, whatever else happens during the call of \<open>poll\<close>.\<close>

definition screened :: "'p rr_behaviour \<Rightarrow> 'p rr_behaviour \<Rightarrow> 'p rr_effect list \<Rightarrow> bool" where
  "screened s s' effs \<longleftrightarrow>
     rr_peer_store s' = rr_peer_store s \<and>
     (\<forall>q ir. RrIncoming q ir \<in> set effs \<longrightarrow> BANNED_THRESHOLD \<le> rr_peer_store s (ir_peer ir))"

lemma screened_trans: "screened s s1 effs1 \<Longrightarrow> screened s1 s2 effs2 \<Longrightarrow> screened s s2 (effs1 @ effs2)"
  by (auto simp: screened_def)

lemma check_requests_screened:
  "check_requests now protocols reqs = (kept, effs) \<Longrightarrow> RrIncoming q ir \<notin> set effs"
proof (induction reqs arbitrary: kept effs)
  case Nil
  then show ?case by simp
next
  case (Cons x reqs)
  then show ?case
    by (cases x) (fastforce split: prod.splits option.splits if_splits)
qed

lemma poll_tick_screened: "poll_tick tick s = (s', effs) \<Longrightarrow> screened s s' effs"
  by (auto simp: poll_tick_def screened_def dest: check_requests_screened
      split: option.splits prod.splits)

lemma on_p2p_event_screened:
  "on_p2p_event e p d ev s = Inr (s', effs, fbs, c) \<Longrightarrow> screened s s' effs"
  by (cases ev)
    (auto simp: on_p2p_event_def on_request_def on_response_def on_outbound_failure_def
      on_inbound_failure_def on_response_sent_def screened_def Let_def
      split: option.splits if_splits outbound_failure.splits)

lemma finish_response_screened:
  "finish_response ps outcome taken s = (s', effs) \<Longrightarrow> screened s s' effs"
  by (auto simp: finish_response_def screened_def split: option.splits sum.splits if_splits)

lemma send_request_inner_screened:
  "send_request_inner e target p request fb tx connect s = (s', effs) \<Longrightarrow> screened s s' effs"
  by (auto simp: send_request_inner_def insert_pending_def screened_def
      split: option.splits if_splits)

lemma send_fallbacks_screened: "send_fallbacks env fbs s = (s', effs) \<Longrightarrow> screened s s' effs"
proof (induction env fbs s arbitrary: s' effs rule: send_fallbacks.induct)
  case (2 env peer p request tx fbs s)
  let ?first = "case rr_protocols s p of None \<Rightarrow> (s, [RrDrop tx])
    | Some _ \<Rightarrow> send_request_inner (env 0) peer p request None tx ImmediateError s"
  obtain s1 effs1 where f: "?first = (s1, effs1)" by fastforce
  obtain effs2 where r: "send_fallbacks (env \<circ> Suc) fbs s1 = (s', effs2)"
    and e: "effs = effs1 @ effs2"
    using 2(2) f by (auto split: prod.splits)
  have "screened s s1 effs1"
    using f send_request_inner_screened [of "env 0" peer p request None tx ImmediateError s]
    by (cases "rr_protocols s p") (auto simp: screened_def)
  from screened_trans [OF this 2(1) [OF f [symmetric] refl r]] show ?case by (simp add: e)
qed (simp add: screened_def)

interpretation poll_screened: poll_relation "\<lambda>_. True"
  "\<lambda>s s' effs fbs. screened s s' effs" "TYPE(('p, 'x) control)"
proof (unfold_locales, goal_cases)
  case (2 s s1 effs1 fbs1 s2 effs2 fbs2)
  then show ?case by (rule screened_trans)
next
  case (8 s s' effs fbs)
  then show ?case by (auto simp: screened_def)
next
  case (9 s s' effs fbs env s2 effs2)
  from screened_trans [OF 9(2) send_fallbacks_screened [OF 9(3)]] show ?case .
qed (auto simp: poll_tick_screened finish_response_screened on_p2p_event_screened
    screened_def [of s s for s] screened_def [of _ "_\<lparr>rr_pending_responses := _\<rparr>"])

section \<open>Inbound requests that await their response\<close>

text \<open>The entries that wait on a oneshot survive every step in which that oneshot neither
  becomes ready nor is created again.\<close>

definition waiting :: "oneshot \<Rightarrow> 'p rr_behaviour \<Rightarrow> 'p pending_response list" where
  "waiting tx s = filter (\<lambda>ps. ps_rx ps = tx) (rr_pending_responses s)"

definition keeps :: "oneshot \<Rightarrow> 'p rr_behaviour \<Rightarrow> 'p rr_behaviour \<Rightarrow> bool" where
  "keeps tx s s' \<longleftrightarrow> waiting tx s' = waiting tx s \<and> rr_protocols s' = rr_protocols s"

definition fresh_polled :: "oneshot \<Rightarrow> ('p, 'x) polled list \<Rightarrow> bool" where
  "fresh_polled tx polled \<longleftrightarrow> (\<forall>e ev. Some (e, ev) \<in> set polled \<longrightarrow> ee_tx e \<noteq> tx)"

definition unanswered_round :: "oneshot \<Rightarrow> ('p, 'x) poll_round \<Rightarrow> bool" where
  "unanswered_round tx r \<longleftrightarrow> tx \<notin> fst ` set (po_ready r) \<and> fresh_polled tx (po_polled r)"

fun unanswered_call :: "oneshot \<Rightarrow> ('p, 'x) rr_call \<Rightarrow> bool" where
  "unanswered_call tx (CallPoll order rounds) \<longleftrightarrow> list_all (unanswered_round tx) rounds"
| "unanswered_call tx _ \<longleftrightarrow> True"

lemma keeps_refl [simp]: "keeps tx s s"
  by (simp add: keeps_def)

lemma keeps_trans: "keeps tx s s1 \<Longrightarrow> keeps tx s1 s2 \<Longrightarrow> keeps tx s s2"
  by (simp add: keeps_def)

lemma fresh_polled_simps [simp]:
  "fresh_polled tx []" "fresh_polled tx (None # polled) \<longleftrightarrow> fresh_polled tx polled"
  "fresh_polled tx (Some (e, ev) # polled) \<longleftrightarrow> ee_tx e \<noteq> tx \<and> fresh_polled tx polled"
  by (auto simp: fresh_polled_def)

lemma poll_tick_keeps: "poll_tick tick s = (s', effs) \<Longrightarrow> keeps tx s s'"
  by (auto simp: poll_tick_def keeps_def waiting_def split: option.splits prod.splits)

lemma finish_response_keeps: "finish_response ps outcome taken s = (s', effs) \<Longrightarrow> keeps tx s s'"
  by (auto simp: finish_response_def keeps_def waiting_def split: option.splits sum.splits if_splits)

lemma drain_responses_keeps:
  "tx \<notin> fst ` set ready \<Longrightarrow> drain_responses ready s = (s', effs) \<Longrightarrow> keeps tx s s'"
proof (induction ready s arbitrary: s' effs rule: drain_responses.induct)
  case (2 rx outcome taken ready s)
  show ?case
  proof (cases "find (\<lambda>ps. ps_rx ps = rx) (rr_pending_responses s)")
    case (Some ps)
    let ?s0 = "s\<lparr>rr_pending_responses := remove1 ps (rr_pending_responses s)\<rparr>"
    obtain s1 effs1 where 1: "finish_response ps outcome taken ?s0 = (s1, effs1)" by fastforce
    obtain effs2 where 3: "drain_responses ready s1 = (s', effs2)"
      using 2(4) Some 1 by (auto split: prod.splits)
    have "ps_rx ps = rx" using Some by (auto simp: find_Some_iff)
    with 2(3) have "keeps tx s ?s0"
      by (auto simp: keeps_def waiting_def filter_remove1 remove1_idem)
    moreover have "keeps tx s1 s'"
      by (rule 2(2) [OF Some refl _ _ _ 3]) (use 1 2(3) in simp_all)
    ultimately show ?thesis using finish_response_keeps [OF 1] keeps_trans by blast
  qed (use 2 in simp)
qed simp

lemma on_p2p_event_keeps:
  "on_p2p_event e p d ev s = Inr (s', effs, fbs, c) \<Longrightarrow> ee_tx e \<noteq> tx \<Longrightarrow> keeps tx s s'"
  by (cases ev)
    (auto simp: on_p2p_event_def on_request_def on_response_def on_outbound_failure_def
      on_inbound_failure_def on_response_sent_def keeps_def waiting_def Let_def
      split: option.splits if_splits outbound_failure.splits)

lemma poll_protocol_keeps:
  fixes polled :: "('p, 'x) polled list"
  shows "poll_protocol p d polled s = Inr (s', effs, fbs, c, rest) \<Longrightarrow> fresh_polled tx polled \<Longrightarrow>
    keeps tx s s' \<and> fresh_polled tx rest"
proof (induction p d polled s arbitrary: s' effs fbs c rest rule: poll_protocol.induct)
  case (3 p d e ev polled s)
  show ?case
  proof (cases ev)
    case (P2pGenerateEvent g)
    with 3(2) obtain s1 effs1 fbs1 and c1 :: "('p, 'x) control" where
      g: "on_p2p_event e p d g s = Inr (s1, effs1, fbs1, c1)" by auto
    have m: "keeps tx s s1" using on_p2p_event_keeps [OF g] 3(3) by simp
    show ?thesis
    proof (cases c1)
      case PollNext
      with 3(2) P2pGenerateEvent g obtain effs2 fbs2 where
        r: "poll_protocol p d polled s1 = Inr (s', effs2, fbs2, c, rest)" by auto
      with 3(1) [OF P2pGenerateEvent g refl refl refl PollNext r] 3(3) m keeps_trans
      show ?thesis by auto
    qed (use 3(2,3) P2pGenerateEvent g m in auto)
  qed (use 3 in auto)
qed auto

lemma poll_protocols_keeps:
  fixes polled :: "('p, 'x) polled list"
  shows "poll_protocols order polled s = Inr (s', effs, fbs, c) \<Longrightarrow> fresh_polled tx polled \<Longrightarrow> keeps tx s s'"
proof (induction order polled s arbitrary: s' effs fbs c rule: poll_protocols.induct)
  case (2 p order polled s)
  show ?case
  proof (cases "rr_protocols s p")
    case (Some d)
    with 2(3) obtain s1 effs1 fbs1 rest and c1 :: "('p, 'x) control" where
      g: "poll_protocol p d polled s = Inr (s1, effs1, fbs1, c1, rest)" by auto
    note m = poll_protocol_keeps [OF g 2(4)]
    show ?thesis
    proof (cases c1)
      case PollNext
      with 2(3) Some g obtain effs2 fbs2 where
        r: "poll_protocols order rest s1 = Inr (s', effs2, fbs2, c)" by auto
      with 2(2) [OF Some g refl refl refl refl PollNext r] m keeps_trans show ?thesis by blast
    qed (use 2(3) Some g m in auto)
  qed (use 2 in simp)
qed simp

lemma send_request_inner_keeps:
  "send_request_inner e target p request fb tx0 connect s = (s', effs) \<Longrightarrow> keeps tx s s'"
  by (auto simp: send_request_inner_def insert_pending_def keeps_def waiting_def Let_def split: if_splits)

lemma send_fallbacks_keeps: "send_fallbacks env fbs s = (s', effs) \<Longrightarrow> keeps tx s s'"
proof (induction env fbs s arbitrary: s' effs rule: send_fallbacks.induct)
  case (2 env peer p request tx0 fbs s)
  let ?first = "case rr_protocols s p of None \<Rightarrow> (s, [RrDrop tx0])
    | Some _ \<Rightarrow> send_request_inner (env 0) peer p request None tx0 ImmediateError s"
  obtain s1 effs1 where f: "?first = (s1, effs1)" by fastforce
  obtain effs2 where r: "send_fallbacks (env \<circ> Suc) fbs s1 = (s', effs2)"
    using 2(2) f by (auto split: prod.splits)
  have "keeps tx s s1"
    using f send_request_inner_keeps [of "env 0" peer p request None tx0 ImmediateError s]
    by (cases "rr_protocols s p") auto
  with 2(1) [OF f [symmetric] refl r] keeps_trans show ?case by blast
qed simp

lemma rr_poll_round_keeps:
  fixes r :: "('p, 'x) poll_round"
  assumes "rr_poll_round order r s = Inr (s', effs, c)" and "unanswered_round tx r"
  shows "keeps tx s s'"
proof -
  obtain s1 effs1 where 1: "poll_tick (po_tick r) s = (s1, effs1)" by fastforce
  obtain s2 effs2 where 2: "drain_responses (po_ready r) s1 = (s2, effs2)" by fastforce
  from assms(1) 1 2 obtain s3 effs3 fbs and c3 :: "('p, 'x) control" where
    3: "poll_protocols order (po_polled r) s2 = Inr (s3, effs3, fbs, c3)"
    by (auto simp: rr_poll_round_def)
  have "keeps tx s1 s2" using drain_responses_keeps [OF _ 2] assms(2) by (simp add: unanswered_round_def)
  moreover have "keeps tx s2 s3" using poll_protocols_keeps [OF 3] assms(2) by (simp add: unanswered_round_def)
  ultimately have m: "keeps tx s s3" using poll_tick_keeps [OF 1] keeps_trans by blast
  obtain s4 effs4 where 4: "send_fallbacks (po_send r) fbs s3 = (s4, effs4)" by fastforce
  have "s' = s3 \<or> s' = s4"
    using assms(1) 1 2 3 4 by (auto simp: rr_poll_round_def split: control.splits)
  with m send_fallbacks_keeps [OF 4] keeps_trans show ?thesis by blast
qed

lemma rr_poll_keeps:
  "rr_poll order rs s = Inr (s', effs, out) \<Longrightarrow> list_all (unanswered_round tx) rs \<Longrightarrow> keeps tx s s'"
proof (induction rs arbitrary: s effs)
  case (Cons r rs)
  then obtain s1 effs1 c where r: "rr_poll_round order r s = Inr (s1, effs1, c)" by auto
  have m: "keeps tx s s1" using rr_poll_round_keeps [OF r] Cons.prems(2) by simp
  show ?case
  proof (cases c)
    case PollAgain
    with Cons.prems(1) r obtain effs2 where "rr_poll order rs s1 = Inr (s', effs2, out)" by auto
    from Cons.IH [OF this] Cons.prems(2) show ?thesis by (simp add: keeps_trans [OF m])
  qed (use Cons.prems(1) r m in auto)
qed simp

lemma send_request_with_context_keeps:
  "send_request_with_context e tx0 target p ctx payload bc recv connect s = (s', effs) \<Longrightarrow> keeps tx s s'"
  by (auto simp: send_request_with_context_def insert_pending_def keeps_def waiting_def Let_def
      split: option.splits if_splits)

lemma rr_broadcast_message_keeps:
  "rr_broadcast_message targets p ctx payload recv connect s = (s', effs) \<Longrightarrow> keeps tx s s'"
proof (induction targets p ctx payload recv connect s arbitrary: s' effs rule: rr_broadcast_message.induct)
  case (2 target e tx0 targets p ctx payload recv connect s)
  then show ?case
    by (auto split: prod.splits intro: keeps_trans dest: send_request_with_context_keeps)
qed simp

lemma rr_step_keeps: "rr_step s c = Inr (s', effs) \<Longrightarrow> unanswered_call tx c \<Longrightarrow> keeps tx s s'"
  by (cases c)
    (auto simp: rr_step_def rr_send_request_def split: option.splits
      intro: rr_broadcast_message_keeps send_request_with_context_keeps send_request_inner_keeps
      dest: rr_poll_keeps)

lemma run_calls_keeps:
  "run_calls rr_step s calls = Inr (s', effs) \<Longrightarrow> list_all (unanswered_call tx) calls \<Longrightarrow> keeps tx s s'"
  by (induction calls arbitrary: s effs) (auto dest: rr_step_keeps intro: keeps_trans)

text \<open>The round in which an inbound request arrives, behind protocols that have nothing.\<close>

lemma poll_protocols_skip:
  "list_all (\<lambda>x. rr_protocols s x \<noteq> None) before \<Longrightarrow>
   poll_protocols (before @ order) (replicate (length before) None @ polled) s = poll_protocols order polled s"
proof (induction before)
  case (Cons x before)
  then obtain d where "rr_protocols s x = Some d" by auto
  with Cons show ?case
    by (auto simp: bindR_def split: sum.splits prod.splits)
qed simp

lemma poll_round_request:
  fixes r :: "('p, 'x) poll_round"
  assumes "rr_protocols s p = Some d" and "pd_inbound_queue d = Some q"
    and "BANNED_THRESHOLD \<le> rr_peer_store s peer" and "ee_accepted e" and "waiting (ee_tx e) s = []"
    and "list_all (\<lambda>x. rr_protocols s x \<noteq> None) before" and "ee_tx e \<notin> fst ` set (po_ready r)"
    and "po_polled r = replicate (length before) None @
      Some (e, P2pGenerateEvent (P2pRequest peer rid request channel)) # later"
  obtains s' effs where "rr_poll_round (before @ p # after) r s = Inr (s', effs, PollAgain)"
    and "RrIncoming q \<lparr>ir_context = wm_context request, ir_peer = peer, ir_peer_id = peer,
      ir_is_broadcast = wm_is_broadcast request, ir_peer_index = 0, ir_payload = wm_payload request,
      ir_pending_response = ee_tx e\<rparr> \<in> set effs"
    and "waiting (ee_tx e) s' =
      [\<lparr>ps_rx = ee_tx e, ps_peer = peer, ps_request_id = rid, ps_protocol = p, ps_channel = channel\<rparr>]"
    and "rr_protocols s' = rr_protocols s"
proof -
  obtain s1 effs1 where 1: "poll_tick (po_tick r) s = (s1, effs1)" by fastforce
  obtain s2 effs2 where 2: "drain_responses (po_ready r) s1 = (s2, effs2)" by fastforce
  have k: "keeps (ee_tx e) s s2"
    using poll_tick_keeps [OF 1] drain_responses_keeps [OF assms(7) 2] keeps_trans by blast
  then have p: "rr_protocols s2 = rr_protocols s" and w: "waiting (ee_tx e) s2 = []"
    using assms(5) by (simp_all add: keeps_def)
  have "screened s1 s2 effs2" by (rule poll_screened.drain_responses_rel [OF TrueI 2])
  with poll_tick_screened [OF 1] have b: "\<not> rr_peer_store s2 peer < BANNED_THRESHOLD"
    using assms(3) by (simp add: screened_def)
  have "poll_protocols (before @ p # after) (po_polled r) s2 =
      poll_protocols (p # after) (Some (e, P2pGenerateEvent (P2pRequest peer rid request channel)) # later) s2"
    unfolding assms(8) using assms(6) p by (intro poll_protocols_skip) simp
  with that show ?thesis
    using 1 2 p w b assms(1,2,4)
    by (simp add: rr_poll_round_def on_p2p_event_def on_request_def waiting_def)
qed

text \<open>The round in which the response builder's answer is ready.\<close>

lemma find_filter: "List.find P xs = (case filter P xs of [] \<Rightarrow> None | x # _ \<Rightarrow> Some x)"
  by (induction xs) auto

lemma drain_responses_append:
  "drain_responses (xs @ ys) s =
     (let (s1, effs1) = drain_responses xs s; (s2, effs2) = drain_responses ys s1 in (s2, effs1 @ effs2))"
  by (induction xs s rule: drain_responses.induct) (auto simp: Let_def split: option.splits prod.splits)

lemma drain_responses_answer:
  assumes "waiting tx s = [ps]" and "rr_protocols s (ps_protocol ps) = Some d" and "or_result r = Inr payload"
    and "tx \<notin> fst ` set xs" and "tx \<notin> fst ` set ys"
    and "drain_responses (xs @ (tx, Some r, taken) # ys) s = (s', effs)"
  shows "RrSendResponse (ps_protocol ps) (ps_channel ps) payload \<in> set effs \<and> waiting tx s' = []"
proof -
  obtain s1 effs1 where 1: "drain_responses xs s = (s1, effs1)" by fastforce
  note k = drain_responses_keeps [OF assms(4) 1]
  let ?s1 = "s1\<lparr>rr_pending_responses := remove1 ps (rr_pending_responses s1)\<rparr>"
  obtain s2 effs2 where 2: "finish_response ps (Some r) taken ?s1 = (s2, effs2)" by fastforce
  obtain effs3 where 3: "drain_responses ys s2 = (s', effs3)" "effs = effs1 @ effs2 @ effs3"
    using assms(1,6) k 1 2
    by (auto simp: drain_responses_append find_filter keeps_def waiting_def split: prod.splits)
  have "waiting tx ?s1 = []" using k assms(1) by (simp add: keeps_def waiting_def filter_remove1)
  then have "waiting tx s' = []"
    using finish_response_keeps [OF 2, of tx] drain_responses_keeps [OF assms(5) 3(1)] by (simp add: keeps_def)
  moreover have "RrSendResponse (ps_protocol ps) (ps_channel ps) payload \<in> set effs2"
    using 2 k assms(2,3) by (auto simp: finish_response_def keeps_def)
  ultimately show ?thesis by (simp add: 3(2))
qed

lemma rr_poll_round_drained:
  fixes r :: "('p, 'x) poll_round"
  assumes "poll_tick (po_tick r) s = (s1, effs1)" and "drain_responses (po_ready r) s1 = (s2, effs2)"
    and "rr_poll_round order r s = Inr (s3, effs3, c)"
  obtains effs4 where "rr_poll_round order (r\<lparr>po_tick := None, po_ready := []\<rparr>) s2 = Inr (s3, effs4, c)"
    and "effs3 = effs1 @ effs2 @ effs4"
proof -
  from assms obtain sp effsp fbs and cp :: "('p, 'x) control" where
    p: "poll_protocols order (po_polled r) s2 = Inr (sp, effsp, fbs, cp)"
    by (auto simp: rr_poll_round_def)
  obtain s4 effs4 where f: "send_fallbacks (po_send r) fbs sp = (s4, effs4)" by fastforce
  show ?thesis
    using assms p f that by (cases cp) (auto simp: rr_poll_round_def poll_tick_def)
qed

lemma rr_poll_answer:
  fixes r :: "('p, 'x) poll_round"
  assumes "waiting tx s = [ps]" and "rr_protocols s (ps_protocol ps) = Some d" and "or_result resp = Inr payload"
    and "po_ready r = xs @ (tx, Some resp, taken) # ys" and "tx \<notin> fst ` set xs" and "tx \<notin> fst ` set ys"
    and "fresh_polled tx (po_polled r)" and "list_all (unanswered_round tx) rs"
    and "rr_poll order (r # rs) s = Inr (s', effs, out)"
  shows "RrSendResponse (ps_protocol ps) (ps_channel ps) payload \<in> set effs \<and> waiting tx s' = []"
proof -
  obtain s1 effs1 where 1: "poll_tick (po_tick r) s = (s1, effs1)" by fastforce
  obtain s2 effs2 where 2: "drain_responses (po_ready r) s1 = (s2, effs2)" by fastforce
  have a: "RrSendResponse (ps_protocol ps) (ps_channel ps) payload \<in> set effs2" "waiting tx s2 = []"
    using drain_responses_answer [OF _ _ assms(3,5,6) 2 [unfolded assms(4)], of ps d]
      poll_tick_keeps [OF 1, of tx] assms(1,2)
    by (simp_all add: keeps_def)
  let ?r = "r\<lparr>po_tick := None, po_ready := []\<rparr>"
  from assms(9) obtain s3 effs3 and c :: "('p, 'x) control" where
    3: "rr_poll_round order r s = Inr (s3, effs3, c)" by auto
  with 1 2 obtain effs4 where 4: "rr_poll_round order ?r s2 = Inr (s3, effs4, c)"
    and e: "effs3 = effs1 @ effs2 @ effs4"
    using rr_poll_round_drained [OF 1 2 3] by blast
  have "keeps tx s2 s3"
    using rr_poll_round_keeps [OF 4] assms(7) by (simp add: unanswered_round_def)
  moreover have "keeps tx s3 s' \<and> set effs3 \<subseteq> set effs"
  proof (cases c)
    case PollAgain
    with assms(9) 3 obtain effs5 where "rr_poll order rs s3 = Inr (s', effs5, out)" "effs = effs3 @ effs5" by auto
    with rr_poll_keeps [OF _ assms(8)] show ?thesis by auto
  qed (use assms(9) 3 in auto)
  ultimately show ?thesis using a by (auto simp: keeps_def e)
qed

section \<open>Registration\<close>

lemma register_protocols_ok:
  assumes "register_protocols cfgs protocols = Inr protocols'"
  shows "distinct (map pc_name cfgs) \<and> pc_name ` set cfgs \<inter> dom protocols = {} \<and>
    dom protocols' = dom protocols \<union> pc_name ` set cfgs"
  using assms
proof (induction cfgs arbitrary: protocols)
  case (Cons c cfgs)
  then have n: "protocols (pc_name c) = None" by (auto split: option.splits)
  let ?d = "\<lparr>pd_behaviour = protocol_behaviour c, pd_inbound_queue = pc_inbound_queue c,
    pd_request_timeout = pc_request_timeout c\<rparr>"
  from Cons.prems n have "register_protocols cfgs (protocols(pc_name c \<mapsto> ?d)) = Inr protocols'"
    by simp
  from Cons.IH [OF this] n show ?case by auto
qed simp

lemma rr_new_protocols:
  assumes "rr_new cfgs store = Inr s"
  shows "register_protocols cfgs Map.empty = Inr (rr_protocols s)"
  using assms by (cases "register_protocols cfgs Map.empty") (auto simp: rr_new_def)

lemma register_protocols_total:
  assumes "distinct (map pc_name cfgs)" and "pc_name ` set cfgs \<inter> dom protocols = {}"
  shows "\<exists>protocols'. register_protocols cfgs protocols = Inr protocols'"
  using assms
proof (induction cfgs arbitrary: protocols)
  case (Cons c cfgs)
  then have n: "protocols (pc_name c) = None" by auto
  with Cons show ?case by auto
qed simp

lemma register_protocols_duplicate:
  assumes "register_protocols cfgs protocols = Inl (DuplicateProtocol p)"
  shows "p \<in> pc_name ` set cfgs \<and> (p \<in> dom protocols \<or> 1 < count_list (map pc_name cfgs) p)"
  using assms
proof (induction cfgs arbitrary: protocols)
  case (Cons c cfgs)
  show ?case
  proof (cases "protocols (pc_name c)")
    case None
    let ?d = "\<lparr>pd_behaviour = protocol_behaviour c, pd_inbound_queue = pc_inbound_queue c,
      pd_request_timeout = pc_request_timeout c\<rparr>"
    from Cons.prems None
    have "register_protocols cfgs (protocols(pc_name c \<mapsto> ?d)) = Inl (DuplicateProtocol p)" by simp
    from Cons.IH [OF this] show ?thesis
      using count_list_0_iff [of "map pc_name cfgs" p] by (auto split: if_splits)
  next
    case (Some d)
    with Cons.prems show ?thesis by auto
  qed
qed simp

text \<open>
  When the fallback's channel is in the local list and the same round of \<open>poll\<close> returns early,
  for example because the next event of the protocol is a dial, the channel is dropped and
  the fallback request is never sent, although its protocol is registered and the peer is
  connected.
\<close>

lemma fallback_lost_on_early_return:
  assumes "rr_protocols s p = Some d"
    and "map_of (rr_pending_requests s) (p, rid) =
      Some \<lparr>pr_started_at = t, pr_response_tx = Some tx, pr_fallback_request = Some (request, q)\<rparr>"
  shows "rr_poll [p] [\<lparr>po_tick = None, po_ready = [],
      po_polled = [Some (e, P2pGenerateEvent (P2pOutboundFailure peer rid P2pUnsupportedProtocols)),
                   Some (e', P2pDial opts)],
      po_send = env\<rparr>] s =
    Inr (s\<lparr>rr_pending_requests := AList.delete (p, rid) (rr_pending_requests s)\<rparr>, [RrDrop tx],
         Some (RrDial opts))"
  using assms
  by (simp add: rr_poll_round_def poll_tick_def on_p2p_event_def on_outbound_failure_def
      outbound_failure_from_def fallback_tx_def)

section \<open>The calls of the network worker\<close>

text \<open>
  When the behaviour is driven the way the network worker drives it (registered protocols, no
  fallback, request ids that libp2p does not give out twice), over any sequence of sends,
  broadcasts and calls of \<open>poll\<close>, no caller's channel is dropped, and every channel is answered
  exactly once or still pending.
\<close>

lemma requests_answered_once:
  assumes "rr_new cfgs store = Inr s0"
    and "\<forall>c \<in> set calls. worker_call (rr_protocols s0) c"
    and "distinct (concat (map call_keys calls))"
    and "run_calls rr_step s0 calls = Inr (s, effs)"
  shows "(\<forall>tx. RrDrop tx \<notin> set effs) \<and>
    (\<forall>tx. count (owned_tx s) tx + length (filter (\<lambda>e. \<exists>r. e = RrAnswer tx r) effs) =
      count (sum_list (map given_tx calls)) tx)"
proof -
  have n: "rr_inv s0" "quiet s0" "owned_tx s0 = {#}" "pending_keys s0 = {}"
    using rr_new_empty [OF assms(1)] by simp_all
  have d: "\<forall>tx. RrDrop tx \<notin> set effs"
    using run_calls_enters [OF n(2) assms(2,4,3)] n(4) by (simp add: enters_def)
  have "owned_tx s + settled_txs effs = sum_list (map given_tx calls)"
    using rr.run_linear [OF n(1) assms(4)] n(3) by simp
  then have "count (owned_tx s) tx + count (settled_txs effs) tx =
      count (sum_list (map given_tx calls)) tx" for tx
    by (metis count_union)
  with d count_settled_txs [OF d] show ?thesis by simp
qed

definition sample_round :: "instant option \<Rightarrow> (nat, nat) polled list \<Rightarrow> (nat, nat) poll_round" where
  "sample_round tick polled =
     \<lparr>po_tick = tick, po_ready = [], po_polled = polled,
      po_send = (\<lambda>i. \<lparr>se_now = 0, se_connected = True, se_request_id = i\<rparr>)\<rparr>"

definition sample_env :: "instant \<Rightarrow> event_env" where
  "sample_env now = \<lparr>ee_now = now, ee_tx = 0, ee_accepted = True, ee_alive = True\<rparr>"

definition sample_ctx :: message_context where
  "sample_ctx = \<lparr>message_type = Coordination, protocol_id = 0, session_id = NO_SESSION_ID,
     message_id = 0\<rparr>"

definition sample_calls :: "(nat, nat) rr_call list" where
  "sample_calls =
     [CallBroadcast
        [(1, \<lparr>se_now = 0, se_connected = True, se_request_id = 0\<rparr>, 10),
         (2, \<lparr>se_now = 0, se_connected = False, se_request_id = 1\<rparr>, 11)]
        ''/room/a'' sample_ctx [] None TryConnect,
      CallPoll [''/room/a'']
        [sample_round None [Some (sample_env 5, P2pGenerateEvent (P2pResponse 1 0 (Inr [])))]]]"

definition sample_behaviour :: "nat rr_behaviour" where
  "sample_behaviour =
     (case rr_new [protocol_config_new ''/room/a'' (Some 0)] mock_peer_reputation of
        Inr s \<Rightarrow> s | Inl _ \<Rightarrow> undefined)"

lemma sample_behaviour_new:
  "rr_new [protocol_config_new ''/room/a'' (Some 0)] mock_peer_reputation = Inr sample_behaviour"
  by (simp add: sample_behaviour_def rr_new_def protocol_config_new_def)

lemma sample_calls_run:
  "run_calls rr_step sample_behaviour sample_calls =
     Inr (sample_behaviour\<lparr>rr_pending_requests :=
            [((''/room/a'', 1), \<lparr>pr_started_at = 0, pr_response_tx = Some 11,
                                 pr_fallback_request = None\<rparr>)]\<rparr>,
          [RrBridge 10 1 None,
           RrSendRequest ''/room/a'' 1
             \<lparr>wm_context = sample_ctx, wm_payload = [], wm_is_broadcast = True\<rparr> 0,
           RrBridge 11 2 None,
           RrSendRequest ''/room/a'' 2
             \<lparr>wm_context = sample_ctx, wm_payload = [], wm_is_broadcast = True\<rparr> 1,
           RrAnswer 10 (Inr ([], ''/room/a''))])"
  by (simp add: sample_calls_def sample_behaviour_def rr_new_def protocol_config_new_def
      rr_step_def send_request_with_context_def insert_pending_def should_connect_def
      sample_round_def rr_poll_round_def poll_tick_def on_p2p_event_def on_response_def
      sample_env_def)

lemma sample_calls_ok:
  "\<forall>c \<in> set sample_calls. worker_call (rr_protocols sample_behaviour) c"
  "distinct (concat (map call_keys sample_calls))"
  by (simp_all add: sample_calls_def sample_behaviour_def rr_new_def protocol_config_new_def)

section \<open>Properties\<close>

text \<open>
  C15: after a call of \<open>poll\<close> in which the periodic check is due, no request is pending
  that has been there for longer than its protocol's timeout, and every caller whose
  request was overdue has been sent a timeout.
\<close>

theorem overdue_requests_time_out:
  assumes "rr_new cfgs store = Inr s0"
    and "\<forall>c \<in> set calls. worker_call (rr_protocols s0) c"
    and "distinct (concat (map call_keys calls))"
    and "run_calls rr_step s0 calls = Inr (s, effs0)"
    and "po_tick r = Some now"
    and "rr_poll order (r # rs) s = Inr (s', effs, out)"
  shows "(\<forall>(i, req) \<in> set (rr_pending_requests s').
      \<exists>d. rr_protocols s (fst i) = Some d \<and> now - pr_started_at req \<le> pd_request_timeout d) \<and>
    (\<forall>i req d. (i, req) \<in> set (rr_pending_requests s) \<and> rr_protocols s (fst i) = Some d \<and>
       pd_request_timeout d < now - pr_started_at req \<longrightarrow>
       (\<exists>tx. pr_response_tx req = Some tx \<and> RrAnswer tx (Inl (Network OutTimeout)) \<in> set effs))"
proof -
  have n: "rr_inv s0" "quiet s0" "pending_keys s0 = {}"
    using rr_new_empty [OF assms(1)] by simp_all
  have q: "quiet s" using run_calls_enters [OF n(2) assms(2,4,3)] n(3) by (simp add: enters_def)
  have "rr_inv s" by (rule rr.run_inv [OF n(1) assms(4)])
  then have "pr_response_tx req \<noteq> None" if "(i, req) \<in> set (rr_pending_requests s)" for i req
    using that by (auto simp: rr_inv_def requests_wf_def)
  with rr_poll_tick [OF q assms(6,5)] show ?thesis
    by (fastforce simp: overdue_def not_less split: option.splits)
qed

theorem overdue_requests_time_out_witness:
  "\<exists>tx. RrAnswer tx (Inl (Network OutTimeout)) \<in>
      set (fst (snd (projr (rr_poll [''/room/a''] [sample_round (Some 30001) []]
        (fst (projr (run_calls rr_step sample_behaviour sample_calls)))))))"
proof -
  let ?s = "fst (projr (run_calls rr_step sample_behaviour sample_calls))"
  obtain s' effs out where
    p: "rr_poll [''/room/a''] [sample_round (Some 30001) []] ?s = Inr (s', effs, out)"
    unfolding sample_calls_run
    by (simp add: sample_behaviour_def rr_new_def protocol_config_new_def sample_round_def
        rr_poll_round_def poll_tick_def)
  have t: "po_tick (sample_round (Some 30001) []) = Some 30001" by (simp add: sample_round_def)
  note o = overdue_requests_time_out [OF sample_behaviour_new sample_calls_ok sample_calls_run t
      p [simplified sample_calls_run sum.sel prod.sel]]
  have "\<exists>tx. RrAnswer tx (Inl (Network OutTimeout)) \<in> set effs"
    using o [THEN conjunct2, rule_format, of "(''/room/a'', 1)"]
    by (fastforce simp: sample_behaviour_def rr_new_def protocol_config_new_def)
  then show ?thesis unfolding p by simp
qed

text \<open>
  C16: a request of a peer in good standing, on a protocol whose response builder has room,
  is handed to that builder unchanged with the sender's identity in the call of \<open>poll\<close> in
  which it arrives. Whatever calls of \<open>poll\<close> and of the sending operations come then, as long
  as the builder has not answered, the request waits; and the call of \<open>poll\<close> in which the
  answer is ready, among any other answers and events, sends the answer on the channel of
  that very request, after which nothing waits for it any more. The oneshot of a request is
  new: no other event brings the same one.
\<close>

theorem inbound_request_served:
  fixes r1 r2 :: "('p, 'x) poll_round" and calls :: "('p, 'x) rr_call list"
  assumes "rr_protocols s p = Some d" and "pd_inbound_queue d = Some q"
    and "BANNED_THRESHOLD \<le> rr_peer_store s peer" and "ee_accepted e" and "waiting (ee_tx e) s = []"
    and "list_all (\<lambda>x. rr_protocols s x \<noteq> None) before" and "ee_tx e \<notin> fst ` set (po_ready r1)"
    and "po_polled r1 = replicate (length before) None @
      Some (e, P2pGenerateEvent (P2pRequest peer rid request channel)) # later"
    and "list_all (unanswered_round (ee_tx e)) rs1"
    and "rr_poll (before @ p # after) (r1 # rs1) s = Inr (s1, effs1, out1)"
    and "list_all (unanswered_call (ee_tx e)) calls" and "run_calls rr_step s1 calls = Inr (s2, effs2)"
    and "po_ready r2 = xs @ (ee_tx e, Some resp, taken) # ys" and "or_result resp = Inr payload"
    and "ee_tx e \<notin> fst ` set xs" and "ee_tx e \<notin> fst ` set ys"
    and "fresh_polled (ee_tx e) (po_polled r2)" and "list_all (unanswered_round (ee_tx e)) rs2"
    and "rr_poll order2 (r2 # rs2) s2 = Inr (s3, effs3, out2)"
  shows "RrIncoming q \<lparr>ir_context = wm_context request, ir_peer = peer, ir_peer_id = peer,
      ir_is_broadcast = wm_is_broadcast request, ir_peer_index = 0, ir_payload = wm_payload request,
      ir_pending_response = ee_tx e\<rparr> \<in> set effs1 \<and>
    waiting (ee_tx e) s2 =
      [\<lparr>ps_rx = ee_tx e, ps_peer = peer, ps_request_id = rid, ps_protocol = p, ps_channel = channel\<rparr>] \<and>
    RrSendResponse p channel payload \<in> set effs3 \<and> waiting (ee_tx e) s3 = []"
proof -
  from poll_round_request [OF assms(1-8)] obtain s0 effs0 where
    0: "rr_poll_round (before @ p # after) r1 s = Inr (s0, effs0, PollAgain)"
    and i: "RrIncoming q \<lparr>ir_context = wm_context request, ir_peer = peer, ir_peer_id = peer,
      ir_is_broadcast = wm_is_broadcast request, ir_peer_index = 0, ir_payload = wm_payload request,
      ir_pending_response = ee_tx e\<rparr> \<in> set effs0"
    and w: "waiting (ee_tx e) s0 =
      [\<lparr>ps_rx = ee_tx e, ps_peer = peer, ps_request_id = rid, ps_protocol = p, ps_channel = channel\<rparr>]"
      "rr_protocols s0 = rr_protocols s" by blast
  from assms(10) 0 obtain effs0' where "rr_poll (before @ p # after) rs1 s0 = Inr (s1, effs0', out1)"
    and e: "effs1 = effs0 @ effs0'" by auto
  from rr_poll_keeps [OF this(1) assms(9)] run_calls_keeps [OF assms(12,11)]
  have "keeps (ee_tx e) s0 s2" by (rule keeps_trans)
  with w have "waiting (ee_tx e) s2 =
      [\<lparr>ps_rx = ee_tx e, ps_peer = peer, ps_request_id = rid, ps_protocol = p, ps_channel = channel\<rparr>]"
    and "rr_protocols s2 p = Some d"
    using assms(1) by (simp_all add: keeps_def)
  with rr_poll_answer [OF this(1) _ assms(14,13,15-19), of d] i e show ?thesis by simp
qed

text \<open>A request of peer 7 in one call of \<open>poll\<close>, the sends of the sample in between, and its answer
  in a later call.\<close>

definition calls_between :: "(nat, nat) rr_call list" where
  "calls_between =
     [CallBroadcast [(1, \<lparr>se_now = 6, se_connected = True, se_request_id = 0\<rparr>, 10)] ''/room/a'' sample_ctx []
        None TryConnect,
      CallPoll [''/room/a''] [sample_round (Some 9) []]]"

definition request_round :: "(nat, nat) poll_round" where
  "request_round =
     sample_round None [Some (sample_env 5, P2pGenerateEvent (P2pRequest 7 3 (compat_wire_message [1]) 4))]"

definition answer_round :: "(nat, nat) poll_round" where
  "answer_round = (sample_round None [])
     \<lparr>po_ready := [(0, Some \<lparr>or_result = Inr [2], or_sent_feedback = None\<rparr>, True)]\<rparr>"

lemma sample_inbound_runs:
  "\<exists>s1 effs1 s2 effs2 s3 effs3.
     rr_poll ([] @ [''/room/a'']) [request_round] sample_behaviour = Inr (s1, effs1, None) \<and>
     run_calls rr_step s1 calls_between = Inr (s2, effs2) \<and>
     rr_poll [''/room/a''] [answer_round] s2 = Inr (s3, effs3, None)"
  by (simp add: sample_behaviour_def rr_new_def protocol_config_new_def request_round_def sample_round_def
      sample_env_def rr_poll_round_def poll_tick_def on_p2p_event_def on_request_def mock_peer_reputation_def
      BANNED_THRESHOLD_def calls_between_def rr_step_def send_request_with_context_def insert_pending_def
      should_connect_def answer_round_def finish_response_def)

theorem inbound_request_served_witness:
  "\<exists>s1 effs1 s2 effs2 s3 effs3.
     rr_poll ([] @ [''/room/a'']) [request_round] sample_behaviour = Inr (s1, effs1, None) \<and>
     run_calls rr_step s1 calls_between = Inr (s2, effs2) \<and>
     rr_poll [''/room/a''] [answer_round] s2 = Inr (s3, effs3, None) \<and>
     RrSendResponse ''/room/a'' 4 [2] \<in> set effs3 \<and> waiting 0 s3 = []"
proof -
  obtain s1 effs1 s2 effs2 s3 effs3 where r:
    "rr_poll ([] @ [''/room/a'']) [request_round] sample_behaviour = Inr (s1, effs1, None)"
    "run_calls rr_step s1 calls_between = Inr (s2, effs2)"
    "rr_poll [''/room/a''] [answer_round] s2 = Inr (s3, effs3, None)"
    using sample_inbound_runs by blast
  have p: "rr_protocols sample_behaviour ''/room/a'' = Some (the (rr_protocols sample_behaviour ''/room/a''))"
    "pd_inbound_queue (the (rr_protocols sample_behaviour ''/room/a'')) = Some 0"
    "BANNED_THRESHOLD \<le> rr_peer_store sample_behaviour 7" "waiting 0 sample_behaviour = []"
    by (simp_all add: sample_behaviour_def rr_new_def protocol_config_new_def mock_peer_reputation_def
        BANNED_THRESHOLD_def waiting_def)
  have "RrSendResponse ''/room/a'' 4 [2] \<in> set effs3 \<and> waiting 0 s3 = []"
    using inbound_request_served [of sample_behaviour "''/room/a''"
        "the (rr_protocols sample_behaviour ''/room/a'')" 0 7 "sample_env 5" "[]" request_round 3
        "compat_wire_message [1]" 4 "[]" "[]" "[]" s1 effs1 None calls_between s2 effs2 answer_round "[]"
        "\<lparr>or_result = Inr [2], or_sent_feedback = None\<rparr>" True "[]" "[2]" "[]" "[''/room/a'']" s3 effs3 None]
      p r
    by (simp del: rr_poll.simps append.simps add: sample_env_def request_round_def answer_round_def sample_round_def
        calls_between_def unanswered_round_def)
  with r show ?thesis by blast
qed

end
