(* ===== verification/Discovery.thy ===== *)
theory Discovery
  imports Net_Config
begin

text \<open>
  \<open>network/src/discovery.rs\<close>: the configuration of peer discovery, the addresses it knows, its
  reactions to the swarm's events and \<open>poll\<close>. Kademlia and mDNS are libp2p behaviours: calls
  on them are effects, what they yield is an input. The ordered set of the crate
  \<open>linked_hash_set\<close> and the classification of IP addresses of \<open>ip_network\<close> are parameters.
\<close>

section \<open>Configuration\<close>

definition MAX_KNOWN_EXTERNAL_ADDRESSES :: nat where
  "MAX_KNOWN_EXTERNAL_ADDRESSES = 32"

definition DEFAULT_KADEMLIA_REPLICATION_FACTOR :: nat where
  "DEFAULT_KADEMLIA_REPLICATION_FACTOR = 20"

definition GET_RECORD_REDUNDANCY_FACTOR :: nat where
  "GET_RECORD_REDUNDANCY_FACTOR = 4"

definition KAD_QUERY_TIMEOUT :: nat where
  "KAD_QUERY_TIMEOUT = from_secs 300"

definition KADEMLIA_MAX_PROVIDER_KEYS :: nat where
  "KADEMLIA_MAX_PROVIDER_KEYS = 10000"

definition KADEMLIA_PROVIDER_RECORD_TTL :: nat where
  "KADEMLIA_PROVIDER_RECORD_TTL = from_secs (10 * 3600)"

definition KADEMLIA_PROVIDER_REPUBLISH_INTERVAL :: nat where
  "KADEMLIA_PROVIDER_REPUBLISH_INTERVAL = from_secs 12600"

record 'p discovery_config =
  dc_local_peer_id :: 'p
  dc_permanent_addresses :: "('p \<times> 'p multiaddr) list"
  dc_dht_random_walk :: bool
  dc_allow_private_ip :: bool
  dc_allow_non_globals_in_dht :: bool
  dc_discovery_only_if_under_num :: u64
  dc_enable_mdns :: bool
  dc_kademlia_disjoint_query_paths :: bool
  dc_kademlia_protocol :: "string option"
  dc_kademlia_replication_factor :: nat

definition discovery_config_new :: "'p \<Rightarrow> 'p discovery_config" where
  "discovery_config_new me =
     \<lparr>dc_local_peer_id = me, dc_permanent_addresses = [], dc_dht_random_walk = True,
      dc_allow_private_ip = True, dc_allow_non_globals_in_dht = False,
      dc_discovery_only_if_under_num = - 1, dc_enable_mdns = False,
      dc_kademlia_disjoint_query_paths = False, dc_kademlia_protocol = None,
      dc_kademlia_replication_factor = DEFAULT_KADEMLIA_REPLICATION_FACTOR\<rparr>"

definition discovery_limit :: "u64 \<Rightarrow> 'p discovery_config \<Rightarrow> 'p discovery_config" where
  "discovery_limit limit c = c\<lparr>dc_discovery_only_if_under_num := limit\<rparr>"

definition with_permanent_addresses ::
    "('p \<times> 'p multiaddr) list \<Rightarrow> 'p discovery_config \<Rightarrow> 'p discovery_config" where
  "with_permanent_addresses addrs c =
     c\<lparr>dc_permanent_addresses := dc_permanent_addresses c @ addrs\<rparr>"

definition with_dht_random_walk :: "bool \<Rightarrow> 'p discovery_config \<Rightarrow> 'p discovery_config" where
  "with_dht_random_walk v c = c\<lparr>dc_dht_random_walk := v\<rparr>"

definition allow_private_ip :: "bool \<Rightarrow> 'p discovery_config \<Rightarrow> 'p discovery_config" where
  "allow_private_ip v c = c\<lparr>dc_allow_private_ip := v\<rparr>"

definition allow_non_globals_in_dht :: "bool \<Rightarrow> 'p discovery_config \<Rightarrow> 'p discovery_config" where
  "allow_non_globals_in_dht v c = c\<lparr>dc_allow_non_globals_in_dht := v\<rparr>"

definition with_mdns :: "bool \<Rightarrow> 'p discovery_config \<Rightarrow> 'p discovery_config" where
  "with_mdns v c = c\<lparr>dc_enable_mdns := v\<rparr>"

definition with_kademlia :: "string \<Rightarrow> 'p discovery_config \<Rightarrow> 'p discovery_config" where
  "with_kademlia protocol c = c\<lparr>dc_kademlia_protocol := Some protocol\<rparr>"

definition use_kademlia_disjoint_query_paths ::
    "bool \<Rightarrow> 'p discovery_config \<Rightarrow> 'p discovery_config" where
  "use_kademlia_disjoint_query_paths v c = c\<lparr>dc_kademlia_disjoint_query_paths := v\<rparr>"

definition with_kademlia_replication_factor ::
    "nat \<Rightarrow> 'p discovery_config \<Rightarrow> 'p discovery_config" where
  "with_kademlia_replication_factor v c = c\<lparr>dc_kademlia_replication_factor := v\<rparr>"

section \<open>State, events and effects\<close>

type_synonym record_key = bytes
type_synonym query_id = nat

record 'p kad_record =
  kr_key :: record_key
  kr_value :: bytes
  kr_publisher :: "'p option"
  kr_expires :: "instant option"

datatype 'p discovery_out =
    Discovered 'p
  | UnroutablePeer 'p
  | ClosestPeersFound 'p "('p \<times> 'p multiaddr list) list" nat
  | ClosestPeersNotFound 'p nat
  | ValueFound "'p kad_record" nat
  | PutRecordRequest record_key bytes "'p option" "instant option"
  | ValueNotFound record_key nat
  | ValuePut record_key nat
  | ValuePutFailed record_key nat
  | StartedProviding record_key nat
  | StartProvidingFailed record_key nat
  | ProvidersFound record_key "'p set" nat
  | NoMoreProviders record_key nat
  | ProvidersNotFound record_key nat
  | RandomKademliaStarted

text \<open>What \<open>finish\<close> configures Kademlia with.\<close>

record kad_config =
  kc_protocol :: string
  kc_replication_factor :: nat
  kc_filter_both :: bool
  kc_query_timeout :: nat
  kc_manual_inserts :: bool
  kc_disjoint_query_paths :: bool
  kc_provider_record_ttl :: nat
  kc_provider_publication_interval :: nat
  kc_max_provided_keys :: nat
  kc_server_mode :: bool

datatype ('p, 'x) discovery_call =
    KadAddAddress 'p "'p multiaddr"
  | KadBootstrap
  | KadGetClosestPeers 'p
  | KadGetRecord record_key
  | KadPutRecord "'p kad_record"
  | KadStartProviding record_key
  | KadStopProviding record_key
  | KadGetProviders record_key
  | KadStorePut "'p kad_record"
  | KadFinishQuery query_id
  | KadPutRecordTo "'p kad_record" "'p list"
  | KadOnSwarmEvent 'x
  | MdnsOnSwarmEvent 'x

text \<open>The set of known external addresses is a hash set with a size limit; its iterator yields
  the elements in an order that the parameter \<open>first\<close> of \<open>lru_insert\<close> stands for.\<close>

record 'a lru_hash_set =
  lru_inner :: "'a set"
  lru_max_size :: nat

definition lru_new :: "nat \<Rightarrow> 'a lru_hash_set" where
  "lru_new max_size = \<lparr>lru_inner = {}, lru_max_size = max_size\<rparr>"

definition lru_insert :: "('a set \<Rightarrow> 'a) \<Rightarrow> 'a \<Rightarrow> 'a lru_hash_set \<Rightarrow> 'a lru_hash_set \<times> bool" where
  "lru_insert first v l =
     (if v \<in> lru_inner l then (l, False)
      else if lru_max_size l \<le> card (lru_inner l) \<and> lru_inner l \<noteq> {} then
        (l\<lparr>lru_inner := insert v (lru_inner l - {first (lru_inner l)})\<rparr>, True)
      else (l\<lparr>lru_inner := insert v (lru_inner l)\<rparr>, True))"

record 'p discovery =
  db_permanent_addresses :: "('p \<times> 'p multiaddr) list"
  db_ephemeral_addresses :: "'p \<rightharpoonup> 'p multiaddr list"
  db_kademlia :: "kad_config option"
  db_mdns :: bool
  db_next_kad_random_query :: "instant option"
  db_duration_to_next_kad :: nat
  db_pending_events :: "'p discovery_out list"
  db_local_peer_id :: 'p
  db_num_connections :: u64
  db_allow_private_ip :: bool
  db_discovery_only_if_under_num :: u64
  db_allow_non_globals_in_dht :: bool
  db_known_external_addresses :: "'p multiaddr lru_hash_set"
  db_records_to_publish :: "query_id \<rightharpoonup> 'p kad_record"
  db_kademlia_protocol :: "string option"
  db_provider_keys_requested :: "query_id \<rightharpoonup> record_key"

text \<open>\<open>mdns_ok\<close> is whether mDNS can be initialised; the first random query is due at once.\<close>

definition discovery_finish ::
    "bool \<Rightarrow> instant \<Rightarrow> 'p discovery_config \<Rightarrow> 'p discovery \<times> ('p, 'x) discovery_call list" where
  "discovery_finish mdns_ok now c =
     (\<lparr>db_permanent_addresses = dc_permanent_addresses c,
       db_ephemeral_addresses = Map.empty,
       db_kademlia = map_option (\<lambda>protocol.
         \<lparr>kc_protocol = protocol, kc_replication_factor = dc_kademlia_replication_factor c,
          kc_filter_both = True, kc_query_timeout = KAD_QUERY_TIMEOUT, kc_manual_inserts = True,
          kc_disjoint_query_paths = dc_kademlia_disjoint_query_paths c,
          kc_provider_record_ttl = KADEMLIA_PROVIDER_RECORD_TTL,
          kc_provider_publication_interval = KADEMLIA_PROVIDER_REPUBLISH_INTERVAL,
          kc_max_provided_keys = KADEMLIA_MAX_PROVIDER_KEYS, kc_server_mode = True\<rparr>) (dc_kademlia_protocol c),
       db_mdns = (dc_enable_mdns c \<and> mdns_ok),
       db_next_kad_random_query = (if dc_dht_random_walk c then Some now else None),
       db_duration_to_next_kad = from_secs 1,
       db_pending_events = [],
       db_local_peer_id = dc_local_peer_id c,
       db_num_connections = 0,
       db_allow_private_ip = dc_allow_private_ip c,
       db_discovery_only_if_under_num = dc_discovery_only_if_under_num c,
       db_allow_non_globals_in_dht = dc_allow_non_globals_in_dht c,
       db_known_external_addresses = lru_new MAX_KNOWN_EXTERNAL_ADDRESSES,
       db_records_to_publish = Map.empty,
       db_kademlia_protocol = dc_kademlia_protocol c,
       db_provider_keys_requested = Map.empty\<rparr>,
      case dc_kademlia_protocol c of
        None \<Rightarrow> []
      | Some _ \<Rightarrow> map (\<lambda>(p, a). KadAddAddress p a) (dc_permanent_addresses c) @ [KadBootstrap])"

section \<open>Operations\<close>

text \<open>The parameter is the content of the k-buckets.\<close>

definition known_peers :: "'p list list \<Rightarrow> 'p discovery \<Rightarrow> 'p set" where
  "known_peers kbuckets s = (if db_kademlia s \<noteq> None then set (concat kbuckets) else {})"

definition add_known_address ::
    "'p \<Rightarrow> 'p multiaddr \<Rightarrow> 'p discovery \<Rightarrow> 'p discovery \<times> ('p, 'x) discovery_call list" where
  "add_known_address p addr s =
     (let addrs_list = (case db_ephemeral_addresses s p of None \<Rightarrow> [] | Some l \<Rightarrow> l) in
      if addr \<in> set addrs_list then (s, [])
      else (s\<lparr>db_ephemeral_addresses := (db_ephemeral_addresses s)(p \<mapsto> addrs_list @ [addr]),
              db_pending_events := db_pending_events s @ [Discovered p]\<rparr>,
            if db_kademlia s \<noteq> None then [KadAddAddress p addr] else []))"

record ip_ops =
  ip4_is_global :: "nat \<Rightarrow> bool"
  ip6_is_global :: "nat \<Rightarrow> bool"

fun can_add_to_dht :: "ip_ops \<Rightarrow> 'p multiaddr \<Rightarrow> bool" where
  "can_add_to_dht N (Ip4 ip # _) = ip4_is_global N ip"
| "can_add_to_dht N (Ip6 ip # _) = ip6_is_global N ip"
| "can_add_to_dht N (Dns _ # _) = True"
| "can_add_to_dht N (Dns4 _ # _) = True"
| "can_add_to_dht N (Dns6 _ # _) = True"
| "can_add_to_dht N _ = False"

definition add_self_reported_address ::
    "ip_ops \<Rightarrow> 'p \<Rightarrow> string list \<Rightarrow> 'p multiaddr \<Rightarrow> 'p discovery \<Rightarrow> ('p, 'x) discovery_call list" where
  "add_self_reported_address N p supported_protocols addr s =
     (if db_kademlia s = None then []
      else if \<not> db_allow_non_globals_in_dht s \<and> \<not> can_add_to_dht N addr then []
      else case db_kademlia_protocol s of
             Some kademlia_protocol \<Rightarrow>
               if kademlia_protocol \<notin> set supported_protocols then [] else [KadAddAddress p addr]
           | None \<Rightarrow> [KadAddAddress p addr])"

text \<open>The calls that are passed on to Kademlia when there is one. \<open>ok\<close> is the outcome of the
  call, \<open>qid\<close> the id it returns.\<close>

definition find_closest_peers :: "'p \<Rightarrow> 'p discovery \<Rightarrow> ('p, 'x) discovery_call list" where
  "find_closest_peers target s = (if db_kademlia s \<noteq> None then [KadGetClosestPeers target] else [])"

definition get_value :: "record_key \<Rightarrow> 'p discovery \<Rightarrow> ('p, 'x) discovery_call list" where
  "get_value key s = (if db_kademlia s \<noteq> None then [KadGetRecord key] else [])"

definition put_value ::
    "bool \<Rightarrow> record_key \<Rightarrow> bytes \<Rightarrow> 'p discovery \<Rightarrow> 'p discovery \<times> ('p, 'x) discovery_call list" where
  "put_value ok key v s =
     (if db_kademlia s = None then (s, [])
      else (if ok then s
            else s\<lparr>db_pending_events := db_pending_events s @ [ValuePutFailed key 0]\<rparr>,
            [KadPutRecord \<lparr>kr_key = key, kr_value = v, kr_publisher = None, kr_expires = None\<rparr>]))"

definition start_providing ::
    "bool \<Rightarrow> record_key \<Rightarrow> 'p discovery \<Rightarrow> 'p discovery \<times> ('p, 'x) discovery_call list" where
  "start_providing ok key s =
     (if db_kademlia s = None then (s, [])
      else (if ok then s
            else s\<lparr>db_pending_events := db_pending_events s @ [StartProvidingFailed key 0]\<rparr>,
            [KadStartProviding key]))"

definition stop_providing :: "record_key \<Rightarrow> 'p discovery \<Rightarrow> ('p, 'x) discovery_call list" where
  "stop_providing key s = (if db_kademlia s \<noteq> None then [KadStopProviding key] else [])"

definition get_providers ::
    "query_id \<Rightarrow> record_key \<Rightarrow> 'p discovery \<Rightarrow> 'p discovery \<times> ('p, 'x) discovery_call list" where
  "get_providers qid key s =
     (if db_kademlia s = None then (s, [])
      else (s\<lparr>db_provider_keys_requested := (db_provider_keys_requested s)(qid \<mapsto> key)\<rparr>,
            [KadGetProviders key]))"

definition store_record ::
    "record_key \<Rightarrow> bytes \<Rightarrow> 'p option \<Rightarrow> instant option \<Rightarrow> 'p discovery \<Rightarrow>
     ('p, 'x) discovery_call list" where
  "store_record key v publisher expires s =
     (if db_kademlia s \<noteq> None
      then [KadStorePut \<lparr>kr_key = key, kr_value = v, kr_publisher = publisher, kr_expires = expires\<rparr>]
      else [])"

definition discovery_bootstrap ::
    "anyhow + query_id \<Rightarrow> 'p discovery \<Rightarrow> (anyhow + query_id) \<times> ('p, 'x) discovery_call list" where
  "discovery_bootstrap r s =
     (if db_kademlia s \<noteq> None then (r, [KadBootstrap])
      else (Inl ''Kademlia is not activated'', []))"

section \<open>Addresses for a dial\<close>

text \<open>
  The ordered set: \<open>lhs_collect\<close> collects a sequence, \<open>lhs_insert_if_absent\<close> adds at the end
  what is not in it; a value of the set is the list of its elements in order.
\<close>

record 'a lhs_ops =
  lhs_collect :: "'a list \<Rightarrow> 'a list"
  lhs_insert_if_absent :: "'a \<Rightarrow> 'a list \<Rightarrow> 'a list"

definition lhs_laws :: "'a lhs_ops \<Rightarrow> bool" where
  "lhs_laws L \<longleftrightarrow>
     (\<forall>xs. distinct (lhs_collect L xs) \<and> set (lhs_collect L xs) = set xs) \<and>
     (\<forall>x xs. lhs_insert_if_absent L x xs = (if x \<in> set xs then xs else xs @ [x]))"

fun is_private :: "ip_ops \<Rightarrow> 'p multiaddr \<Rightarrow> bool" where
  "is_private N (Ip4 ip # _) \<longleftrightarrow> \<not> ip4_is_global N ip"
| "is_private N (Ip6 ip # _) \<longleftrightarrow> \<not> ip6_is_global N ip"
| "is_private N _ \<longleftrightarrow> False"

text \<open>What the two behaviours answer is a list or the denial of the connection.\<close>

definition handle_pending_outbound_connection ::
    "'p multiaddr lhs_ops \<Rightarrow> ip_ops \<Rightarrow> 'p option \<Rightarrow> 'd + 'p multiaddr list \<Rightarrow> 'd + 'p multiaddr list \<Rightarrow>
     'p discovery \<Rightarrow> 'd + 'p multiaddr list" where
  "handle_pending_outbound_connection L N maybe_peer from_kademlia from_mdns s =
     (case maybe_peer of
        None \<Rightarrow> Inr []
      | Some p \<Rightarrow>
          let list = lhs_collect L (map snd (filter (\<lambda>(q, a). q = p) (db_permanent_addresses s)));
              list = (case db_ephemeral_addresses s p of
                        None \<Rightarrow> list | Some addrs \<Rightarrow> fold (lhs_insert_if_absent L) addrs list)
          in bindR from_kademlia (\<lambda>l1. bindR from_mdns (\<lambda>l2.
               let list_to_filter =
                     (if db_allow_private_ip s then l1 @ l2
                      else filter (\<lambda>a. \<not> is_private N a) (l1 @ l2))
               in Inr (fold (lhs_insert_if_absent L) list_to_filter list))))"

section \<open>Events of the swarm\<close>

text \<open>The events of \<open>FromSwarm\<close> by what the handler does with them; \<open>'x\<close> is the event as it is
  passed on.\<close>

datatype ('p, 'x) from_swarm =
    FsConnectionEstablished 'x
  | FsConnectionClosed 'x
  | FsDialFailure "'p option" "'p multiaddr list option" 'x
  | FsKademliaOnly 'x
  | FsNewListenAddr 'x
  | FsExternalAddrConfirmed "'p multiaddr" 'x
  | FsNewExternalAddrOfPeer 'x
  | FsUnknown 'x

text \<open>A failed dial with transport errors removes each address it names.\<close>

definition remove_failed_addresses ::
    "'p multiaddr list \<Rightarrow> 'p \<Rightarrow> ('p \<rightharpoonup> 'p multiaddr list) \<Rightarrow> ('p \<rightharpoonup> 'p multiaddr list)" where
  "remove_failed_addresses errors p ephemeral =
     (case ephemeral p of
        None \<Rightarrow> ephemeral
      | Some addrs \<Rightarrow>
          let left = fold (\<lambda>addr l. filter (\<lambda>a. a \<noteq> addr) l) errors addrs in
          if left = [] then ephemeral(p := None) else ephemeral(p \<mapsto> left))"

definition on_external_addr_confirmed ::
    "('p multiaddr set \<Rightarrow> 'p multiaddr) \<Rightarrow> ip_ops \<Rightarrow> 'p multiaddr \<Rightarrow> 'x \<Rightarrow> 'p discovery \<Rightarrow>
     'p discovery \<times> ('p, 'x) discovery_call list" where
  "on_external_addr_confirmed first N addr x s =
     (let foreign = (addr \<noteq> [] \<and> (\<exists>p. last addr = P2p p \<and> p \<noteq> db_local_peer_id s));
          address = (if addr \<noteq> [] \<and> (\<exists>p. last addr = P2p p) then addr
                     else addr @ [P2p (db_local_peer_id s)])
      in if foreign then (s, [])
         else (if can_add_to_dht N address
               then s\<lparr>db_known_external_addresses :=
                        fst (lru_insert first address (db_known_external_addresses s))\<rparr>
               else s,
               [KadOnSwarmEvent x]))"

text \<open>The counter of connections is a \<open>u64\<close> whose arithmetic is checked.\<close>

definition discovery_on_swarm_event ::
    "('p multiaddr set \<Rightarrow> 'p multiaddr) \<Rightarrow> ip_ops \<Rightarrow> ('p, 'x) from_swarm \<Rightarrow> 'p discovery \<Rightarrow>
     (anyhow, 'p discovery \<times> ('p, 'x) discovery_call list) res" where
  "discovery_on_swarm_event first N event s =
     (case event of
        FsConnectionEstablished x \<Rightarrow>
          bindR (checked_inc (db_num_connections s)) (\<lambda>n.
            Inr (s\<lparr>db_num_connections := n\<rparr>, [KadOnSwarmEvent x]))
      | FsConnectionClosed x \<Rightarrow>
          bindR (checked_dec (db_num_connections s)) (\<lambda>n.
            Inr (s\<lparr>db_num_connections := n\<rparr>, [KadOnSwarmEvent x]))
      | FsDialFailure maybe_peer transport_errors x \<Rightarrow>
          Inr (case (maybe_peer, transport_errors) of
                 (Some p, Some errors) \<Rightarrow>
                   s\<lparr>db_ephemeral_addresses :=
                       remove_failed_addresses errors p (db_ephemeral_addresses s)\<rparr>
               | _ \<Rightarrow> s,
               [KadOnSwarmEvent x])
      | FsKademliaOnly x \<Rightarrow> Inr (s, [KadOnSwarmEvent x])
      | FsNewListenAddr x \<Rightarrow> Inr (s, [KadOnSwarmEvent x, MdnsOnSwarmEvent x])
      | FsExternalAddrConfirmed addr x \<Rightarrow> Inr (on_external_addr_confirmed first N addr x s)
      | FsNewExternalAddrOfPeer x \<Rightarrow> Inr (s, [KadOnSwarmEvent x, MdnsOnSwarmEvent x])
      | FsUnknown x \<Rightarrow> Inr (s, [KadOnSwarmEvent x, MdnsOnSwarmEvent x]))"

section \<open>Polling\<close>

record query_stats =
  qs_duration :: "nat option"
  qs_num_successes :: nat

definition stats_duration :: "query_stats \<Rightarrow> nat" where
  "stats_duration stats = (case qs_duration stats of None \<Rightarrow> 0 | Some d \<Rightarrow> d)"

text \<open>
  The results of a query. A query for the closest peers carries whether it timed out, the key
  and the peers found; one for a record ends with the peers that should cache it, or fails.
\<close>

datatype 'p query_result =
    GetClosestPeers bool bytes "('p \<times> 'p multiaddr list) list"
  | GetRecordFound "'p kad_record"
  | GetRecordFinished "'p list"
  | GetRecordError record_key
  | GetProvidersFound record_key "'p set"
  | GetProvidersFinished
  | GetProvidersTimeout record_key
  | PutRecordResult bool record_key
  | RepublishRecord
  | StartProvidingResult bool record_key
  | BootstrapResult
  | OtherQueryResult

datatype 'p kad_event =
    RoutingUpdated 'p
  | KadUnroutablePeer 'p
  | RoutablePeer
  | PendingRoutablePeer
  | InboundPutRecord "'p kad_record"
  | InboundOther
  | OutboundQueryProgressed query_id query_stats "'p query_result"
  | ModeChanged

definition on_closest_peers ::
    "(bytes \<Rightarrow> 'p option) \<Rightarrow> bytes \<Rightarrow> ('p \<times> 'p multiaddr list) list \<Rightarrow> query_stats \<Rightarrow>
     'p discovery_out option" where
  "on_closest_peers peer_from_bytes key found stats =
     (case peer_from_bytes key of
        None \<Rightarrow> None
      | Some target \<Rightarrow>
          Some (if found = [] then ClosestPeersNotFound target (stats_duration stats)
                else ClosestPeersFound target found (stats_duration stats)))"

text \<open>\<open>query_open\<close> is whether \<open>query_mut\<close> finds the query.\<close>

definition on_get_record ::
    "bool \<Rightarrow> query_id \<Rightarrow> query_stats \<Rightarrow> 'p query_result \<Rightarrow> 'p discovery \<Rightarrow>
     'p discovery \<times> ('p, 'x) discovery_call list \<times> 'p discovery_out option" where
  "on_get_record query_open qid stats res s =
     (case res of
        GetRecordFound r \<Rightarrow>
          (s\<lparr>db_records_to_publish := (db_records_to_publish s)(qid \<mapsto> r)\<rparr>,
           if GET_RECORD_REDUNDANCY_FACTOR < qs_num_successes stats \<and> db_kademlia s \<noteq> None \<and>
              query_open
           then [KadFinishQuery qid] else [],
           Some (ValueFound r (stats_duration stats)))
      | GetRecordFinished cache_candidates \<Rightarrow>
          (s\<lparr>db_records_to_publish := (db_records_to_publish s)(qid := None)\<rparr>,
           (case db_records_to_publish s qid of
              None \<Rightarrow> []
            | Some record \<Rightarrow>
                if cache_candidates = [] \<or> db_kademlia s = None then []
                else [KadPutRecordTo record cache_candidates]),
           None)
      | GetRecordError key \<Rightarrow> (s, [], Some (ValueNotFound key (stats_duration stats)))
      | _ \<Rightarrow> (s, [], None))"

definition on_get_providers ::
    "query_id \<Rightarrow> query_stats \<Rightarrow> 'p query_result \<Rightarrow> 'p discovery \<Rightarrow>
     'p discovery \<times> 'p discovery_out option" where
  "on_get_providers qid stats res s =
     (let s' = s\<lparr>db_provider_keys_requested := (db_provider_keys_requested s)(qid := None)\<rparr> in
      case res of
        GetProvidersFound key providers \<Rightarrow>
          (s, Some (ProvidersFound key providers (stats_duration stats)))
      | GetProvidersFinished \<Rightarrow>
          (case db_provider_keys_requested s qid of
             Some key \<Rightarrow> (s', Some (NoMoreProviders key (stats_duration stats)))
           | None \<Rightarrow> (s', None))
      | GetProvidersTimeout key \<Rightarrow>
          (s', Some (ProvidersNotFound key (stats_duration stats)))
      | _ \<Rightarrow> (s, None))"

text \<open>The queries that keep no state; the outcome of some of them is only logged.\<close>

definition on_other_result :: "query_stats \<Rightarrow> 'p query_result \<Rightarrow> 'p discovery_out option" where
  "on_other_result stats res =
     (case res of
        PutRecordResult ok key \<Rightarrow>
          Some (if ok then ValuePut key (stats_duration stats)
                else ValuePutFailed key (stats_duration stats))
      | StartProvidingResult ok key \<Rightarrow>
          Some (if ok then StartedProviding key (stats_duration stats)
                else StartProvidingFailed key (stats_duration stats))
      | RepublishRecord \<Rightarrow> None
      | BootstrapResult \<Rightarrow> None
      | _ \<Rightarrow> None)"

definition on_kad_event ::
    "(bytes \<Rightarrow> 'p option) \<Rightarrow> bool \<Rightarrow> 'p kad_event \<Rightarrow> 'p discovery \<Rightarrow>
     'p discovery \<times> ('p, 'x) discovery_call list \<times> 'p discovery_out option" where
  "on_kad_event peer_from_bytes query_open ev s =
     (case ev of
        RoutingUpdated p \<Rightarrow> (s, [], Some (Discovered p))
      | KadUnroutablePeer p \<Rightarrow> (s, [], Some (UnroutablePeer p))
      | RoutablePeer \<Rightarrow> (s, [], None)
      | PendingRoutablePeer \<Rightarrow> (s, [], None)
      | InboundPutRecord r \<Rightarrow>
          (s, [], Some (PutRecordRequest (kr_key r) (kr_value r) (kr_publisher r) (kr_expires r)))
      | InboundOther \<Rightarrow> (s, [], None)
      | ModeChanged \<Rightarrow> (s, [], None)
      | OutboundQueryProgressed qid stats res \<Rightarrow>
          (case res of
             GetClosestPeers timeout key found \<Rightarrow>
               (s, [], on_closest_peers peer_from_bytes key found stats)
           | GetRecordFound r \<Rightarrow> on_get_record query_open qid stats res s
           | GetRecordFinished cs \<Rightarrow> on_get_record query_open qid stats res s
           | GetRecordError key \<Rightarrow> on_get_record query_open qid stats res s
           | GetProvidersFound key ps \<Rightarrow> (let (s', out) = on_get_providers qid stats res s in (s', [], out))
           | GetProvidersFinished \<Rightarrow> (let (s', out) = on_get_providers qid stats res s in (s', [], out))
           | GetProvidersTimeout key \<Rightarrow> (let (s', out) = on_get_providers qid stats res s in (s', [], out))
           | _ \<Rightarrow> (s, [], on_other_result stats res)))"

datatype ('p, 'x) discovery_poll = OutEvent "'p discovery_out" | OutOther 'x | OutPending

datatype ('p, 'x) kad_poll = KadGenerateEvent bool "'p kad_event" | KadDialOrOther 'x

fun poll_kad ::
    "(bytes \<Rightarrow> 'p option) \<Rightarrow> ('p, 'x) kad_poll list \<Rightarrow> 'p discovery \<Rightarrow>
     'p discovery \<times> ('p, 'x) discovery_call list \<times> ('p, 'x) discovery_poll" where
  "poll_kad pfb [] s = (s, [], OutPending)"
| "poll_kad pfb (KadDialOrOther x # evs) s = (s, [], OutOther x)"
| "poll_kad pfb (KadGenerateEvent query_open ev # evs) s =
     (let (s1, calls1, out) = on_kad_event pfb query_open ev s in
      case out of
        Some o1 \<Rightarrow> (s1, calls1, OutEvent o1)
      | None \<Rightarrow> let (s2, calls2, r) = poll_kad pfb evs s1 in (s2, calls1 @ calls2, r))"

datatype ('p, 'x) mdns_poll =
  MdnsDiscovered "('p \<times> 'p multiaddr) list" | MdnsExpired | MdnsDial | MdnsOther 'x

fun poll_mdns ::
    "('p, 'x) mdns_poll list \<Rightarrow> 'p discovery \<Rightarrow>
     (anyhow, 'p discovery \<times> ('p, 'x) discovery_poll) res" where
  "poll_mdns [] s = Inr (s, OutPending)"
| "poll_mdns (MdnsExpired # evs) s = poll_mdns evs s"
| "poll_mdns (MdnsDial # evs) s = Inl (Panic ''mDNS never dials!'')"
| "poll_mdns (MdnsOther x # evs) s = Inr (s, OutOther x)"
| "poll_mdns (MdnsDiscovered list # evs) s =
     (if db_discovery_only_if_under_num s \<le> db_num_connections s then poll_mdns evs s
      else case db_pending_events s @ map (\<lambda>(p, a). Discovered p) list of
             [] \<Rightarrow> poll_mdns evs s
           | ev # rest \<Rightarrow> Inr (s\<lparr>db_pending_events := rest\<rparr>, OutEvent ev))"

text \<open>
  The random walk: the timer is polled at the instants of the list, each with the random peer
  id that a query would use; an exhausted list is a timer that is not ready.
\<close>

fun random_walk ::
    "(instant \<times> 'p) list \<Rightarrow> 'p discovery \<Rightarrow> 'p discovery \<times> ('p, 'x) discovery_call list \<times> bool" where
  "random_walk [] s = (s, [], False)"
| "random_walk ((now, random_peer_id) # ticks) s =
     (case db_next_kad_random_query s of
        None \<Rightarrow> (s, [], False)
      | Some deadline \<Rightarrow>
          if \<not> fired now deadline then (s, [], False)
          else
            let s' = s\<lparr>db_next_kad_random_query := Some (sleep now (db_duration_to_next_kad s)),
                       db_duration_to_next_kad := min (db_duration_to_next_kad s * 2) (from_secs 60)\<rparr>
            in if db_num_connections s < db_discovery_only_if_under_num s
               then (s', [KadGetClosestPeers random_peer_id], True)
               else random_walk ticks s')"

record ('p, 'x) discovery_input =
  di_ticks :: "(instant \<times> 'p) list"
  di_kad :: "('p, 'x) kad_poll list"
  di_mdns :: "('p, 'x) mdns_poll list"

definition discovery_poll ::
    "(bytes \<Rightarrow> 'p option) \<Rightarrow> ('p, 'x) discovery_input \<Rightarrow> 'p discovery \<Rightarrow>
     (anyhow, 'p discovery \<times> ('p, 'x) discovery_call list \<times> ('p, 'x) discovery_poll) res" where
  "discovery_poll pfb i s =
     (case db_pending_events s of
        ev # rest \<Rightarrow> Inr (s\<lparr>db_pending_events := rest\<rparr>, [], OutEvent ev)
      | [] \<Rightarrow>
          let (s1, calls1, started) =
                (if db_kademlia s \<noteq> None then random_walk (di_ticks i) s else (s, [], False))
          in if started then Inr (s1, calls1, OutEvent RandomKademliaStarted)
             else
               let (s2, calls2, r) = poll_kad pfb (di_kad i) s1 in
               if r \<noteq> OutPending then Inr (s2, calls1 @ calls2, r)
               else bindR (poll_mdns (di_mdns i) s2) (\<lambda>(s3, r). Inr (s3, calls1 @ calls2, r)))"

section \<open>The addresses that are dialled\<close>

lemma fold_insert_if_absent:
  assumes "lhs_laws L"
  shows "\<exists>rest. fold (lhs_insert_if_absent L) ys xs = xs @ rest \<and> set rest = set ys - set xs \<and>
    distinct rest"
proof (induction ys arbitrary: xs)
  case Nil
  show ?case by simp
next
  case (Cons y ys)
  have s: "lhs_insert_if_absent L y xs = (if y \<in> set xs then xs else xs @ [y])"
    using assms by (simp add: lhs_laws_def)
  show ?case
  proof (cases "y \<in> set xs")
    case True
    with Cons.IH [of xs] s show ?thesis by (auto simp: insert_Diff_if)
  next
    case False
    obtain rest where "fold (lhs_insert_if_absent L) ys (xs @ [y]) = (xs @ [y]) @ rest"
      and "set rest = set ys - set (xs @ [y])" and "distinct rest"
      using Cons.IH by blast
    with False s show ?thesis by (intro exI [of _ "y # rest"]) auto
  qed
qed

definition permanent_of :: "'p discovery \<Rightarrow> 'p \<Rightarrow> 'p multiaddr list" where
  "permanent_of s p = map snd (filter (\<lambda>(q, a). q = p) (db_permanent_addresses s))"

definition ephemeral_of :: "'p discovery \<Rightarrow> 'p \<Rightarrow> 'p multiaddr list" where
  "ephemeral_of s p = (case db_ephemeral_addresses s p of None \<Rightarrow> [] | Some l \<Rightarrow> l)"

lemma dial_list:
  assumes "lhs_laws L"
    and "handle_pending_outbound_connection L N (Some p) (Inr l1) (Inr l2) s = Inr addrs"
  shows "\<exists>es ds. addrs = lhs_collect L (permanent_of s p) @ es @ ds \<and>
    set es = set (ephemeral_of s p) - set (permanent_of s p) \<and>
    set ds = {a \<in> set (l1 @ l2). db_allow_private_ip s \<or> \<not> is_private N a} -
      set (permanent_of s p) - set (ephemeral_of s p) \<and>
    distinct es \<and> distinct ds"
proof -
  let ?perm = "lhs_collect L (permanent_of s p)"
  let ?found = "if db_allow_private_ip s then l1 @ l2 else filter (\<lambda>a. \<not> is_private N a) (l1 @ l2)"
  have c: "set ?perm = set (permanent_of s p)" using assms(1) by (simp add: lhs_laws_def)
  obtain es where es: "fold (lhs_insert_if_absent L) (ephemeral_of s p) ?perm = ?perm @ es"
    "set es = set (ephemeral_of s p) - set ?perm" "distinct es"
    using fold_insert_if_absent [OF assms(1)] by blast
  obtain ds where ds: "fold (lhs_insert_if_absent L) ?found (?perm @ es) = (?perm @ es) @ ds"
    "set ds = set ?found - set (?perm @ es)" "distinct ds"
    using fold_insert_if_absent [OF assms(1)] by blast
  have "addrs = fold (lhs_insert_if_absent L) ?found
      (fold (lhs_insert_if_absent L) (ephemeral_of s p) ?perm)"
    using assms(2)
    by (auto simp: handle_pending_outbound_connection_def permanent_of_def ephemeral_of_def Let_def
        split: option.splits)
  with es ds c show ?thesis by (intro exI [of _ es] exI [of _ ds]) auto
qed

section \<open>Counting connections\<close>

fun discovery_run ::
    "('p multiaddr set \<Rightarrow> 'p multiaddr) \<Rightarrow> ip_ops \<Rightarrow> ('p, 'x) from_swarm list \<Rightarrow> 'p discovery \<Rightarrow>
     (anyhow, 'p discovery) res" where
  "discovery_run first N [] s = Inr s"
| "discovery_run first N (e # es) s =
     bindR (discovery_on_swarm_event first N e s) (\<lambda>(s', _). discovery_run first N es s')"

text \<open>The swarm closes only connections that it has established; \<open>n\<close> are open at the start.\<close>

fun open_connections :: "nat \<Rightarrow> ('p, 'x) from_swarm list \<Rightarrow> nat option" where
  "open_connections n [] = Some n"
| "open_connections n (FsConnectionEstablished x # es) = open_connections (Suc n) es"
| "open_connections n (FsConnectionClosed x # es) =
     (if n = 0 then None else open_connections (n - 1) es)"
| "open_connections n (_ # es) = open_connections n es"

lemma on_external_addr_confirmed_connections:
  "db_num_connections (fst (on_external_addr_confirmed first N addr x s)) = db_num_connections s"
  by (simp add: on_external_addr_confirmed_def Let_def)

lemma discovery_run_counts:
  fixes es :: "('p, 'x) from_swarm list"
  shows "open_connections (unat (db_num_connections s)) es = Some n \<Longrightarrow>
   unat (db_num_connections s) + length es < 2 ^ 64 \<Longrightarrow>
   \<exists>s'. discovery_run first N es s = Inr s' \<and> unat (db_num_connections s') = n"
proof (induction es arbitrary: s)
  case Nil
  then show ?case by simp
next
  case (Cons e es)
  show ?case
  proof (cases e)
    case (FsConnectionEstablished x)
    have "db_num_connections s \<noteq> - 1"
    proof
      assume "db_num_connections s = - 1"
      then have "unat (db_num_connections s) = 2 ^ 64 - 1" by (simp add: unsigned_minus_1_eq_mask mask_eq_exp_minus_1)
      with Cons.prems(2) show False by simp
    qed
    with Cons FsConnectionEstablished show ?thesis
      by (simp add: discovery_on_swarm_event_def unat_checked_inc checked_inc_def)
  next
    case (FsConnectionClosed x)
    with Cons.prems(1) have nz: "unat (db_num_connections s) \<noteq> 0" by (auto split: if_splits)
    then have "db_num_connections s \<noteq> 0" by auto
    moreover from this have "unat (db_num_connections s - 1) = unat (db_num_connections s) - 1"
      by (metis unat_minus_one)
    ultimately show ?thesis using Cons FsConnectionClosed nz
      by (simp add: discovery_on_swarm_event_def checked_dec_def)
  next
    case (FsExternalAddrConfirmed addr x)
    obtain s1 calls where c: "on_external_addr_confirmed first N addr x s =
        (s1, calls :: ('p, 'x) discovery_call list)" by fastforce
    with on_external_addr_confirmed_connections [of first N addr x s]
    have "db_num_connections s1 = db_num_connections s" by (metis fst_conv)
    with Cons.IH [of s1] Cons.prems FsExternalAddrConfirmed c show ?thesis
      by (simp add: discovery_on_swarm_event_def)
  qed (use Cons in \<open>auto simp: discovery_on_swarm_event_def split: option.splits\<close>)
qed

section \<open>The random walk\<close>

text \<open>The pause between two random queries doubles up to a minute; no other operation changes it.\<close>

definition walk_inv :: "'p discovery \<Rightarrow> bool" where
  "walk_inv s \<longleftrightarrow> (\<exists>k. db_duration_to_next_kad s = min (from_secs (2 ^ k)) (from_secs 60))"

lemma random_walk_inv: "walk_inv s \<Longrightarrow> random_walk ticks s = (s', calls, started) \<Longrightarrow> walk_inv s'"
proof (induction ticks s arbitrary: s' calls started rule: random_walk.induct)
  case (2 now rp ticks s)
  have step: "walk_inv (s\<lparr>db_next_kad_random_query := d,
      db_duration_to_next_kad := min (db_duration_to_next_kad s * 2) (from_secs 60)\<rparr>)" for d
  proof -
    from 2(2) obtain k where "db_duration_to_next_kad s = min (from_secs (2 ^ k)) (from_secs 60)"
      by (auto simp: walk_inv_def)
    then show ?thesis unfolding walk_inv_def by (intro exI [of _ "Suc k"]) (simp add: min_def)
  qed
  show ?case
  proof (cases "db_next_kad_random_query s")
    case None
    with 2 show ?thesis by simp
  next
    case (Some deadline)
    with 2(1) [OF Some _ refl _ step] 2(2,3) step show ?thesis
      by (auto simp: Let_def split: if_splits)
  qed
qed simp

lemma on_kad_event_walk:
  "walk_inv s \<Longrightarrow> on_kad_event pfb qo ev s = (s', calls, out) \<Longrightarrow> walk_inv s'"
  by (auto simp: on_kad_event_def on_get_record_def on_get_providers_def Let_def walk_inv_def
      split: kad_event.splits query_result.splits option.splits)

lemma poll_kad_walk: "walk_inv s \<Longrightarrow> poll_kad pfb evs s = (s', calls, r) \<Longrightarrow> walk_inv s'"
proof (induction pfb evs s arbitrary: s' calls r rule: poll_kad.induct)
  case (3 pfb qo ev evs s)
  obtain s1 calls1 out where k: "on_kad_event pfb qo ev s =
      (s1, calls1 :: ('a, 'b) discovery_call list, out)" by (rule prod_cases3)
  have i: "walk_inv s1" by (rule on_kad_event_walk [OF 3(2) k])
  show ?case
  proof (cases out)
    case None
    from 3(1) [OF k [symmetric] refl refl None i] 3(3) k None show ?thesis by (auto split: prod.splits)
  next
    case (Some o1)
    with 3(3) k i show ?thesis by simp
  qed
qed simp_all

lemma poll_mdns_walk: "walk_inv s \<Longrightarrow> poll_mdns evs s = Inr (s', r) \<Longrightarrow> walk_inv s'"
  by (induction evs s arbitrary: s' r rule: poll_mdns.induct)
    (auto simp: walk_inv_def split: if_splits list.splits)

lemma discovery_poll_walk_inv:
  assumes "walk_inv s" and "discovery_poll pfb i s = Inr (s', calls, r)"
  shows "walk_inv s'"
proof (cases "db_pending_events s")
  case (Cons ev rest)
  with assms show ?thesis by (auto simp: discovery_poll_def walk_inv_def)
next
  case Nil
  obtain s1 calls1 started where w: "(if db_kademlia s \<noteq> None then random_walk (di_ticks i) s
      else (s, [], False)) = (s1, calls1 :: ('a, 'b) discovery_call list, started)"
    by (rule prod_cases3)
  have i1: "walk_inv s1" using w assms(1) random_walk_inv [OF assms(1)] by (auto split: if_splits)
  obtain s2 calls2 r2 where k: "poll_kad pfb (di_kad i) s1 =
      (s2, calls2 :: ('a, 'b) discovery_call list, r2)" by (rule prod_cases3)
  have i2: "walk_inv s2" by (rule poll_kad_walk [OF i1 k])
  with i1 assms(2) Nil w k poll_mdns_walk [OF i2] show ?thesis
    by (auto simp: discovery_poll_def simp del: random_walk.simps split: if_splits)
qed

section \<open>Addresses that expire\<close>

text \<open>
  \<open>add_known_address\<close> is documented to add an address "that never expires", but it enters it
  among the ephemeral ones: a failed dial of that address removes it.
\<close>

lemma known_address_expires:
  assumes "db_ephemeral_addresses s p = None"
  shows "discovery_on_swarm_event first N (FsDialFailure (Some p) (Some [addr]) x)
      (fst (add_known_address p addr s)) =
    Inr (s\<lparr>db_pending_events := db_pending_events s @ [Discovered p]\<rparr>, [KadOnSwarmEvent x])"
  using assms
  by (simp add: discovery_on_swarm_event_def add_known_address_def remove_failed_addresses_def
      fun_upd_idem)

text \<open>A query for a record that fails after it has found one leaves the record in the map.\<close>

lemma failed_query_keeps_record:
  assumes "on_kad_event pfb qo (OutboundQueryProgressed qid stats (GetRecordFound r)) s = (s1, c1, o1)"
    and "on_kad_event pfb qo (OutboundQueryProgressed qid stats' (GetRecordError key)) s1 = (s2, c2, o2)"
  shows "db_records_to_publish s2 qid = Some r"
  using assms by (auto simp: on_kad_event_def on_get_record_def)

section \<open>Properties\<close>

text \<open>
  C36: the addresses offered for a dial of a known peer are, without repetition, first its
  permanent ones, then its ephemeral ones that are not permanent, then those of the addresses
  that Kademlia and mDNS report that are neither; all of the reported ones are offered when
  private addresses are allowed, and otherwise exactly those that are not private, so a
  private address is then offered only if it is permanent or ephemeral.
\<close>

theorem dial_addresses:
  assumes "lhs_laws L"
    and "handle_pending_outbound_connection L N (Some p) (Inr l1) (Inr l2) s = Inr addrs"
  shows "distinct addrs \<and>
    (\<exists>es ds. addrs = lhs_collect L (permanent_of s p) @ es @ ds \<and>
       set es = set (ephemeral_of s p) - set (permanent_of s p) \<and>
       set ds = {a \<in> set l1 \<union> set l2. db_allow_private_ip s \<or> \<not> is_private N a} -
         set (permanent_of s p) - set (ephemeral_of s p)) \<and>
    (\<not> db_allow_private_ip s \<longrightarrow>
       (\<forall>a \<in> set addrs. is_private N a \<longrightarrow>
          a \<in> set (permanent_of s p) \<union> set (ephemeral_of s p)))"
proof -
  have c: "distinct (lhs_collect L (permanent_of s p))"
    "set (lhs_collect L (permanent_of s p)) = set (permanent_of s p)"
    using assms(1) by (simp_all add: lhs_laws_def)
  from dial_list [OF assms] obtain es ds where
    "addrs = lhs_collect L (permanent_of s p) @ es @ ds"
    and "set es = set (ephemeral_of s p) - set (permanent_of s p)"
    and "set ds = {a \<in> set (l1 @ l2). db_allow_private_ip s \<or> \<not> is_private N a} -
      set (permanent_of s p) - set (ephemeral_of s p)"
    and "distinct es" and "distinct ds" by blast
  with c show ?thesis by (intro conjI exI [of _ es] exI [of _ ds]) auto
qed

definition plain_lhs :: "'a lhs_ops" where
  "plain_lhs = \<lparr>lhs_collect = remdups,
     lhs_insert_if_absent = (\<lambda>x xs. if x \<in> set xs then xs else xs @ [x])\<rparr>"

lemma plain_lhs_laws: "lhs_laws plain_lhs"
  by (simp add: lhs_laws_def plain_lhs_def)

definition sample_ip :: ip_ops where
  "sample_ip = \<lparr>ip4_is_global = (\<lambda>n. 100 \<le> n), ip6_is_global = (\<lambda>_. False)\<rparr>"

definition sample_discovery :: "nat discovery" where
  "sample_discovery =
     fst (discovery_finish True 0
       (allow_private_ip False (with_permanent_addresses [(7, [Ip4 1]), (8, [Ip4 2])]
         (discovery_config_new 5))) :: _ \<times> (nat, nat) discovery_call list)"

lemma sample_dial:
  "handle_pending_outbound_connection plain_lhs sample_ip (Some 7)
     (Inr [[Ip4 3], [Ip4 1], [Dns ''a'']]) (Inr [[Ip4 200]]) sample_discovery =
   (Inr [[Ip4 1], [Dns ''a''], [Ip4 200]] :: unit + nat multiaddr list)"
  by (simp add: handle_pending_outbound_connection_def sample_discovery_def discovery_finish_def
      allow_private_ip_def with_permanent_addresses_def discovery_config_new_def plain_lhs_def
      sample_ip_def)

theorem dial_addresses_witness:
  "distinct ([[Ip4 1], [Dns ''a''], [Ip4 200]] :: nat multiaddr list) \<and>
   \<not> db_allow_private_ip sample_discovery"
  using dial_addresses [OF plain_lhs_laws sample_dial]
  by (simp add: sample_discovery_def discovery_finish_def allow_private_ip_def
      with_permanent_addresses_def discovery_config_new_def)

text \<open>
  Over any sequence of swarm events in which only established connections are closed and
  that is short enough for 64 bits, the handler never panics and the counter is the number
  of open connections, whatever other events are in between.
\<close>

lemma connections_counted:
  fixes es :: "('p, 'x) from_swarm list"
  assumes "open_connections 0 es = Some n" and "length es < 2 ^ 64"
  shows "\<exists>s'. discovery_run first N es
      (fst (discovery_finish mdns_ok now cfg :: _ \<times> ('p, 'x) discovery_call list)) = Inr s' \<and>
    unat (db_num_connections s') = n"
  using assms
  by (intro discovery_run_counts) (simp_all add: discovery_finish_def)

end
