(* ===== verification/Network.thy ===== *)
theory Network
  imports Request_Responses Discovery
begin

text \<open>
  The network node put together: \<open>Behaviour::new\<close> of \<open>network/src/behaviour.rs\<close> and
  \<open>NetworkWorker::new\<close> of \<open>service.rs\<close>, and the way a message of the network service reaches the
  request-response behaviour. Ping and identify, the transport and the swarm are libp2p.
\<close>

section \<open>Construction\<close>

record 'p behaviour =
  bh_request_responses :: "'p rr_behaviour"
  bh_discovery :: "'p discovery"

definition behaviour_discovery_config :: "'p \<Rightarrow> 'p params \<Rightarrow> 'p discovery_config" where
  "behaviour_discovery_config me params =
     (let c = with_mdns (pa_mdns params)
                (with_permanent_addresses
                   (map (\<lambda>mwp. (ma_peer_id mwp, ma_multiaddr mwp))
                      (concat (map rc_boot_nodes (pa_rooms params))))
                   (discovery_config_new me))
      in if pa_kademlia params then with_kademlia ''/ipfs/kad/1.0.0'' c else c)"

definition behaviour_new ::
    "bool \<Rightarrow> instant \<Rightarrow> 'p \<Rightarrow> protocol_config list \<Rightarrow> 'p params \<Rightarrow>
     register_error + 'p behaviour \<times> ('p, 'x) discovery_call list" where
  "behaviour_new mdns_ok now me request_response_protocols params =
     bindR (rr_new request_response_protocols mock_peer_reputation) (\<lambda>rr.
       let (d, calls) = discovery_finish mdns_ok now (behaviour_discovery_config me params)
       in Inr (\<lparr>bh_request_responses = rr, bh_discovery = d\<rparr>, calls))"

definition behaviour_bootstrap ::
    "anyhow + query_id \<Rightarrow> 'p behaviour \<Rightarrow> (anyhow + query_id) \<times> ('p, 'x) discovery_call list" where
  "behaviour_bootstrap r b = discovery_bootstrap r (bh_discovery b)"

definition behaviour_peers :: "'p list list \<Rightarrow> 'p behaviour \<Rightarrow> 'p set" where
  "behaviour_peers kbuckets b = known_peers kbuckets (bh_discovery b)"

datatype 'p network_error =
    NetIo io_kind
  | DuplicateNode "'p multiaddr" 'p 'p
  | DuplicateBroadcastProtocol string

definition room_protocols :: "'p params \<Rightarrow> protocol_config list" where
  "room_protocols params =
     map (\<lambda>rc. protocol_config_new (room_protocol_name (rc_id rc)) (rc_inbound_queue rc))
       (pa_rooms params)"

definition network_worker_new ::
    "('k, 'p) ed25519_ops \<Rightarrow> 'k \<Rightarrow> nat option \<Rightarrow> bool \<Rightarrow> instant \<Rightarrow> 'k node_key_config \<Rightarrow> 'p params \<Rightarrow>
     fs \<Rightarrow> fs \<times> ('p network_error + 'p \<times> 'p behaviour \<times> ('p, 'x) discovery_call list)" where
  "network_worker_new E generated fault mdns_ok now node_key params F =
     (let (F', kp) = into_keypair E generated fault node_key F in
      (F', bindR (map_errR NetIo kp) (\<lambda>k.
             case behaviour_new mdns_ok now (ed_peer_id E k) (room_protocols params) params of
               Inl (DuplicateProtocol proto) \<Rightarrow> Inl (DuplicateBroadcastProtocol proto)
             | Inr (b, calls) \<Rightarrow> Inr (ed_peer_id E k, b, calls))))"

section \<open>From the service to the behaviour\<close>

text \<open>
  \<open>Behaviour::send_request\<close> and \<open>broadcast_message\<close> on the request-response behaviour. For every
  target the environment gives what libp2p answers and the oneshot of the bridge; the
  recipients of a broadcast to a room are the peers discovery knows.
\<close>

definition rr_call_of ::
    "'p list \<Rightarrow> (send_env \<times> oneshot) list \<Rightarrow> 'p swarm_call \<Rightarrow> ('p, 'x) rr_call option" where
  "rr_call_of known envs c =
     (case c of
        SendRequest target protocol ctx payload bc recv connect \<Rightarrow>
          (case envs of
             [] \<Rightarrow> None
           | (e, tx) # _ \<Rightarrow>
               Some (CallSendWithContext e tx target protocol ctx payload bc (Some recv) connect))
      | BroadcastTo targets protocol ctx payload recv connect \<Rightarrow>
          Some (CallBroadcast (zip targets envs) protocol ctx payload recv connect)
      | BroadcastToRoom protocol ctx payload recv connect \<Rightarrow>
          Some (CallBroadcast (zip known envs) protocol ctx payload recv connect)
      | _ \<Rightarrow> None)"

datatype ('p, 'x) network_step =
    ServiceStep "'p service_to_worker_msg" "'p list" "(send_env \<times> oneshot) list"
  | PollStep "pname list" "('p, 'x) poll_round list"

fun network_calls :: "'p network_worker \<Rightarrow> ('p, 'x) network_step \<Rightarrow> ('p, 'x) rr_call list" where
  "network_calls w (ServiceStep m known envs) = List.map_filter (rr_call_of known envs) (service_msg w m)"
| "network_calls w (PollStep order rounds) = [CallPoll order rounds]"

fun step_room :: "('p, 'x) network_step \<Rightarrow> room_id option" where
  "step_room (ServiceStep (Request room_id ctx m) known envs) = Some room_id"
| "step_room _ = None"

lemma network_calls_worker:
  assumes "\<forall>r. step_room st = Some r \<longrightarrow> protocols (room_protocol_name r) \<noteq> None"
    and "c \<in> set (network_calls w st)"
  shows "worker_call protocols c"
proof (cases st)
  case (ServiceStep m known envs)
  with assms show ?thesis
    by (cases m)
      (auto simp: service_msg_def behaviour_broadcast_message_def behaviour_send_request_def
        rr_call_of_def List.map_filter_def split: message_intent.splits option.splits list.splits)
qed (use assms in simp)

section \<open>Rooms and protocols\<close>

lemma room_protocol_name_inj: "inj room_protocol_name"
  by (auto simp: inj_def room_protocol_name_def)

lemma pc_name_room_protocols:
  "map pc_name (room_protocols params) = map (room_protocol_name \<circ> rc_id) (pa_rooms params)"
  by (simp add: room_protocols_def protocol_config_new_def)

lemma distinct_room_protocols:
  "distinct (map pc_name (room_protocols params)) \<longleftrightarrow> distinct (map rc_id (pa_rooms params))"
  unfolding pc_name_room_protocols map_map [symmetric]
  using room_protocol_name_inj by (metis distinct_map inj_on_subset subset_UNIV)

lemma behaviour_new_protocols:
  assumes "behaviour_new mdns_ok now me (room_protocols params) params = Inr (b, calls)"
  shows "rr_new (room_protocols params) mock_peer_reputation = Inr (bh_request_responses b) \<and>
    dom (rr_protocols (bh_request_responses b)) = room_protocol_name ` rc_id ` set (pa_rooms params)"
proof -
  from assms obtain rr where r: "rr_new (room_protocols params) mock_peer_reputation = Inr rr"
    and b: "bh_request_responses b = rr"
    by (auto simp: behaviour_new_def case_prod_unfold Let_def)
  from register_protocols_ok [OF rr_new_protocols [OF r]] have "dom (rr_protocols rr) = set (map pc_name (room_protocols params))"
    by simp
  with r b show ?thesis by (simp add: pc_name_room_protocols image_comp)
qed

lemma rr_new_total:
  "distinct (map pc_name cfgs) \<Longrightarrow> \<exists>s. rr_new cfgs store = Inr s"
  using register_protocols_total [of cfgs Map.empty] by (auto simp: rr_new_def)

lemma behaviour_new_ok_iff:
  "(\<exists>r. behaviour_new mdns_ok now me (room_protocols params) params = Inr r) \<longleftrightarrow>
   distinct (map rc_id (pa_rooms params))"
proof
  assume "\<exists>r. behaviour_new mdns_ok now me (room_protocols params) params = Inr r"
  then obtain rr :: "'a rr_behaviour" where
    "rr_new (room_protocols params) mock_peer_reputation = Inr rr"
    by (auto simp: behaviour_new_def)
  from register_protocols_ok [OF rr_new_protocols [OF this]] show "distinct (map rc_id (pa_rooms params))"
    by (simp add: distinct_room_protocols)
next
  assume "distinct (map rc_id (pa_rooms params))"
  then obtain rr :: "'a rr_behaviour" where
    "rr_new (room_protocols params) mock_peer_reputation = Inr rr"
    using rr_new_total [of "room_protocols params" mock_peer_reputation]
    by (auto simp: distinct_room_protocols)
  then show "\<exists>r. behaviour_new mdns_ok now me (room_protocols params) params = Inr r"
    by (simp add: behaviour_new_def case_prod_unfold Let_def)
qed

section \<open>Properties\<close>

text \<open>
  C13: however the network service sends, multicasts and broadcasts in the configured rooms and
  however the swarm polls in between, no waiting caller is forgotten: every response channel
  is answered exactly once or still pending, and none is dropped. The request ids are
  those of libp2p, which gives none out twice.
\<close>

theorem network_requests_answered_once:
  assumes "behaviour_new mdns_ok now me (room_protocols params) params = Inr (b, calls0)"
    and "\<forall>st \<in> set steps. \<forall>r. step_room st = Some r \<longrightarrow> r \<in> rc_id ` set (pa_rooms params)"
    and "calls = concat (map (network_calls w) steps)"
    and "distinct (concat (map call_keys calls))"
    and "run_calls rr_step (bh_request_responses b) calls = Inr (s, effs)"
  shows "(\<forall>tx. RrDrop tx \<notin> set effs) \<and>
    (\<forall>tx. count (owned_tx s) tx + length (filter (\<lambda>e. \<exists>r. e = RrAnswer tx r) effs) =
      count (sum_list (map given_tx calls)) tx)"
proof -
  let ?protocols = "rr_protocols (bh_request_responses b)"
  have n: "rr_new (room_protocols params) mock_peer_reputation = Inr (bh_request_responses b)"
    and d: "dom ?protocols = room_protocol_name ` rc_id ` set (pa_rooms params)"
    using behaviour_new_protocols [OF assms(1)] by simp_all
  have "\<forall>c \<in> set calls. worker_call ?protocols c"
  proof
    fix c
    assume "c \<in> set calls"
    then obtain st where st: "st \<in> set steps" and c: "c \<in> set (network_calls w st)"
      by (auto simp: assms(3))
    have "\<forall>r. step_room st = Some r \<longrightarrow> ?protocols (room_protocol_name r) \<noteq> None"
      using assms(2) st d by blast
    from network_calls_worker [OF this c] show "worker_call ?protocols c" .
  qed
  from requests_answered_once [OF n this assms(4,5)] show ?thesis .
qed

text \<open>
  A network worker is created exactly when the node key can be obtained and no room is
  configured twice.
\<close>

lemma network_worker_new_ok_iff:
  "(\<exists>r. snd (network_worker_new E g fault mdns_ok now node_key params F ::
      _ \<times> ('p network_error + 'p \<times> 'p behaviour \<times> ('p, 'x) discovery_call list)) = Inr r) \<longleftrightarrow>
   (\<exists>k. snd (into_keypair E g fault node_key F) = Inr k) \<and> distinct (map rc_id (pa_rooms params))"
proof (cases "into_keypair E g fault node_key F")
  case (Pair F' kp)
  show ?thesis
  proof (cases kp)
    case (Inl e)
    with Pair show ?thesis by (simp add: network_worker_new_def)
  next
    case (Inr k)
    let ?b = "behaviour_new mdns_ok now (ed_peer_id E k) (room_protocols params) params
      :: register_error + 'p behaviour \<times> ('p, 'x) discovery_call list"
    have "(\<exists>r. snd (network_worker_new E g fault mdns_ok now node_key params F ::
        _ \<times> ('p network_error + 'p \<times> 'p behaviour \<times> ('p, 'x) discovery_call list)) = Inr r) \<longleftrightarrow>
        (\<exists>r. ?b = Inr r)"
      using Pair Inr by (auto simp: network_worker_new_def split: sum.splits register_error.splits)
    with Pair Inr show ?thesis by (simp add: behaviour_new_ok_iff del: split_paired_Ex)
  qed
qed

definition sample_params :: "nat params" where
  "sample_params =
     \<lparr>pa_listen_address = [], pa_mdns = False, pa_kademlia = True,
      pa_rooms = [\<lparr>rc_id = ''a'', rc_max_size = 1, rc_boot_nodes = [], rc_inbound_queue = Some 0\<rparr>],
      pa_boot_nodes = []\<rparr>"

definition sample_network :: "nat behaviour" where
  "sample_network = \<lparr>bh_request_responses = sample_behaviour,
     bh_discovery = fst (discovery_finish True 0 (behaviour_discovery_config 5 sample_params) ::
       _ \<times> (nat, nat) discovery_call list)\<rparr>"

definition sample_steps :: "(nat, nat) network_step list" where
  "sample_steps =
     [ServiceStep (multicast_message ''a'' [1, 2] sample_ctx [] None) []
        [(\<lparr>se_now = 0, se_connected = True, se_request_id = 0\<rparr>, 10),
         (\<lparr>se_now = 0, se_connected = False, se_request_id = 1\<rparr>, 11)],
      PollStep [''/room/a'']
        [sample_round None [Some (sample_env 5, P2pGenerateEvent (P2pResponse 1 0 (Inr [])))]]]"

lemma sample_steps_calls: "concat (map (network_calls w) sample_steps) = sample_calls"
  by (simp add: sample_steps_def sample_calls_def multicast_message_def service_msg_def
      behaviour_broadcast_message_def rr_call_of_def List.map_filter_def room_protocol_name_def)

lemma sample_network_new:
  "behaviour_new True 0 5 (room_protocols sample_params) sample_params =
     Inr (sample_network, snd (discovery_finish True 0
       (behaviour_discovery_config 5 sample_params) :: _ \<times> (nat, nat) discovery_call list))"
  using sample_behaviour_new
  by (simp add: behaviour_new_def room_protocols_def sample_params_def room_protocol_name_def
      sample_network_def case_prod_unfold Let_def)

theorem network_requests_answered_once_witness:
  "(\<forall>tx. RrDrop tx \<notin> set (snd (projr (run_calls rr_step sample_behaviour sample_calls)))) \<and>
    sum_list (map given_tx sample_calls) = {#10, 11#}"
proof -
  have r: "\<forall>st \<in> set sample_steps. \<forall>r. step_room st = Some r \<longrightarrow>
      r \<in> rc_id ` set (pa_rooms sample_params)"
    by (simp add: sample_steps_def multicast_message_def sample_params_def)
  have c: "run_calls rr_step (bh_request_responses sample_network) sample_calls =
      run_calls rr_step sample_behaviour sample_calls"
    by (simp add: sample_network_def)
  show ?thesis
    using network_requests_answered_once [OF sample_network_new r sample_steps_calls [symmetric]
        sample_calls_ok(2) c [unfolded sample_calls_run]]
    by (simp only: sample_calls_run) (simp add: sample_calls_def)
qed

end
