(* ===== verification/Node.thy ===== *)
theory Node
  imports Network
begin

text \<open>
  \<open>tss/src/config.rs\<close>, the \<open>setup\<close> command and the assembly of a node in \<open>apps/node/src/lib.rs\<close>:
  the configuration file, the key it goes with, and the paths under which a node looks for
  both. JSON (\<open>serde_json\<close>) and base58 are parameters.
\<close>

section \<open>Configuration files\<close>

record 'p party_config =
  py_network_peer :: "'p multiaddr_with_peer_id"
  py_rpc_addr :: string

record 'p config =
  cf_local :: "'p party_config"
  cf_boot_nodes :: "'p multiaddr_with_peer_id list"

text \<open>What JSON sees: an address with a peer id is (de)serialised through its text form.\<close>

record json_config =
  jc_network_peer :: string
  jc_rpc_addr :: string
  jc_boot_nodes :: "string list"

record 'p json_ops =
  js_to_vec :: "json_config \<Rightarrow> bytes option"
  js_from_str :: "bytes \<Rightarrow> json_config option"
  js_base58 :: "'p \<Rightarrow> string"

definition json_law :: "'p json_ops \<Rightarrow> json_config \<Rightarrow> bool" where
  "json_law J c \<longleftrightarrow> (\<forall>b. js_to_vec J c = Some b \<longrightarrow> utf8_valid b \<and> js_from_str J b = Some c)"

definition config_to_json :: "'p multiaddr_ops \<Rightarrow> 'p config \<Rightarrow> json_config" where
  "config_to_json M c =
     \<lparr>jc_network_peer = ma_to_string M (py_network_peer (cf_local c)),
      jc_rpc_addr = py_rpc_addr (cf_local c),
      jc_boot_nodes = map (ma_to_string M) (cf_boot_nodes c)\<rparr>"

fun parse_all :: "'p multiaddr_ops \<Rightarrow> string list \<Rightarrow> anyhow + 'p multiaddr_with_peer_id list" where
  "parse_all M [] = Inr []"
| "parse_all M (s # ss) =
     bindR (ma_try_from M s) (\<lambda>a. bindR (parse_all M ss) (\<lambda>as. Inr (a # as)))"

definition config_from_json :: "'p multiaddr_ops \<Rightarrow> json_config \<Rightarrow> anyhow + 'p config" where
  "config_from_json M j =
     bindR (ma_try_from M (jc_network_peer j)) (\<lambda>peer.
     bindR (parse_all M (jc_boot_nodes j)) (\<lambda>boot_nodes.
       Inr \<lparr>cf_local = \<lparr>py_network_peer = peer, py_rpc_addr = jc_rpc_addr j\<rparr>,
            cf_boot_nodes = boot_nodes\<rparr>))"

definition load_config :: "'p json_ops \<Rightarrow> 'p multiaddr_ops \<Rightarrow> fs \<Rightarrow> string \<Rightarrow> anyhow + 'p config" where
  "load_config J M F path =
     (case fs_read F path of
        Inl _ \<Rightarrow> Inl ''reading config terminated with err''
      | Inr b \<Rightarrow>
          if \<not> utf8_valid b then Inl ''reading config terminated with err''
          else case js_from_str J b of
                 None \<Rightarrow> Inl ''decoding config terminated with err''
               | Some j \<Rightarrow>
                   map_errR (\<lambda>_. ''decoding config terminated with err'') (config_from_json M j))"

section \<open>Setup\<close>

text \<open>\<open>str::replace\<close> of the pattern \<open>":id"\<close>.\<close>

fun replace_id :: "string \<Rightarrow> string \<Rightarrow> string" where
  "replace_id w [] = []"
| "replace_id w (c # s) =
     (if c = CHR '':'' \<and> take 2 s = ''id'' then w @ replace_id w (drop 2 s)
      else c # replace_id w s)"

text \<open>\<open>fs::write\<close> truncates an existing file.\<close>

definition fs_write :: "string \<Rightarrow> bytes \<Rightarrow> fs \<Rightarrow> io_kind + fs" where
  "fs_write path b F =
     (if path \<noteq> [] \<and> last path = CHR ''/'' \<or> path \<in> fs_dirs F then Inl IsADirectory
      else case path_parent path of
             None \<Rightarrow> Inl NotFound
           | Some d \<Rightarrow>
               if d = [] \<or> d \<in> fs_dirs F then
                 Inr (F\<lparr>fs_files := (fs_files F)(path \<mapsto>
                   \<lparr>sf_bytes = b,
                    sf_mode = (case fs_files F path of None \<Rightarrow> 420 | Some f \<Rightarrow> sf_mode f)\<rparr>)\<rparr>)
               else Inl NotFound)"

text \<open>\<open>mkdir_ok\<close> is whether \<open>create_dir_all\<close> succeeds; its result is unwrapped.\<close>

definition generate_config ::
    "('k, 'p) ed25519_ops \<Rightarrow> 'p json_ops \<Rightarrow> 'p multiaddr_ops \<Rightarrow> 'k \<Rightarrow> bool \<Rightarrow> nat option \<Rightarrow>
     string \<Rightarrow> string \<Rightarrow> string \<Rightarrow> string \<Rightarrow> fs \<Rightarrow> (anyhow, fs \<times> 'p config) res" where
  "generate_config E J M generated mkdir_ok fault cfg_path setup_path libp2p_addr rpc_addr F =
     (let (F0, kp) = into_keypair E generated fault (Ed25519Config New) F in
      bindR (map_errR (\<lambda>_. Fail ''keypair generating err'') kp) (\<lambda>keypair.
      let peer_id = ed_peer_id E keypair;
          path = replace_id (js_base58 J peer_id) setup_path
      in bindR (ok_or (Panic ''called Option::unwrap() on a None value'') (path_parent path)) (\<lambda>dir.
         if \<not> mkdir_ok then Inl (Panic ''called Result::unwrap() on an Err value'')
         else
           let F1 = F0\<lparr>fs_dirs := insert dir (fs_dirs F0)\<rparr>;
               (F2, r) = persist E fault keypair path F1
           in bindR (map_errR (\<lambda>_. Fail ''secret key backup failed with err'') r) (\<lambda>_.
              bindR (ok_or (Fail ''multiaddr parse err'') (mo_parse M libp2p_addr)) (\<lambda>multiaddr.
                let config = \<lparr>cf_local = \<lparr>py_network_peer =
                                \<lparr>ma_multiaddr = multiaddr, ma_peer_id = peer_id\<rparr>,
                                py_rpc_addr = rpc_addr\<rparr>,
                              cf_boot_nodes = []\<rparr>
                in bindR (ok_or (Fail ''config encoding terminated with err'')
                            (js_to_vec J (config_to_json M config))) (\<lambda>json_bytes.
                   bindR (map_errR (\<lambda>_. Fail ''writing config err'') (fs_write cfg_path json_bytes F2))
                     (\<lambda>F3. Inr (F3, config))))))))"

section \<open>The node\<close>

record node_command =
  nc_config_path :: string
  nc_path :: string
  nc_kademlia :: bool
  nc_mdns :: bool

text \<open>What the node is made of: the network with its identity, the room and its queue, and the
  paths handed to the factory, the storage and the RPC server.\<close>

record 'p node =
  nd_local_peer_id :: 'p
  nd_behaviour :: "'p behaviour"
  nd_room_id :: room_id
  nd_boot_nodes :: "'p multiaddr_with_peer_id list"
  nd_key_share_path :: string
  nd_peerset_path :: string
  nd_rpc_addr :: string

definition node_base_path :: "'p json_ops \<Rightarrow> node_command \<Rightarrow> 'p config \<Rightarrow> string" where
  "node_base_path J c config =
     replace_id (js_base58 J (ma_peer_id (py_network_peer (cf_local config)))) (nc_path c)"

definition node_params ::
    "node_command \<Rightarrow> 'p config \<Rightarrow> 'p room_config \<Rightarrow> 'p params" where
  "node_params c config room_cfg =
     \<lparr>pa_listen_address = ma_multiaddr (py_network_peer (cf_local config)),
      pa_mdns = nc_mdns c, pa_kademlia = nc_kademlia c, pa_rooms = [room_cfg],
      pa_boot_nodes = cf_boot_nodes config\<rparr>"

definition node_execute ::
    "('k, 'p) ed25519_ops \<Rightarrow> 'p json_ops \<Rightarrow> 'p multiaddr_ops \<Rightarrow> (string \<Rightarrow> string) \<Rightarrow> 'k \<Rightarrow> nat option \<Rightarrow>
     bool \<Rightarrow> instant \<Rightarrow> inbound_queue \<Rightarrow> node_command \<Rightarrow> fs \<Rightarrow>
     fs \<times> (anyhow, 'p node \<times> ('p, 'x) discovery_call list) res" where
  "node_execute E J M blake3_hex generated fault mdns_ok now queue c F =
     (case load_config J M F (nc_config_path c) of
        Inl e \<Rightarrow> (F, Inl (Fail e))
      | Inr config \<Rightarrow>
          (let base_path = node_base_path J c config;
               node_key = Ed25519Config (File (path_join base_path ''secret.key''))
           in case room_config_new_full blake3_hex queue ''tss/0'' (cf_boot_nodes config)
                     (length (cf_boot_nodes config)) of
                Inl e \<Rightarrow> (F, Inl e)
              | Inr (room_id, room_cfg, room_rx) \<Rightarrow>
                  (let (F', r) = network_worker_new E generated fault mdns_ok now node_key
                                   (node_params c config room_cfg) F
                   in (F', bindR (map_errR (\<lambda>_. Fail ''network'') r) (\<lambda>(me, b, calls).
                        Inr (\<lparr>nd_local_peer_id = me, nd_behaviour = b, nd_room_id = room_id,
                              nd_boot_nodes = cf_boot_nodes config,
                              nd_key_share_path = ''data/'' @ js_base58 J me @ ''/key.share'',
                              nd_peerset_path = path_join base_path ''peerset'',
                              nd_rpc_addr = py_rpc_addr (cf_local config)\<rparr>, calls))))))"

text \<open>The task between the room's queue and the runtime's channel: it stops at the first send
  that fails.\<close>

fun room_bridge :: "('m \<times> bool) list \<Rightarrow> 'm list" where
  "room_bridge [] = []"
| "room_bridge ((msg, sent) # msgs) = (if sent then msg # room_bridge msgs else [])"

section \<open>Reading back what setup wrote\<close>

lemma replace_id_append:
  "replace_id w (s @ CHR ''/'' # r) = replace_id w s @ CHR ''/'' # replace_id w r"
proof (induction w s rule: replace_id.induct)
  case (2 w c s)
  have "take 2 (s @ CHR ''/'' # r) = ''id'' \<longleftrightarrow> take 2 s = ''id''"
    by (cases s; cases "tl s") (auto simp: take_Cons')
  moreover have "take 2 s = ''id'' \<Longrightarrow> drop 2 (s @ CHR ''/'' # r) = drop 2 s @ CHR ''/'' # r"
    by (cases s; cases "tl s") (auto simp: take_Cons')
  ultimately show ?case using 2 by auto
qed simp

lemma replace_id_secret: "replace_id w ''secret.key'' = ''secret.key''"
  by simp

lemma config_from_to_json:
  assumes "multiaddr_law M (multiaddr_concat (py_network_peer (cf_local c)))"
    and "\<forall>a \<in> set (cf_boot_nodes c). multiaddr_law M (multiaddr_concat a)"
  shows "config_from_json M (config_to_json M c) = Inr c"
proof -
  have "parse_all M (map (ma_to_string M) as) = Inr as"
    if "\<forall>a \<in> set as. multiaddr_law M (multiaddr_concat a)" for as
    using that by (induction as) (simp_all add: ma_try_from_def ma_from_str_to_string)
  with assms show ?thesis
    by (simp add: config_from_json_def config_to_json_def ma_try_from_def ma_from_str_to_string)
qed

lemma generate_config_ok:
  assumes "generate_config E J M g mkdir_ok fault cfg_path setup_path addr rpc F = Inr (F', config)"
  shows "\<exists>F1 b. fs_files F1 (replace_id (js_base58 J (ed_peer_id E g)) setup_path) =
        Some \<lparr>sf_bytes = ed_as_ref E g, sf_mode = 384\<rparr> \<and>
      fs_write cfg_path b F1 = Inr F' \<and> js_to_vec J (config_to_json M config) = Some b \<and>
      ma_peer_id (py_network_peer (cf_local config)) = ed_peer_id E g"
  using assms
  by (auto simp: generate_config_def into_keypair_def persist_def Let_def ok_or_def
      dest!: write_secret_file_ok split: prod.splits if_splits option.splits)

lemma fs_write_read:
  assumes "fs_write path b F = Inr F'"
  shows "fs_read F' path = Inr b \<and> (\<forall>q. q \<noteq> path \<longrightarrow> fs_files F' q = fs_files F q)"
  using assms by (auto simp: fs_write_def fs_read_def split: if_splits option.splits)

lemma setup_load:
  assumes "generate_config E J M g mkdir_ok fault cfg_path setup_path addr rpc F = Inr (F', config)"
    and "json_law J (config_to_json M config)"
    and "multiaddr_law M (multiaddr_concat (py_network_peer (cf_local config)))"
    and "cf_boot_nodes config = []"
  shows "load_config J M F' cfg_path = Inr config"
proof -
  obtain b where "fs_read F' cfg_path = Inr b" and "js_to_vec J (config_to_json M config) = Some b"
    using generate_config_ok [OF assms(1)] fs_write_read by blast
  with assms(2-4) show ?thesis
    by (simp add: load_config_def json_law_def config_from_to_json)
qed

lemma generate_config_boot_nodes:
  assumes "generate_config E J M g mkdir_ok fault cfg_path setup_path addr rpc F = Inr (F', config)"
  shows "cf_boot_nodes config = []"
  using assms
  by (auto simp: generate_config_def Let_def split: prod.splits if_splits)

lemma setup_key_file:
  assumes "generate_config E J M g mkdir_ok fault cfg_path setup_path addr rpc F = Inr (F', config)"
    and "cfg_path \<noteq> replace_id (js_base58 J (ed_peer_id E g)) setup_path"
  shows "fs_files F' (replace_id (js_base58 J (ed_peer_id E g)) setup_path) =
      Some \<lparr>sf_bytes = ed_as_ref E g, sf_mode = 384\<rparr>"
  using generate_config_ok [OF assms(1)] fs_write_read assms(2) by metis

section \<open>Setup and node disagree on the path\<close>

text \<open>
  With the default path \<open>./data/:id/\<close>, which is also the one of the README, \<open>setup\<close> tries to
  create the key as a file whose name ends in a separator, and fails.
\<close>

lemma default_setup_fails:
  "\<exists>e. generate_config E J M g mkdir_ok fault cfg_path ''./data/:id/'' addr rpc F = Inl e"
proof -
  let ?path = "replace_id (js_base58 J (ed_peer_id E g)) ''./data/:id/''"
  have p: "?path = ''./data/'' @ js_base58 J (ed_peer_id E g) @ ''/''" by simp
  have "write_secret_file fault ?path b F1 = (F1, Inl IsADirectory)" for b F1
    by (simp add: write_secret_file_def open_secret_file_def p)
  then show ?thesis
    by (auto simp: generate_config_def into_keypair_def persist_def Let_def ok_or_def
        simp del: replace_id.simps split: prod.splits if_splits option.splits)
qed

text \<open>
  Without a key file the node takes a fresh key and runs under the identity of that key: the
  identity in its configuration is not compared with it.
\<close>

lemma network_worker_new_identity:
  fixes calls :: "('p, 'x) discovery_call list"
  assumes "network_worker_new E g fault mdns_ok now node_key params F = (F', Inr (me, b, calls))"
  shows "\<exists>k. into_keypair E g fault node_key F = (F', Inr k) \<and> me = ed_peer_id E k"
proof -
  obtain F1 kp where 1: "into_keypair E g fault node_key F = (F1, kp)" by fastforce
  with assms obtain k where 2: "kp = Inr k" by (cases kp) (auto simp: network_worker_new_def)
  show ?thesis
  proof (cases "behaviour_new mdns_ok now (ed_peer_id E k) (room_protocols params) params
      :: register_error + 'p behaviour \<times> ('p, 'x) discovery_call list")
    case (Inl e)
    with assms 1 2 show ?thesis by (cases e) (simp add: network_worker_new_def)
  next
    case (Inr r)
    with assms 1 2 show ?thesis by (cases r) (simp add: network_worker_new_def)
  qed
qed

lemma network_worker_new_runs:
  assumes "into_keypair E g fault node_key F = (F', Inr k)" and "distinct (map rc_id (pa_rooms params))"
  shows "\<exists>b (calls :: ('p, 'x) discovery_call list).
    network_worker_new E g fault mdns_ok now node_key params F = (F', Inr (ed_peer_id E k, b, calls))"
proof -
  obtain b and calls :: "('p, 'x) discovery_call list" where
    "behaviour_new mdns_ok now (ed_peer_id E k) (room_protocols params) params = Inr (b, calls)"
    using behaviour_new_ok_iff [of mdns_ok now "ed_peer_id E k" params] assms(2) by auto
  with assms(1) show ?thesis by (simp add: network_worker_new_def)
qed

lemma no_boot_nodes_panic:
  assumes "load_config J M F (nc_config_path c) = Inr config" and "cf_boot_nodes config = []"
  shows "node_execute E J M blake3_hex g fault mdns_ok now queue c F =
    (F, Inl (Panic ''capacity cannot be zero''))"
  using assms by (simp add: node_execute_def room_config_new_full_def)

section \<open>Setup, then start\<close>

lemma setup_node_runs:
  assumes "ed25519_laws E"
    and "generate_config E J M g mkdir_ok fault cfg_path (p @ ''/secret.key'') addr rpc F =
      Inr (F', config)"
    and "json_law J (config_to_json M config)"
    and "multiaddr_law M (multiaddr_concat (py_network_peer (cf_local config)))"
    and "cfg_path \<noteq> replace_id (js_base58 J (ed_peer_id E g)) (p @ ''/secret.key'')"
    and "replace_id (js_base58 J (ed_peer_id E g)) p \<noteq> []"
    and "last (replace_id (js_base58 J (ed_peer_id E g)) p) \<noteq> CHR ''/''"
    and "nc_path c = p" and "nc_config_path c = cfg_path"
    and "load_config J M F2 cfg_path = Inr config2" and "cf_local config2 = cf_local config"
    and "cf_boot_nodes config2 \<noteq> []"
    and "\<forall>q. q \<noteq> cfg_path \<longrightarrow> fs_files F2 q = fs_files F' q"
  shows "load_config J M F' cfg_path = Inr config \<and>
    (\<exists>nd (calls :: ('p, 'x) discovery_call list).
       node_execute E J M blake3_hex g' fault' mdns_ok now queue c F2 = (F2, Inr (nd, calls)) \<and>
       nd_local_peer_id nd = ma_peer_id (py_network_peer (cf_local config)))"
proof -
  let ?w = "js_base58 J (ed_peer_id E g)"
  let ?key = "replace_id ?w p @ ''/secret.key''"
  have pid: "ma_peer_id (py_network_peer (cf_local config)) = ed_peer_id E g"
    using generate_config_ok [OF assms(2)] by blast
  have k: "replace_id ?w (p @ ''/secret.key'') = ?key" by (simp add: replace_id_append)
  have f: "fs_files F2 ?key = Some \<lparr>sf_bytes = ed_as_ref E g, sf_mode = 384\<rparr>"
    using setup_key_file [OF assms(2,5)] assms(5,13) by (simp add: k del: replace_id.simps)
  have "node_base_path J c config2 = replace_id ?w p"
    using assms(8,11) pid by (simp add: node_base_path_def)
  then have j: "path_join (node_base_path J c config2) ''secret.key'' = ?key"
    using assms(6,7) by (simp add: path_join_def)
  have kp: "into_keypair E g' fault' (Ed25519Config (File ?key)) F2 = (F2, Inr g)"
    by (rule into_keypair_read [OF f]) (simp add: parse_key_file_raw [OF assms(1)])
  let ?i = "room_id_from blake3_hex ''tss/0''"
  let ?rc = "\<lparr>rc_id = ?i, rc_max_size = length (cf_boot_nodes config2),
    rc_boot_nodes = cf_boot_nodes config2, rc_inbound_queue = Some queue\<rparr>"
  have "distinct (map rc_id (pa_rooms (node_params c config2 ?rc)))" by (simp add: node_params_def)
  from network_worker_new_runs [OF kp this] obtain b
    and calls :: "('p, 'x) discovery_call list" where
    "network_worker_new E g' fault' mdns_ok now (Ed25519Config (File ?key))
       (node_params c config2 ?rc) F2 = (F2, Inr (ed_peer_id E g, b, calls))" by blast
  then have "\<exists>nd (calls :: ('p, 'x) discovery_call list). node_execute E J M blake3_hex g' fault' mdns_ok now queue c F2 =
      (F2, Inr (nd, calls)) \<and> nd_local_peer_id nd = ed_peer_id E g"
    using assms(9,10,12) j by (simp add: node_execute_def room_config_new_full_def Let_def)
  with setup_load [OF assms(2-4) generate_config_boot_nodes [OF assms(2)]] pid show ?thesis
    by simp
qed

section \<open>Properties\<close>


text \<open>A JSON that keeps only the number of boot nodes, for one local party.\<close>

definition plain_json :: "bool json_ops" where
  "plain_json =
     \<lparr>js_to_vec = (\<lambda>c. Some [of_nat (length (jc_boot_nodes c))]),
      js_from_str = (\<lambda>b. Some \<lparr>jc_network_peer = ''aT'', jc_rpc_addr = ''r'',
        jc_boot_nodes = replicate (unat (hd b)) ''bT''\<rparr>),
      js_base58 = (\<lambda>_. ''k'')\<rparr>"

definition plain_config :: "bool multiaddr_with_peer_id list \<Rightarrow> bool config" where
  "plain_config boot_nodes =
     \<lparr>cf_local = \<lparr>py_network_peer = \<lparr>ma_multiaddr = [OtherProtocol ''a''], ma_peer_id = True\<rparr>,
                  py_rpc_addr = ''r''\<rparr>,
      cf_boot_nodes = boot_nodes\<rparr>"

definition plain_boot_nodes :: "bool multiaddr_with_peer_id list" where
  "plain_boot_nodes = [\<lparr>ma_multiaddr = [OtherProtocol ''b''], ma_peer_id = True\<rparr>]"

definition plain_files :: "8 word \<Rightarrow> fs" where
  "plain_files n =
     \<lparr>fs_files = [''data/k/secret.key'' \<mapsto> \<lparr>sf_bytes = replicate 32 1, sf_mode = 384\<rparr>,
                  ''cfg'' \<mapsto> \<lparr>sf_bytes = [n], sf_mode = 420\<rparr>],
      fs_dirs = {''data/k'', ''data''}\<rparr>"

lemma plain_setup:
  "generate_config plain_ed25519 plain_json plain_multiaddr True True None ''cfg''
     (''data/:id'' @ ''/secret.key'') ''a'' ''r'' empty_fs = Inr (plain_files 0, plain_config [])"
  by (simp add: generate_config_def into_keypair_def plain_json_def path_parent_def
      strip_slashes_def persist_def write_secret_file_def open_secret_file_def empty_fs_def
      plain_ed25519_def plain_multiaddr_def config_to_json_def fs_write_def plain_config_def
      plain_files_def ok_or_def Let_def)

lemma plain_load:
  "load_config plain_json plain_multiaddr (plain_files 1) ''cfg'' = Inr (plain_config plain_boot_nodes)"
  by (simp add: load_config_def fs_read_def plain_files_def plain_json_def config_from_json_def
      ma_try_from_def ma_from_str_def parse_str_addr_def plain_multiaddr_def parse_addr_def
      plain_config_def plain_boot_nodes_def ok_or_def)

definition plain_command :: node_command where
  "plain_command = \<lparr>nc_config_path = ''cfg'', nc_path = ''data/:id'', nc_kademlia = True, nc_mdns = False\<rparr>"

lemma plain_facts:
  "json_law plain_json (config_to_json plain_multiaddr (plain_config []))"
  "multiaddr_law plain_multiaddr (multiaddr_concat (py_network_peer (cf_local (plain_config []))))"
  "''cfg'' \<noteq> replace_id (js_base58 plain_json (ed_peer_id plain_ed25519 True))
     (''data/:id'' @ ''/secret.key'')"
  "replace_id (js_base58 plain_json (ed_peer_id plain_ed25519 True)) ''data/:id'' \<noteq> []"
  "last (replace_id (js_base58 plain_json (ed_peer_id plain_ed25519 True)) ''data/:id'') \<noteq> CHR ''/''"
  "nc_path plain_command = ''data/:id''" "nc_config_path plain_command = ''cfg''"
  by (simp_all add: json_law_def plain_json_def config_to_json_def plain_config_def
      multiaddr_law_def plain_multiaddr_def ma_to_string_def multiaddr_concat_def plain_command_def)

lemma plain_edited:
  "cf_local (plain_config plain_boot_nodes) = cf_local (plain_config [])"
  "cf_boot_nodes (plain_config plain_boot_nodes) \<noteq> []"
  "\<forall>q. q \<noteq> ''cfg'' \<longrightarrow> fs_files (plain_files 1) q = fs_files (plain_files 0) q"
  by (simp_all add: plain_config_def plain_boot_nodes_def plain_files_def)

lemmas plain_node_runs = setup_node_runs [OF plain_ed25519_laws plain_setup plain_facts plain_load
    plain_edited, where 'x = nat, of "\<lambda>s. s" False None True 0 0, THEN conjunct2]


end
