(* ===== verification/Rpc.thy ===== *)
theory Rpc
  imports Factory Node
begin

text \<open>
  \<open>rpc/src/tss\<close>, \<open>rpc/src/system\<close> and the errors of \<open>rpc-api\<close>: the requests a JSON-RPC call puts on
  the worker's queue and the answer or error it returns. The JSON-RPC server itself is the
  crate \<open>jsonrpsee\<close>.
\<close>

section \<open>Errors\<close>

datatype tss_error = DagCborError string | Terminated string | RpcCanceled

record rpc_error =
  re_code :: int
  re_message :: string
  re_data :: "string option"

definition BASE_ERROR :: int where
  "BASE_ERROR = 1000"

definition tss_rpc_error :: "tss_error \<Rightarrow> rpc_error" where
  "tss_rpc_error e =
     (case e of
        DagCborError msg \<Rightarrow>
          \<lparr>re_code = BASE_ERROR + 1, re_message = ''Resulted an unexpected output Error: '' @ msg,
           re_data = None\<rparr>
      | Terminated msg \<Rightarrow>
          \<lparr>re_code = BASE_ERROR + 2, re_message = ''Computation terminated with err: '' @ msg,
           re_data = Some msg\<rparr>
      | RpcCanceled \<Rightarrow>
          \<lparr>re_code = BASE_ERROR + 3, re_message = ''Computation canceled with err: oneshot canceled'',
           re_data = Some ''oneshot canceled''\<rparr>)"

datatype system_error = SystemTerminated string | SystemCanceled

definition system_rpc_error :: "system_error \<Rightarrow> rpc_error" where
  "system_rpc_error e =
     (case e of
        SystemTerminated msg \<Rightarrow>
          \<lparr>re_code = BASE_ERROR + 2, re_message = ''Computation terminated with err: '' @ msg,
           re_data = Some msg\<rparr>
      | SystemCanceled \<Rightarrow>
          \<lparr>re_code = BASE_ERROR, re_message = ''Computation canceled with err: oneshot canceled'',
           re_data = Some ''oneshot canceled''\<rparr>)"

section \<open>Requests and answers\<close>

definition DEFAULT_TRANSPORT_ROOM :: string where
  "DEFAULT_TRANSPORT_ROOM = ''tss/0''"

text \<open>The request that the call sends to the worker; \<open>tx\<close> is the oneshot of the answer.\<close>

definition rpc_keygen_request ::
    "keygen_request_payload serde \<Rightarrow> (string \<Rightarrow> string) \<Rightarrow> oneshot \<Rightarrow> ustring \<Rightarrow> u16 \<Rightarrow> u16 \<Rightarrow>
     (rpc_error, service_msg) res" where
  "rpc_keygen_request cbor blake3_hex tx room n t =
     bindR (map_errR (\<lambda>_. Fail (tss_rpc_error (Terminated ''failed to encode keygen request'')))
              (encode_keygen_payload cbor room t)) (\<lambda>payload.
       Inr (service_keygen t n payload (room_id_from blake3_hex DEFAULT_TRANSPORT_ROOM) tx))"

definition rpc_sign_request ::
    "sign_request_payload serde \<Rightarrow> (string \<Rightarrow> string) \<Rightarrow> oneshot \<Rightarrow> ustring \<Rightarrow> u16 \<Rightarrow> bytes \<Rightarrow>
     (rpc_error, service_msg) res" where
  "rpc_sign_request cbor blake3_hex tx room t msg =
     bindR (map_errR (\<lambda>_. Fail (tss_rpc_error (Terminated ''failed to encode sign request'')))
              (encode_sign_payload cbor room msg)) (\<lambda>payload.
     bindR (checked_inc t) (\<lambda>n.
       Inr (service_keysign n (room_id_from blake3_hex DEFAULT_TRANSPORT_ROOM) payload tx)))"

text \<open>What is received on the oneshot: nothing when its sender was dropped, else the outcome of
  the computation. An output that cannot be decoded is an error of the kind \<open>Terminated\<close>.\<close>

definition rpc_answer :: "'a serde \<Rightarrow> (anyhow + bytes) option \<Rightarrow> rpc_error + 'a" where
  "rpc_answer cbor received =
     (case received of
        Some (Inr v) \<Rightarrow> ok_or (tss_rpc_error (Terminated ''decode'')) (from_slice cbor v)
      | Some (Inl e) \<Rightarrow> Inl (tss_rpc_error (Terminated e))
      | None \<Rightarrow> Inl (tss_rpc_error RpcCanceled))"

text \<open>The two methods: \<open>serve\<close> is what the worker does with a request, seen from the oneshot.\<close>

definition rpc_keygen ::
    "keygen_request_payload serde \<Rightarrow> public_key serde \<Rightarrow> (string \<Rightarrow> string) \<Rightarrow> oneshot \<Rightarrow>
     (service_msg \<Rightarrow> (anyhow + bytes) option) \<Rightarrow> ustring \<Rightarrow> u16 \<Rightarrow> u16 \<Rightarrow> (rpc_error, public_key) res" where
  "rpc_keygen cbor answer_cbor blake3_hex tx serve room n t =
     bindR (rpc_keygen_request cbor blake3_hex tx room n t) (\<lambda>msg.
       map_errR Fail (rpc_answer answer_cbor (serve msg)))"

definition rpc_sign ::
    "sign_request_payload serde \<Rightarrow> signature serde \<Rightarrow> (string \<Rightarrow> string) \<Rightarrow> oneshot \<Rightarrow>
     (service_msg \<Rightarrow> (anyhow + bytes) option) \<Rightarrow> ustring \<Rightarrow> u16 \<Rightarrow> bytes \<Rightarrow> (rpc_error, signature) res" where
  "rpc_sign cbor answer_cbor blake3_hex tx serve room t msg =
     bindR (rpc_sign_request cbor blake3_hex tx room t msg) (\<lambda>request.
       map_errR Fail (rpc_answer answer_cbor (serve request)))"

section \<open>The system interface\<close>

text \<open>The peers the network worker reports; the set of a closed channel is empty. The order of
  the list is the one of the hash set.\<close>

definition system_local_peer_id :: "('p \<Rightarrow> string) \<Rightarrow> 'p \<Rightarrow> string" where
  "system_local_peer_id base58 me = base58 me"

definition system_peers :: "('p \<Rightarrow> string) \<Rightarrow> 'p list option \<Rightarrow> string list" where
  "system_peers base58 connected = (case connected of None \<Rightarrow> [] | Some ps \<Rightarrow> map base58 ps)"

definition num_connected_peers :: "'p list option \<Rightarrow> nat" where
  "num_connected_peers connected = (case connected of None \<Rightarrow> 0 | Some ps \<Rightarrow> length ps)"

lemma num_connected_peers: "num_connected_peers c = length (system_peers base58 c)"
  by (simp add: num_connected_peers_def system_peers_def split: option.splits)

section \<open>The server and its clients\<close>

text \<open>The methods under the names the interfaces give them; \<open>jsonrpsee\<close> puts the namespace and an
  underscore before a name.\<close>

definition tss_methods :: "string list" where
  "tss_methods = [''keygen'', ''sign'']"

definition system_methods :: "string list" where
  "system_methods = [''system_localPeerId'', ''system_peers'', ''system_numConnectedPeers'']"

text \<open>Of \<open>jsonrpsee\<close> and the socket address parser: \<open>sv_merge\<close> adds the methods of a module to
  another, \<open>sv_build\<close> binds an address, \<open>sv_connect\<close> opens a connection.\<close>

record ('addr, 'c) rpc_lib =
  sv_merge :: "string list \<Rightarrow> string list \<Rightarrow> anyhow + string list"
  sv_parse_addr :: "string \<Rightarrow> anyhow + 'addr"
  sv_build :: "'addr \<Rightarrow> anyhow + unit"
  sv_connect :: "string \<Rightarrow> anyhow + 'c"

definition default_host_address :: string where
  "default_host_address = ''127.0.0.1:8080''"

record 'addr json_rpc_server =
  jr_addr :: 'addr
  jr_methods :: "string list"

definition json_rpc_server_new ::
    "('addr, 'c) rpc_lib \<Rightarrow> string \<Rightarrow> string list \<Rightarrow> anyhow + 'addr json_rpc_server" where
  "json_rpc_server_new L host_address methods =
     bindR (map_errR (\<lambda>e. ''invalid rpc host_address '' @ [CHR 0x27] @ host_address @ [CHR 0x27] @ '': '' @ e)
              (sv_parse_addr L host_address)) (\<lambda>addr.
     bindR (map_errR (\<lambda>e. ''jsonrpsee server build failed: '' @ e) (sv_build L addr)) (\<lambda>_.
       Inr \<lparr>jr_addr = addr, jr_methods = methods\<rparr>))"

definition new_client :: "('addr, 'c) rpc_lib \<Rightarrow> string \<Rightarrow> anyhow + 'c" where
  "new_client L addr = map_errR (\<lambda>e. ''node connection terminated w/ err: '' @ e) (sv_connect L addr)"

section \<open>A node that serves\<close>

datatype node_task = RoomBridgeTask | NetTask | RtTask

datatype 'addr node_event =
    Spawned node_task
  | Serving "'addr json_rpc_server"
  | ServerStopped
  | Aborted node_task
  | Awaited node_task

text \<open>The whole \<open>node\<close> command: the node is assembled and its tasks are running, the server runs
  until it is stopped, and the tasks are aborted and awaited.\<close>

definition rpc_server_start :: "('addr, 'c) rpc_lib \<Rightarrow> 'p node \<Rightarrow> anyhow + 'addr json_rpc_server" where
  "rpc_server_start L nd =
     bindR (map_errR (\<lambda>e. ''failed to merge rpc modules: '' @ e) (sv_merge L tss_methods system_methods)) (\<lambda>methods.
       map_errR (\<lambda>e. ''json rpc server terminated with err: '' @ e)
         (json_rpc_server_new L (nd_rpc_addr nd) methods))"

definition node_serve ::
    "('addr, 'c) rpc_lib \<Rightarrow> fs \<times> (anyhow, 'p node \<times> ('p, 'x) discovery_call list) res \<Rightarrow>
     fs \<times> 'addr node_event list \<times> (anyhow, unit) res" where
  "node_serve L started =
     (case started of
        (F, Inl e) \<Rightarrow> (F, [], Inl e)
      | (F, Inr (nd, _)) \<Rightarrow>
          (let tasks = [RoomBridgeTask, NetTask, RtTask];
               stopped = [RtTask, NetTask, RoomBridgeTask]
           in case rpc_server_start L nd of
                Inl e \<Rightarrow> (F, map Spawned tasks, Inl (Fail e))
              | Inr server \<Rightarrow>
                  (F, map Spawned tasks @ [Serving server, ServerStopped] @ map Aborted stopped @ map Awaited stopped,
                   Inr ())))"

section \<open>The room of the node\<close>

lemma node_execute_room:
  fixes calls :: "('p, 'x) discovery_call list"
  assumes "node_execute E J M blake3_hex g fault mdns_ok now q c F = (F', Inr (nd, calls))"
  shows "nd_room_id nd = room_id_from blake3_hex ''tss/0''"
  using assms
  by (auto simp: node_execute_def room_config_new_full_def Let_def
      split: sum.splits prod.splits if_splits)

lemma decode_encoded_sign_payload:
  assumes "serde_laws sc" and "encode_sign_payload sc w m = Inr b"
  shows "decode_sign_payload sc b = Inr \<lparr>sg_wallet_id = normalize_wallet_id w, sg_message = m\<rparr>"
  using assms by (simp add: encode_sign_payload_def decode_sign_payload_def serde_laws_def)

section \<open>Properties\<close>

text \<open>
  A signing request of the RPC interface asks for one party more than the threshold, in
  the very room that the node has registered with the network, with a payload from which
  the agents read the normalised wallet and the message; with a threshold of 65535 it
  panics instead, since the addition overflows.
\<close>

lemma rpc_sign_reaches_room:
  fixes calls :: "('p, 'x) discovery_call list"
  assumes "serde_laws sc" and "encode_sign_payload sc wallet msg = Inr payload"
    and "node_execute E J M blake3_hex g fault mdns_ok now q c F = (F', Inr (nd, calls))"
  shows "(t \<noteq> - 1 \<longrightarrow>
      (\<exists>n. rpc_sign_request sc blake3_hex tx wallet t msg = Inr (KeySign n (nd_room_id nd) payload tx) \<and>
         unat n = unat t + 1 \<and>
         decode_sign_payload sc payload =
           Inr \<lparr>sg_wallet_id = normalize_wallet_id wallet, sg_message = msg\<rparr>)) \<and>
    rpc_sign_request sc blake3_hex tx wallet (- 1) msg = Inl (Panic ''attempt to add with overflow'')"
  using decode_encoded_sign_payload [OF assms(1,2)] assms(2) node_execute_room [OF assms(3)]
  by (simp add: rpc_sign_request_def service_keysign_def DEFAULT_TRANSPORT_ROOM_def checked_inc_def
      unat_checked_inc)

end
