(* ===== verification/Benchmark.thy ===== *)
theory Benchmark
  imports Wallet
begin

text \<open>
  \<open>cli/src/commands/benchmark.rs\<close>, and the choice of a wallet name in the \<open>keygen\<close> command: the
  loop over the requests, the statistics of their latencies and the table that is printed.
  The answers of the RPC client and the elapsed times are inputs.
\<close>

section \<open>Checks and text\<close>

definition ensure_total :: "u64 \<Rightarrow> anyhow + unit" where
  "ensure_total tot = (if tot = 0 then Inl ''--total must be greater than 0'' else Inr ())"

definition ensure_non_empty :: "string \<Rightarrow> ustring \<Rightarrow> anyhow + unit" where
  "ensure_non_empty name s =
     (if trim s = [] then Inl (''--'' @ name @ '' cannot be empty'') else Inr ())"

text \<open>\<open>uuid\<close> is the text of a fresh random identifier.\<close>

definition resolve_wallet_id :: "ustring \<Rightarrow> ustring option \<Rightarrow> ustring" where
  "resolve_wallet_id uuid w =
     (case w of
        Some i \<Rightarrow> if trim i \<noteq> [] then i else uuid
      | None \<Rightarrow> uuid)"

text \<open>Decimal numbers.\<close>

fun show_nat :: "nat \<Rightarrow> string" where
  "show_nat n =
     (if n < 10 then [char_of (48 + n)] else show_nat (n div 10) @ [char_of (48 + n mod 10)])"

declare show_nat.simps [simp del]

definition pad_right :: "nat \<Rightarrow> string \<Rightarrow> string" where
  "pad_right n s = s @ replicate (n - length s) (CHR '' '')"

definition format_optional_ms :: "u64 option \<Rightarrow> string" where
  "format_optional_ms v = (case v of None \<Rightarrow> ''n/a'' | Some ms \<Rightarrow> show_nat (unat ms) @ ''ms'')"

section \<open>The requests\<close>

definition push_failure :: "string list \<Rightarrow> string \<Rightarrow> string list" where
  "push_failure failures failure =
     (if 10 \<le> length failures then tl failures else failures) @ [failure]"

record bench_state =
  bs_latencies :: "nat list"
  bs_failures :: "string list"
  bs_success :: u64
  bs_fail :: u64

definition bench_start :: bench_state where
  "bench_start = \<lparr>bs_latencies = [], bs_failures = [], bs_success = 0, bs_fail = 0\<rparr>"

text \<open>One answer: a latency in milliseconds or an error, whose text is put behind \<open>label\<close>.\<close>

definition bench_step :: "(nat \<Rightarrow> string) \<Rightarrow> nat \<Rightarrow> string + nat \<Rightarrow> bench_state \<Rightarrow> bench_state" where
  "bench_step label i r st =
     (case r of
        Inr latency \<Rightarrow>
          st\<lparr>bs_success := bs_success st + 1, bs_latencies := bs_latencies st @ [latency]\<rparr>
      | Inl err \<Rightarrow>
          st\<lparr>bs_fail := bs_fail st + 1,
             bs_failures := push_failure (bs_failures st) (label i @ '': '' @ err)\<rparr>)"

definition print_progress :: "nat \<Rightarrow> nat \<Rightarrow> u64 \<Rightarrow> u64 \<Rightarrow> u64 \<Rightarrow> string list" where
  "print_progress i tot success fail progress_every =
     (if 0 < progress_every \<and> i mod unat progress_every = 0
      then [''progress: '' @ show_nat i @ ''/'' @ show_nat tot @ '', success='' @
            show_nat (unat success) @ '', fail='' @ show_nat (unat fail)]
      else [])"

fun bench_loop ::
    "(nat \<Rightarrow> string) \<Rightarrow> nat \<Rightarrow> u64 \<Rightarrow> nat \<Rightarrow> (string + nat) list \<Rightarrow> bench_state \<Rightarrow>
     bench_state \<times> string list" where
  "bench_loop label tot every i [] st = (st, [])"
| "bench_loop label tot every i (r # rs) st =
     (let st1 = bench_step label i r st;
          line = print_progress i tot (bs_success st1) (bs_fail st1) every;
          (st2, lines) = bench_loop label tot every (Suc i) rs st1
      in (st2, line @ lines))"

section \<open>Statistics\<close>

record benchmark_stats =
  st_total :: u64
  st_success :: u64
  st_fail :: u64
  st_min_ms :: "u64 option"
  st_p50_ms :: "u64 option"
  st_p95_ms :: "u64 option"
  st_p99_ms :: "u64 option"
  st_max_ms :: "u64 option"
  st_avg_ms :: "u64 option"

text \<open>The arithmetic is on \<open>u64\<close> and checked.\<close>

definition percentile :: "u64 list \<Rightarrow> nat \<Rightarrow> (anyhow, u64 option) res" where
  "percentile ts p =
     (if ts = [] then Inr None
      else if 2 ^ 64 \<le> length ts * p then Inl (Panic ''attempt to multiply with overflow'')
      else let q = (length ts * p + 99) div 100 in
           if q = 0 then Inl (Panic ''attempt to subtract with overflow'')
           else Inr (Some (ts ! min (q - 1) (length ts - 1))))"

definition checked_sum :: "u64 list \<Rightarrow> (anyhow, nat) res" where
  "checked_sum ts =
     (let n = sum_list (map unat ts) in
      if 2 ^ 64 \<le> n then Inl (Panic ''attempt to add with overflow'') else Inr n)"

definition average :: "u64 list \<Rightarrow> (anyhow, u64 option) res" where
  "average ts =
     (if ts = [] then Inr None
      else bindR (checked_sum ts) (\<lambda>n. Inr (Some (of_nat (n div length ts)))))"

definition from_latencies :: "u64 \<Rightarrow> u64 \<Rightarrow> u64 \<Rightarrow> nat list \<Rightarrow> (anyhow, benchmark_stats) res" where
  "from_latencies tot success fail latencies =
     (let ts = sort (map of_nat latencies) in
      bindR (average ts) (\<lambda>avg.
      bindR (percentile ts 50) (\<lambda>p50.
      bindR (percentile ts 95) (\<lambda>p95.
      bindR (percentile ts 99) (\<lambda>p99.
        Inr \<lparr>st_total = tot, st_success = success, st_fail = fail,
             st_min_ms = (if ts = [] then None else Some (hd ts)),
             st_p50_ms = p50, st_p95_ms = p95, st_p99_ms = p99,
             st_max_ms = (if ts = [] then None else Some (last ts)),
             st_avg_ms = avg\<rparr>)))))"

definition render_summary_table :: "benchmark_stats \<Rightarrow> string list" where
  "render_summary_table stats =
     (let rows = [(''total'', show_nat (unat (st_total stats))),
                  (''success'', show_nat (unat (st_success stats))),
                  (''fail'', show_nat (unat (st_fail stats))),
                  (''min'', format_optional_ms (st_min_ms stats)),
                  (''p50'', format_optional_ms (st_p50_ms stats)),
                  (''p95'', format_optional_ms (st_p95_ms stats)),
                  (''p99'', format_optional_ms (st_p99_ms stats)),
                  (''max'', format_optional_ms (st_max_ms stats)),
                  (''avg'', format_optional_ms (st_avg_ms stats))]
      in [''+---------+-------+'', ''| metric  | value |'', ''+---------+-------+''] @
         map (\<lambda>(metric, v). ''| '' @ pad_right 7 metric @ '' | '' @ pad_right 5 v @ '' |'') rows @
         [''+---------+-------+''])"

definition print_summary ::
    "u64 \<Rightarrow> u64 \<Rightarrow> u64 \<Rightarrow> nat list \<Rightarrow> string list \<Rightarrow> (anyhow, string list) res" where
  "print_summary tot success fail latencies failures =
     bindR (from_latencies tot success fail latencies) (\<lambda>stats.
       Inr ([] # render_summary_table stats @
            (if failures = [] then []
             else [] # ''Recent failures:'' # map (\<lambda>failure. ''- '' @ failure) failures)))"

text \<open>The two commands print a line of their own, check a name of their own and label a failure
  in their own way. \<open>connected\<close> is the outcome of \<open>new_client\<close>, the list has one answer for
  every request; the result is what is printed, line by line.\<close>

definition benchmark_execute ::
    "string \<Rightarrow> string \<Rightarrow> ustring \<Rightarrow> (nat \<Rightarrow> string) \<Rightarrow> u64 \<Rightarrow> u64 \<Rightarrow> anyhow + unit \<Rightarrow> (string + nat) list \<Rightarrow>
     (anyhow, string list) res" where
  "benchmark_execute banner name checked label tot progress_every connected answers =
     bindR (map_errR Fail (ensure_total tot)) (\<lambda>_.
     bindR (map_errR Fail (ensure_non_empty name checked)) (\<lambda>_.
     bindR (map_errR Fail connected) (\<lambda>_.
       let (st, lines) = bench_loop label (unat tot) progress_every 1
                           (take (unat tot) answers) bench_start
       in bindR (print_summary tot (bs_success st) (bs_fail st) (bs_latencies st) (bs_failures st))
            (\<lambda>summary. Inr (banner # lines @ summary)))))"

definition keygen_label :: "(nat \<Rightarrow> string) \<Rightarrow> nat \<Rightarrow> string" where
  "keygen_label wallet_id i = ''run '' @ show_nat i @ '', wallet '' @ wallet_id i"

definition keysign_label :: "nat \<Rightarrow> string" where
  "keysign_label i = ''run '' @ show_nat i"

text \<open>\<open>wallet_id i\<close> is the text of the name that request \<open>i\<close> is made with, the prefix and a
  fresh identifier; \<open>wallet\<close> is the text of the wallet that signs.\<close>

definition bench_keygen_execute ::
    "ustring \<Rightarrow> (nat \<Rightarrow> string) \<Rightarrow> u64 \<Rightarrow> u64 \<Rightarrow> anyhow + unit \<Rightarrow> (string + nat) list \<Rightarrow>
     (anyhow, string list) res" where
  "bench_keygen_execute wallet_prefix wallet_id tot progress_every connected answers =
     benchmark_execute (''Running '' @ show_nat (unat tot) @ '' keygen requests...'')
       ''wallet-prefix'' wallet_prefix (keygen_label wallet_id) tot progress_every connected answers"

definition bench_keysign_execute ::
    "ustring \<Rightarrow> string \<Rightarrow> u64 \<Rightarrow> u64 \<Rightarrow> anyhow + unit \<Rightarrow> (string + nat) list \<Rightarrow>
     (anyhow, string list) res" where
  "bench_keysign_execute wallet_id wallet tot progress_every connected answers =
     benchmark_execute (''Running '' @ show_nat (unat tot) @ '' signing requests for wallet '' @ wallet @ ''...'')
       ''wallet-id'' wallet_id keysign_label tot progress_every connected answers"

section \<open>Percentiles\<close>

lemma filter_le_take:
  fixes ts :: "'a :: linorder list"
  assumes "sorted ts" and "j < length ts" and "u < ts ! j"
  shows "length (filter (\<lambda>x. x \<le> u) ts) \<le> j"
proof -
  have "filter (\<lambda>x. x \<le> u) (drop j ts) = []"
  proof -
    have "u < x" if "x \<in> set (drop j ts)" for x
    proof -
      from that obtain i where i: "i < length (drop j ts)" and x: "x = drop j ts ! i"
        by (auto simp: in_set_conv_nth)
      have "ts ! j \<le> ts ! (j + i)" using assms(1) i by (intro sorted_nth_mono) auto
      with assms(2,3) i show ?thesis by (simp add: x)
    qed
    then show ?thesis by (auto simp: filter_empty_conv not_le)
  qed
  then have "filter (\<lambda>x. x \<le> u) ts = filter (\<lambda>x. x \<le> u) (take j ts)"
    by (metis append_Nil2 append_take_drop_id filter_append)
  moreover have "length (filter (\<lambda>x. x \<le> u) (take j ts)) \<le> length (take j ts)"
    by (rule length_filter_le)
  ultimately show ?thesis by simp
qed

lemma filter_le_nth:
  fixes ts :: "'a :: linorder list"
  assumes "sorted ts" and "j < length ts"
  shows "Suc j \<le> length (filter (\<lambda>x. x \<le> ts ! j) ts)"
proof -
  have "filter (\<lambda>x. x \<le> ts ! j) (take (Suc j) ts) = take (Suc j) ts"
  proof (rule filter_True, rule ballI)
    fix x
    assume "x \<in> set (take (Suc j) ts)"
    then obtain i where "i < length (take (Suc j) ts)" and "x = take (Suc j) ts ! i"
      by (auto simp: in_set_conv_nth)
    with assms show "x \<le> ts ! j" by (auto intro!: sorted_nth_mono)
  qed
  then have "length (filter (\<lambda>x. x \<le> ts ! j) ts) =
      length (take (Suc j) ts) + length (filter (\<lambda>x. x \<le> ts ! j) (drop (Suc j) ts))"
    by (metis append_take_drop_id filter_append length_append)
  with assms(2) show ?thesis by simp
qed

text \<open>The nearest-rank definition: the least sample that at least \<open>p\<close> percent of the samples
  do not exceed.\<close>

definition nearest_rank :: "u64 list \<Rightarrow> nat \<Rightarrow> u64 \<Rightarrow> bool" where
  "nearest_rank xs p v \<longleftrightarrow>
     v \<in> set xs \<and> p * length xs \<le> 100 * length (filter (\<lambda>x. x \<le> v) xs) \<and>
     (\<forall>u. u < v \<longrightarrow> 100 * length (filter (\<lambda>x. x \<le> u) xs) < p * length xs)"

lemma rank_bounds:
  fixes n p :: nat
  assumes "0 < n" and "0 < p" and "p \<le> 100"
  defines "q \<equiv> (n * p + 99) div 100"
  shows "0 < q" and "q \<le> n" and "p * n \<le> 100 * q" and "100 * (q - 1) < p * n"
proof -
  have np: "0 < n * p" using assms(1,2) by simp
  have "n * p \<le> n * 100" using assms(3) by simp
  then show "q \<le> n" unfolding q_def by linarith
  show "0 < q" and "p * n \<le> 100 * q" and "100 * (q - 1) < p * n"
    using np unfolding q_def mult.commute [of p n] by linarith+
qed

lemma percentile_sorted:
  assumes "sorted ts" and "ts \<noteq> []" and "0 < p" and "p \<le> 100" and "length ts * p < 2 ^ 64"
  shows "\<exists>v. percentile ts p = Inr (Some v) \<and> nearest_rank ts p v"
proof -
  let ?q = "(length ts * p + 99) div 100"
  have q: "0 < ?q" "?q \<le> length ts" "p * length ts \<le> 100 * ?q" "100 * (?q - 1) < p * length ts"
    using rank_bounds [of "length ts" p] assms(2-4) by simp_all
  let ?v = "ts ! (?q - 1)"
  have j: "?q - 1 < length ts" using q(1,2) by linarith
  have "nearest_rank ts p ?v"
    unfolding nearest_rank_def
  proof (intro conjI allI impI)
    show "?v \<in> set ts" using j by simp
    show "p * length ts \<le> 100 * length (filter (\<lambda>x. x \<le> ?v) ts)"
      using filter_le_nth [OF assms(1) j] q(1,3) by linarith
    fix u
    assume "u < ?v"
    from filter_le_take [OF assms(1) j this] q(4)
    show "100 * length (filter (\<lambda>x. x \<le> u) ts) < p * length ts" by linarith
  qed
  moreover have "percentile ts p = Inr (Some ?v)"
    using assms(2,5) q(1,2) by (simp add: percentile_def min_absorb1)
  ultimately show ?thesis by blast
qed

lemma sorted_hd_last:
  assumes "sorted ts" and "ts \<noteq> []"
  shows "\<forall>x \<in> set ts. hd ts \<le> x \<and> x \<le> last ts"
proof
  fix x
  assume "x \<in> set ts"
  then obtain i where i: "i < length ts" and x: "x = ts ! i" by (auto simp: in_set_conv_nth)
  have "ts ! 0 \<le> ts ! i" and "ts ! i \<le> ts ! (length ts - 1)"
    using assms(1) i by (auto intro!: sorted_nth_mono)
  with assms(2) show "hd ts \<le> x \<and> x \<le> last ts" by (simp add: x hd_conv_nth last_conv_nth)
qed

lemma sum_list_between:
  fixes xs :: "nat list"
  assumes "\<forall>x \<in> set xs. a \<le> x \<and> x \<le> b"
  shows "length xs * a \<le> sum_list xs \<and> sum_list xs \<le> length xs * b"
  using assms by (induction xs) auto

lemma average_between:
  assumes "ts \<noteq> []" and "\<forall>x \<in> set ts. lo \<le> x \<and> x \<le> hi" and "sum_list (map unat ts) < 2 ^ 64"
  shows "\<exists>avg. average ts = Inr (Some avg) \<and> lo \<le> avg \<and> avg \<le> hi"
proof -
  let ?s = "sum_list (map unat ts)"
  let ?n = "length ts"
  have n: "0 < ?n" using assms(1) by simp
  have "\<forall>x \<in> set (map unat ts). unat lo \<le> x \<and> x \<le> unat hi"
    using assms(2) by (auto simp: word_le_nat_alt)
  from sum_list_between [OF this] have l: "?n * unat lo \<le> ?s" and h: "?s \<le> ?n * unat hi"
    by simp_all
  have lo: "unat lo \<le> ?s div ?n" using div_le_mono [OF l, of ?n] n by simp
  have hi: "?s div ?n \<le> unat hi" using div_le_mono [OF h, of ?n] n by simp
  have "?s div ?n < 2 ^ 64" using assms(3) by (meson div_le_dividend le_less_trans)
  then have u: "unat (of_nat (?s div ?n) :: u64) = ?s div ?n"
    by (simp add: unat_of_nat take_bit_nat_eq_self)
  have "average ts = Inr (Some (of_nat (?s div ?n)))"
    using assms(1,3) by (simp add: average_def checked_sum_def)
  with lo hi u show ?thesis by (simp add: word_le_nat_alt)
qed

section \<open>The loop\<close>

text \<open>The failures of a list of answers, labelled with the number of their request.\<close>

fun failures_of :: "(nat \<Rightarrow> string) \<Rightarrow> nat \<Rightarrow> (string + nat) list \<Rightarrow> string list" where
  "failures_of label i [] = []"
| "failures_of label i (Inl err # rs) = (label i @ '': '' @ err) # failures_of label (Suc i) rs"
| "failures_of label i (Inr latency # rs) = failures_of label (Suc i) rs"

definition latencies_of :: "(string + nat) list \<Rightarrow> nat list" where
  "latencies_of rs = List.map_filter (\<lambda>r. case r of Inr l \<Rightarrow> Some l | Inl _ \<Rightarrow> None) rs"

definition last_n :: "nat \<Rightarrow> 'a list \<Rightarrow> 'a list" where
  "last_n n xs = drop (length xs - n) xs"

lemma push_failure_last: "push_failure (last_n 10 xs) x = last_n 10 (xs @ [x])"
proof (cases "10 \<le> length xs")
  case True
  then have "Suc (length xs - 10) = Suc (length xs) - 10" by simp
  then have "tl (drop (length xs - 10) xs) = drop (Suc (length xs) - 10) xs"
    by (metis drop_Suc tl_drop)
  with True show ?thesis by (simp add: push_failure_def last_n_def)
qed (simp add: push_failure_def last_n_def)

lemma bench_loop_state:
  assumes "bench_loop label tot every i rs st = (st', lines)"
    and "bs_failures st = last_n 10 fs"
  shows "bs_latencies st' = bs_latencies st @ latencies_of rs \<and>
    bs_failures st' = last_n 10 (fs @ failures_of label i rs) \<and>
    bs_success st' = bs_success st + of_nat (length (latencies_of rs)) \<and>
    bs_fail st' = bs_fail st + of_nat (length (failures_of label i rs))"
  using assms
proof (induction rs arbitrary: i st lines fs)
  case Nil
  then show ?case by (simp add: latencies_of_def)
next
  case (Cons r rs)
  let ?st1 = "bench_step label i r st"
  obtain lines2 where l: "bench_loop label tot every (Suc i) rs ?st1 = (st', lines2)"
    using Cons.prems(1) by (auto simp: Let_def split: prod.splits)
  show ?case
  proof (cases r)
    case (Inl err)
    have "bs_failures ?st1 = last_n 10 (fs @ [label i @ '': '' @ err])"
      using Cons.prems(2) by (simp add: bench_step_def Inl push_failure_last)
    from Cons.IH [OF l this] show ?thesis
      by (simp add: Inl bench_step_def latencies_of_def List.map_filter_simps)
  next
    case (Inr latency)
    have "bs_failures ?st1 = last_n 10 fs" using Cons.prems(2) by (simp add: bench_step_def Inr)
    from Cons.IH [OF l this] show ?thesis
      by (simp add: Inr bench_step_def latencies_of_def List.map_filter_simps)
  qed
qed

section \<open>Properties\<close>

text \<open>
  C40: the three percentiles that are reported are the nearest-rank percentiles of the measured
  latencies (in whole milliseconds), the extremes are the least and the greatest of them, and
  the average lies between these; nothing of this panics as long as the sum of the
  latencies and 99 times their number fit into 64 bits.
\<close>

theorem percentiles_nearest_rank:
  assumes "latencies \<noteq> []" and "ms = map of_nat latencies"
    and "sum_list (map unat ms) < 2 ^ 64" and "length latencies * 99 < 2 ^ 64"
  shows "\<exists>st a b c lo hi avg.
    from_latencies tot success fail latencies = Inr st \<and>
    st_p50_ms st = Some a \<and> nearest_rank (sort ms) 50 a \<and>
    st_p95_ms st = Some b \<and> nearest_rank (sort ms) 95 b \<and>
    st_p99_ms st = Some c \<and> nearest_rank (sort ms) 99 c \<and>
    st_min_ms st = Some lo \<and> st_max_ms st = Some hi \<and> st_avg_ms st = Some avg \<and>
    lo \<in> set ms \<and> hi \<in> set ms \<and> (\<forall>x \<in> set ms. lo \<le> x \<and> x \<le> hi) \<and> lo \<le> avg \<and> avg \<le> hi"
proof -
  let ?ts = "sort ms"
  have ne: "?ts \<noteq> []" using assms(1,2) by (metis list.map_disc_iff set_empty set_sort)
  have len: "length ?ts = length latencies" by (simp add: assms(2))
  obtain a where a: "percentile ?ts 50 = Inr (Some a)" "nearest_rank ?ts 50 a"
    using percentile_sorted [of ?ts 50] ne assms(4) len by auto
  obtain b where b: "percentile ?ts 95 = Inr (Some b)" "nearest_rank ?ts 95 b"
    using percentile_sorted [of ?ts 95] ne assms(4) len by auto
  obtain c where c: "percentile ?ts 99 = Inr (Some c)" "nearest_rank ?ts 99 c"
    using percentile_sorted [of ?ts 99] ne assms(4) len by auto
  have "sum_list (map unat ?ts) = sum_list (map unat ms)"
    by (metis mset_map mset_sort sum_mset_sum_list)
  then have sum: "sum_list (map unat ?ts) < 2 ^ 64" using assms(3) by simp
  have lo: "hd ?ts \<in> set ms" and hi: "last ?ts \<in> set ms"
    using ne by (metis hd_in_set set_sort, metis last_in_set set_sort)
  have bounds: "\<forall>x \<in> set ?ts. hd ?ts \<le> x \<and> x \<le> last ?ts"
    using sorted_hd_last [OF sorted_sort ne] .
  obtain avg where avg: "average ?ts = Inr (Some avg)" "hd ?ts \<le> avg" "avg \<le> last ?ts"
    using average_between [OF ne bounds sum] by blast
  with a b c lo hi bounds ne show ?thesis
    by (auto simp: from_latencies_def assms(2) [symmetric] Let_def)
qed

theorem percentiles_nearest_rank_witness:
  "\<exists>st a. from_latencies 4 4 0 [565, 551, 584, 576] = Inr st \<and> st_p50_ms st = Some a \<and>
    nearest_rank [551, 565, 576, 584] 50 a"
  using percentiles_nearest_rank [of "[565, 551, 584, 576]" "[565, 551, 584, 576]" 4 4 0]
  by auto

text \<open>
  After the requests of a benchmark the counters and latencies are those of the answers,
  in order, and the list of failures holds the last ten, labelled with their request.
\<close>

lemma benchmark_loop_counts:
  "let (st, lines) = bench_loop label tot every 1 answers bench_start in
   bs_latencies st = latencies_of answers \<and>
   bs_success st = of_nat (length (latencies_of answers)) \<and>
   bs_fail st = of_nat (length (failures_of label 1 answers)) \<and>
   bs_failures st = last_n 10 (failures_of label 1 answers)"
proof -
  obtain st lines where l: "bench_loop label tot every 1 answers bench_start = (st, lines)"
    by fastforce
  have "bs_failures bench_start = last_n 10 []" by (simp add: bench_start_def last_n_def)
  from bench_loop_state [OF l this] show ?thesis
    unfolding l by (simp add: bench_start_def)
qed

end
