(* ===== verification/Cli.thy ===== *)
theory Cli
  imports Rpc Benchmark
begin

text \<open>
  \<open>cli/src\<close>: the commands \<open>keygen\<close>, \<open>sign\<close>, \<open>setup\<close>, \<open>node\<close> and \<open>benchmark\<close>, and the program
  that runs one of them. Parsing the command line is the crate \<open>clap\<close>, so a command is the
  record of its arguments; what the RPC client answers comes from the node it is connected to.
\<close>

section \<open>Text\<close>

text \<open>\<open>str::as_bytes\<close>: the UTF-8 encoding.\<close>

definition utf8_char :: "nat \<Rightarrow> bytes" where
  "utf8_char c =
     (if c < 0x80 then [of_nat c]
      else if c < 0x800 then [of_nat (0xC0 + c div 64), of_nat (0x80 + c mod 64)]
      else if c < 0x10000 then
        [of_nat (0xE0 + c div 4096), of_nat (0x80 + c div 64 mod 64), of_nat (0x80 + c mod 64)]
      else [of_nat (0xF0 + c div 262144), of_nat (0x80 + c div 4096 mod 64),
            of_nat (0x80 + c div 64 mod 64), of_nat (0x80 + c mod 64)])"

definition as_bytes :: "ustring \<Rightarrow> bytes" where
  "as_bytes s = concat (map utf8_char s)"

section \<open>Commands\<close>

text \<open>A connected client. An error is the text of the error of the call.\<close>

record rpc_client =
  cl_keygen :: "ustring \<Rightarrow> u16 \<Rightarrow> u16 \<Rightarrow> anyhow + public_key"
  cl_sign :: "ustring \<Rightarrow> u16 \<Rightarrow> bytes \<Rightarrow> anyhow + signature"

record keygen_command =
  kc_wallet_id :: "ustring option"
  kc_address :: string
  kc_threshold :: u16
  kc_parties :: u16

text \<open>The result is what is printed; \<open>uuid\<close> is the text of a fresh identifier.\<close>

definition keygen_execute ::
    "('addr, rpc_client) rpc_lib \<Rightarrow> ustring \<Rightarrow> keygen_command \<Rightarrow> anyhow + ustring list" where
  "keygen_execute L uuid c =
     (let wallet_id = resolve_wallet_id uuid (kc_wallet_id c) in
      bindR (new_client L (kc_address c)) (\<lambda>client.
      bindR (map_errR (\<lambda>e. ''error keygen: '' @ e)
               (cl_keygen client wallet_id (kc_parties c) (kc_threshold c))) (\<lambda>pub_key.
        Inr [code_points ''wallet_id: '' @ wallet_id])))"

record sign_command =
  sc_wallet_id :: ustring
  sc_address :: string
  sc_threshold :: u16
  sc_messages :: ustring

text \<open>The signature goes to the log; it is only encoded when the log is enabled.\<close>

definition sign_execute ::
    "('addr, rpc_client) rpc_lib \<Rightarrow> bool \<Rightarrow> (signature \<Rightarrow> string option) \<Rightarrow> sign_command \<Rightarrow> anyhow + ustring list" where
  "sign_execute L info_enabled sig_json c =
     bindR (new_client L (sc_address c)) (\<lambda>client.
     bindR (map_errR (\<lambda>e. ''error signing: '' @ e)
              (cl_sign client (sc_wallet_id c) (sc_threshold c) (as_bytes (sc_messages c)))) (\<lambda>res.
     bindR (if info_enabled then ok_or ''error encoding signature'' (sig_json res) else Inr []) (\<lambda>_.
       Inr [])))"

record setup_command =
  su_multiaddr :: string
  su_rpc_address :: string
  su_config_path :: string
  su_path :: string

definition setup_execute ::
    "('k, 'p) ed25519_ops \<Rightarrow> 'p json_ops \<Rightarrow> 'p multiaddr_ops \<Rightarrow> 'k \<Rightarrow> bool \<Rightarrow> nat option \<Rightarrow>
     setup_command \<Rightarrow> fs \<Rightarrow> (anyhow, fs) res" where
  "setup_execute E J M generated mkdir_ok fault c F =
     bindR (map_errR (\<lambda>e. case e of Panic s \<Rightarrow> Panic s | Fail e \<Rightarrow> Fail (''error generating config: '' @ e))
              (generate_config E J M generated mkdir_ok fault (su_config_path c) (su_path c)
                 (su_multiaddr c) (su_rpc_address c) F)) (\<lambda>(F', config).
       Inr F')"

section \<open>Benchmarks\<close>

record keygen_bench =
  bk_address :: string
  bk_threshold :: u16
  bk_parties :: u16
  bk_total :: u64
  bk_wallet_prefix :: ustring
  bk_progress_every :: u64

record keysign_bench =
  bg_wallet_id :: ustring
  bg_address :: string
  bg_threshold :: u16
  bg_total :: u64
  bg_message :: ustring
  bg_progress_every :: u64

datatype benchmark_command = BenchKeygen keygen_bench | BenchKeysign keysign_bench

text \<open>The answers to the requests, one after the other; \<open>elapsed i\<close> is the time request \<open>i\<close> took
  and \<open>uuid i\<close> the identifier that was drawn for it.\<close>

definition bench_answers :: "(nat \<Rightarrow> nat) \<Rightarrow> (nat \<Rightarrow> anyhow + 'a) \<Rightarrow> u64 \<Rightarrow> (string + nat) list" where
  "bench_answers elapsed call tot =
     map (\<lambda>i. bindR (call i) (\<lambda>_. Inr (elapsed i))) [1..<Suc (unat tot)]"

definition bench_wallet :: "(nat \<Rightarrow> ustring) \<Rightarrow> keygen_bench \<Rightarrow> nat \<Rightarrow> ustring" where
  "bench_wallet uuid c i = bk_wallet_prefix c @ code_points ''-'' @ uuid i"

definition benchmark_command_execute ::
    "('addr, rpc_client) rpc_lib \<Rightarrow> (nat \<Rightarrow> ustring) \<Rightarrow> (nat \<Rightarrow> nat) \<Rightarrow> benchmark_command \<Rightarrow>
     (anyhow, string list) res" where
  "benchmark_command_execute L uuid elapsed b =
     (case b of
        BenchKeygen c \<Rightarrow>
          (let client = new_client L (bk_address c);
               call = (\<lambda>i. bindR client (\<lambda>cl. cl_keygen cl (bench_wallet uuid c i) (bk_parties c) (bk_threshold c)))
           in bench_keygen_execute (bk_wallet_prefix c) (\<lambda>i. of_code_points (bench_wallet uuid c i)) (bk_total c)
                (bk_progress_every c) (bindR client (\<lambda>_. Inr ())) (bench_answers elapsed call (bk_total c)))
      | BenchKeysign c \<Rightarrow>
          (let client = new_client L (bg_address c);
               call = (\<lambda>i. bindR client (\<lambda>cl. cl_sign cl (bg_wallet_id c) (bg_threshold c) (as_bytes (bg_message c))))
           in bench_keysign_execute (bg_wallet_id c) (of_code_points (bg_wallet_id c)) (bg_total c)
                (bg_progress_every c) (bindR client (\<lambda>_. Inr ())) (bench_answers elapsed call (bg_total c))))"

section \<open>The program\<close>

datatype command =
    Benchmark benchmark_command
  | Keygen keygen_command
  | Node node_command
  | Setup setup_command
  | Sign sign_command

text \<open>What a command needs of the world around it.\<close>

record ('addr, 'k, 'p) cli_env =
  ce_logger :: "anyhow + anyhow + unit"
  ce_rpc :: "('addr, rpc_client) rpc_lib"
  ce_uuid :: "nat \<Rightarrow> ustring"
  ce_elapsed :: "nat \<Rightarrow> nat"
  ce_info_enabled :: bool
  ce_sig_json :: "signature \<Rightarrow> string option"
  ce_ed25519 :: "('k, 'p) ed25519_ops"
  ce_json :: "'p json_ops"
  ce_multiaddr :: "'p multiaddr_ops"
  ce_generated :: 'k
  ce_mkdir_ok :: bool
  ce_fault :: "nat option"
  ce_blake3_hex :: "string \<Rightarrow> string"
  ce_mdns_ok :: bool
  ce_now :: instant
  ce_queue :: inbound_queue

definition run_command ::
    "('addr, 'k, 'p) cli_env \<Rightarrow> command \<Rightarrow> fs \<Rightarrow> fs \<times> (anyhow, ustring list) res" where
  "run_command W command F =
     (case command of
        Benchmark c \<Rightarrow>
          (F, bindR (benchmark_command_execute (ce_rpc W) (ce_uuid W) (ce_elapsed W) c) (\<lambda>lines.
                Inr (map code_points lines)))
      | Keygen c \<Rightarrow> (F, map_errR Fail (keygen_execute (ce_rpc W) (ce_uuid W 0) c))
      | Node c \<Rightarrow>
          (let started = node_execute (ce_ed25519 W) (ce_json W) (ce_multiaddr W) (ce_blake3_hex W) (ce_generated W)
                 (ce_fault W) (ce_mdns_ok W) (ce_now W) (ce_queue W) c F
                 :: fs \<times> (anyhow, 'p node \<times> ('p, nat) discovery_call list) res;
               (F', _, r) = node_serve (ce_rpc W) started
           in (F', bindR r (\<lambda>_. Inr [])))
      | Setup c \<Rightarrow>
          (case setup_execute (ce_ed25519 W) (ce_json W) (ce_multiaddr W) (ce_generated W) (ce_mkdir_ok W)
                  (ce_fault W) c F of
             Inl e \<Rightarrow> (F, Inl e)
           | Inr F' \<Rightarrow> (F', Inr []))
      | Sign c \<Rightarrow>
          (F, map_errR Fail (sign_execute (ce_rpc W) (ce_info_enabled W) (ce_sig_json W) c)))"

text \<open>The logger is read from the environment, which may fail, and started, which must not.\<close>

definition cli_run ::
    "('addr, 'k, 'p) cli_env \<Rightarrow> command \<Rightarrow> fs \<Rightarrow> fs \<times> (anyhow, ustring list) res" where
  "cli_run W command F =
     (case ce_logger W of
        Inl e \<Rightarrow> (F, Inl (Fail e))
      | Inr (Inl e) \<Rightarrow> (F, Inl (Panic (''Failed to initialize logging: '' @ e)))
      | Inr (Inr _) \<Rightarrow> run_command W command F)"

text \<open>The exit code and, when the command succeeded, all that was printed.\<close>

definition cli_main ::
    "('addr, 'k, 'p) cli_env \<Rightarrow> command \<Rightarrow> fs \<Rightarrow> fs \<times> nat \<times> ustring list option" where
  "cli_main W command F =
     (case cli_run W command F of
        (F', Inr lines) \<Rightarrow> (F', 0, Some (lines @ [code_points ''Done'']))
      | (F', Inl (Fail _)) \<Rightarrow> (F', 1, None)
      | (F', Inl (Panic _)) \<Rightarrow> (F', 101, None))"

text \<open>The program \<open>mpc-node\<close>, which is the \<open>node\<close> command alone.\<close>

definition node_main :: "fs \<times> 'addr node_event list \<times> (anyhow, unit) res \<Rightarrow> nat" where
  "node_main outcome =
     (case outcome of
        (_, _, Inr ()) \<Rightarrow> 0
      | (_, _, Inl (Fail _)) \<Rightarrow> 1
      | (_, _, Inl (Panic _)) \<Rightarrow> 101)"

section \<open>From the command line to the wallet\<close>

text \<open>A client of a node: a call runs the node's method, and an error arrives as its text.\<close>

definition node_client ::
    "keygen_request_payload serde \<Rightarrow> public_key serde \<Rightarrow> sign_request_payload serde \<Rightarrow> signature serde \<Rightarrow>
     (string \<Rightarrow> string) \<Rightarrow> oneshot \<Rightarrow> (service_msg \<Rightarrow> (anyhow + bytes) option) \<Rightarrow> (rpc_error fault \<Rightarrow> anyhow) \<Rightarrow>
     rpc_client" where
  "node_client kc pc sc gc blake3_hex tx serve show_error =
     \<lparr>cl_keygen = \<lambda>w n t. map_errR show_error (rpc_keygen kc pc blake3_hex tx serve w n t),
      cl_sign = \<lambda>w t m. map_errR show_error (rpc_sign sc gc blake3_hex tx serve w t m)\<rparr>"

lemma map_errR_eq_Inr [simp]: "map_errR f m = Inr x \<longleftrightarrow> m = Inr x"
  by (cases m) simp_all

lemma rpc_answer_Inr: "rpc_answer c r = Inr x \<longleftrightarrow> (\<exists>b. r = Some (Inr b) \<and> from_slice c b = Some x)"
  by (auto simp: rpc_answer_def ok_or_def split: option.splits sum.splits)

lemma rpc_keygen_Inr:
  assumes "rpc_keygen kc pc hex tx serve w n t = Inr key" and "serde_laws kc"
  shows "\<exists>payload answer. serve (KeyGen t n (room_id_from hex DEFAULT_TRANSPORT_ROOM) payload tx) = Some (Inr answer) \<and>
    decode_keygen_payload kc payload = Inr \<lparr>kg_wallet_id = normalize_wallet_id w, kg_threshold = t\<rparr>"
proof -
  from assms(1) obtain b where b: "encode_keygen_payload kc w t = Inr b"
    "\<exists>v. serve (KeyGen t n (room_id_from hex DEFAULT_TRANSPORT_ROOM) b tx) = Some (Inr v)"
    by (auto simp: rpc_keygen_def rpc_keygen_request_def service_keygen_def rpc_answer_Inr)
  moreover have "decode_keygen_payload kc b = Inr \<lparr>kg_wallet_id = normalize_wallet_id w, kg_threshold = t\<rparr>"
    using b(1) assms(2) by (simp add: encode_keygen_payload_def decode_keygen_payload_def serde_laws_def)
  ultimately show ?thesis by blast
qed

lemma keygen_execute_serves:
  assumes "sv_connect L (kc_address c) = Inr (node_client kc pc sc gc hex tx serve err)"
    and "keygen_execute L uuid c = Inr lines"
  shows "lines = [code_points ''wallet_id: '' @ resolve_wallet_id uuid (kc_wallet_id c)] \<and>
    (\<exists>key. rpc_keygen kc pc hex tx serve (resolve_wallet_id uuid (kc_wallet_id c)) (kc_parties c) (kc_threshold c) = Inr key)"
  using assms by (auto simp: keygen_execute_def new_client_def node_client_def Let_def)

lemma sign_request_of_wallet:
  assumes "serde_laws sc" and "encode_sign_payload sc w m = Inr p" and "t \<noteq> - 1"
  shows "rpc_sign_request sc hex tx w t m = Inr (KeySign (t + 1) (room_id_from hex DEFAULT_TRANSPORT_ROOM) p tx)"
    and "unat (t + 1) = unat t + 1"
    and "decode_sign_payload sc p = Inr \<lparr>sg_wallet_id = normalize_wallet_id w, sg_message = m\<rparr>"
  using assms decode_encoded_sign_payload [OF assms(1,2)]
  by (simp_all add: rpc_sign_request_def service_keysign_def checked_inc_def unat_checked_inc)

lemma rpc_sign_Inr:
  assumes "serde_laws sc" and "encode_sign_payload sc w m = Inr p" and "t \<noteq> - 1"
  shows "rpc_sign sc gc hex tx serve w t m = Inr res \<longleftrightarrow>
    (\<exists>answer. serve (KeySign (t + 1) (room_id_from hex DEFAULT_TRANSPORT_ROOM) p tx) = Some (Inr answer) \<and>
      from_slice gc answer = Some res)"
  by (simp add: rpc_sign_def sign_request_of_wallet(1) [OF assms] rpc_answer_Inr)

lemma sign_execute_Inr:
  assumes "sv_connect L (sc_address s) = Inr (node_client kc pc sc gc hex tx serve err)"
  shows "sign_execute L info_enabled sig_json s = Inr lines \<longleftrightarrow> lines = [] \<and>
    (\<exists>res. rpc_sign sc gc hex tx serve (sc_wallet_id s) (sc_threshold s) (as_bytes (sc_messages s)) = Inr res \<and>
      (info_enabled \<longrightarrow> sig_json res \<noteq> None))"
  using assms
  by (cases info_enabled) (auto simp: sign_execute_def new_client_def node_client_def ok_or_def split: option.splits)

section \<open>Properties\<close>

text \<open>
  C17: the wallet that the \<open>keygen\<close> command prints is the wallet that the \<open>sign\<close> command uses.
  When \<open>keygen\<close> succeeds, the worker of the node it is connected to answered a request to
  generate a key in the room that a node registers, with the threshold and the parties of the
  command and for the wallet whose name is printed. A \<open>sign\<close> command that is given the printed
  name, connected to any node, succeeds exactly when that node's worker answers, with the
  encoding of a signature that the log can print, the request to sign in the same room with one
  party more than the threshold; the payload of that request is the bytes of the message and
  that same wallet. The threshold is not the largest \<open>u16\<close> and the payload can be encoded.
\<close>

theorem printed_wallet_signs:
  fixes calls :: "('p, 'x) discovery_call list"
  assumes "serde_laws kc" and "serde_laws sc"
    and "node_execute E J M blake3_hex g fault mdns_ok now q nc F = (F', Inr (nd, calls))"
    and "sv_connect L (kc_address c) = Inr (node_client kc pc sc gc blake3_hex tx serve err)"
    and "keygen_execute L uuid c = Inr lines"
    and "lines = [code_points ''wallet_id: '' @ sc_wallet_id s]"
    and "sv_connect L (sc_address s) = Inr (node_client kc pc sc gc blake3_hex tx' serve' err')"
    and "sc_threshold s \<noteq> - 1"
    and "encode_sign_payload sc (sc_wallet_id s) (as_bytes (sc_messages s)) = Inr payload"
  shows "(\<exists>kg answer. serve (KeyGen (kc_threshold c) (kc_parties c) (nd_room_id nd) kg tx) = Some (Inr answer) \<and>
      decode_keygen_payload kc kg = Inr \<lparr>kg_wallet_id = normalize_wallet_id (sc_wallet_id s),
        kg_threshold = kc_threshold c\<rparr>) \<and>
    (\<exists>n. unat n = unat (sc_threshold s) + 1 \<and>
      (sign_execute L info_enabled sig_json s = Inr [] \<longleftrightarrow>
        (\<exists>answer signature. serve' (KeySign n (nd_room_id nd) payload tx') = Some (Inr answer) \<and>
          from_slice gc answer = Some signature \<and> (info_enabled \<longrightarrow> sig_json signature \<noteq> None))) \<and>
      decode_sign_payload sc payload = Inr \<lparr>sg_wallet_id = normalize_wallet_id (sc_wallet_id s),
        sg_message = as_bytes (sc_messages s)\<rparr>)"
proof
  have room: "nd_room_id nd = room_id_from blake3_hex DEFAULT_TRANSPORT_ROOM"
    using node_execute_room [OF assms(3)] by (simp add: DEFAULT_TRANSPORT_ROOM_def)
  note k = keygen_execute_serves [OF assms(4,5)]
  with assms(6) have w: "resolve_wallet_id uuid (kc_wallet_id c) = sc_wallet_id s" by simp
  with k rpc_keygen_Inr [OF _ assms(1)] show "\<exists>kg answer.
      serve (KeyGen (kc_threshold c) (kc_parties c) (nd_room_id nd) kg tx) = Some (Inr answer) \<and>
      decode_keygen_payload kc kg = Inr \<lparr>kg_wallet_id = normalize_wallet_id (sc_wallet_id s),
        kg_threshold = kc_threshold c\<rparr>"
    unfolding room w by blast
  show "\<exists>n. unat n = unat (sc_threshold s) + 1 \<and>
      (sign_execute L info_enabled sig_json s = Inr [] \<longleftrightarrow>
        (\<exists>answer signature. serve' (KeySign n (nd_room_id nd) payload tx') = Some (Inr answer) \<and>
          from_slice gc answer = Some signature \<and> (info_enabled \<longrightarrow> sig_json signature \<noteq> None))) \<and>
      decode_sign_payload sc payload = Inr \<lparr>sg_wallet_id = normalize_wallet_id (sc_wallet_id s),
        sg_message = as_bytes (sc_messages s)\<rparr>"
    using sign_request_of_wallet(2,3) [OF assms(2,9,8)]
    unfolding sign_execute_Inr [OF assms(7)] rpc_sign_Inr [OF assms(2,9,8)] room
    by (intro exI [of _ "sc_threshold s + 1"]) auto
qed

text \<open>A node that answers every request with the same bytes.\<close>

definition plain_client :: rpc_client where
  "plain_client =
     node_client (single_serde \<lparr>kg_wallet_id = normalize_wallet_id (code_points ''w1''), kg_threshold = 2\<rparr> [5])
       (single_serde \<lparr>pk_curve = Ed25519, pk_bytes = [1]\<rparr> [9])
       (single_serde \<lparr>sg_wallet_id = normalize_wallet_id (code_points ''w1''), sg_message = [104, 105]\<rparr> [7])
       (single_serde \<lparr>sig_curve = Ed25519, sig_pub_key = [1], sig_signature = [2]\<rparr> [8])
       (\<lambda>s. s) 3 (\<lambda>msg. case msg of KeyGen _ _ _ _ _ \<Rightarrow> Some (Inr [9]) | KeySign _ _ _ _ \<Rightarrow> Some (Inr [8])) (\<lambda>_. ''error'')"

definition plain_rpc :: "(nat, rpc_client) rpc_lib" where
  "plain_rpc = \<lparr>sv_merge = \<lambda>a b. Inr (a @ b), sv_parse_addr = \<lambda>_. Inr 0, sv_build = \<lambda>_. Inr (),
     sv_connect = \<lambda>_. Inr plain_client\<rparr>"

definition plain_keygen :: keygen_command where
  "plain_keygen = \<lparr>kc_wallet_id = Some (code_points ''w1''), kc_address = ''a'', kc_threshold = 2, kc_parties = 3\<rparr>"

definition plain_sign_command :: sign_command where
  "plain_sign_command = \<lparr>sc_wallet_id = code_points ''w1'', sc_address = ''a'', sc_threshold = 2,
     sc_messages = code_points ''hi''\<rparr>"

lemma plain_keygen_runs: "keygen_execute plain_rpc [] plain_keygen = Inr [code_points ''wallet_id: '' @ code_points ''w1'']"
  by (simp add: keygen_execute_def plain_rpc_def plain_client_def plain_keygen_def new_client_def node_client_def
      rpc_keygen_def rpc_keygen_request_def service_keygen_def rpc_answer_def encode_keygen_payload_def ok_or_def
      single_serde_def resolve_wallet_id_def trim_def code_points_def is_whitespace_def del: bindR_eq_Inr)

theorem printed_wallet_signs_witness:
  "keygen_execute plain_rpc [] plain_keygen = Inr [code_points ''wallet_id: '' @ sc_wallet_id plain_sign_command] \<and>
   sign_execute plain_rpc True (\<lambda>_. Some ''sig'') plain_sign_command = Inr []"
proof -
  let ?s = plain_sign_command
  obtain nd and calls :: "(bool, nat) discovery_call list" where
    e: "node_execute plain_ed25519 plain_json plain_multiaddr (\<lambda>s. s) False None True 0 0 plain_command
       (plain_files 1) = (plain_files 1, Inr (nd, calls))"
    using plain_node_runs by blast
  have c: "sv_connect plain_rpc (kc_address plain_keygen) = Inr plain_client"
    "sv_connect plain_rpc (sc_address ?s) = Inr plain_client" by (simp_all add: plain_rpc_def)
  have m: "as_bytes (sc_messages ?s) = [104, 105]"
    by (simp add: plain_sign_command_def as_bytes_def utf8_char_def code_points_def)
  have p: "encode_sign_payload (single_serde \<lparr>sg_wallet_id = normalize_wallet_id (code_points ''w1''),
      sg_message = [104, 105]\<rparr> [7]) (sc_wallet_id ?s) (as_bytes (sc_messages ?s)) = Inr [7]"
    unfolding m by (simp add: encode_sign_payload_def single_serde_def plain_sign_command_def ok_or_def)
  have l: "[code_points ''wallet_id: '' @ code_points ''w1''] = [code_points ''wallet_id: '' @ sc_wallet_id ?s]"
    "sc_threshold ?s \<noteq> - 1" by (simp_all add: plain_sign_command_def)
  from printed_wallet_signs [OF single_serde_laws single_serde_laws e c(1) [unfolded plain_client_def] plain_keygen_runs
      l(1) c(2) [unfolded plain_client_def] l(2) p, of True "\<lambda>_. Some ''sig''"]
  show ?thesis
    using plain_keygen_runs by (auto simp: single_serde_def l(1))
qed

end
