(* ===== verification/Traced.thy ===== *)
theory Traced
  imports Prelude
begin

text \<open>
  \<open>service/src/mpsc.rs\<close>: channels that wrap the unbounded channels of \<open>futures\<close> under a name. The
  module is not declared in \<open>lib.rs\<close>, so no other component uses it. A channel of \<open>futures\<close> is
  a parameter, with the documented behaviour of its receiver as a locale.
\<close>

section \<open>The wrapped channel\<close>

text \<open>The operations of the two halves on the state \<open>'c\<close> of a channel. A poll that is pending is
  \<open>None\<close>; \<open>try_next\<close> fails when there is no message yet and gives \<open>None\<close> when there will be none.\<close>

record ('c, 'a) unbounded =
  ub_new :: 'c
  ub_poll_ready :: "'c \<Rightarrow> (unit + unit) option"
  ub_is_closed :: "'c \<Rightarrow> bool"
  ub_close_channel :: "'c \<Rightarrow> 'c"
  ub_disconnect :: "'c \<Rightarrow> 'c"
  ub_start_send :: "'a \<Rightarrow> 'c \<Rightarrow> 'c \<times> (unit + unit)"
  ub_unbounded_send :: "'a \<Rightarrow> 'c \<Rightarrow> 'c \<times> ('a + unit)"
  ub_try_next :: "'c \<Rightarrow> 'c \<times> (unit + 'a option)"
  ub_is_terminated :: "'c \<Rightarrow> bool"
  ub_close :: "'c \<Rightarrow> 'c"
  ub_poll_next :: "'c \<Rightarrow> 'c \<times> 'a option option"

record 'c traced =
  tr_key :: string
  tr_inner :: 'c

definition tracing_unbounded :: "('c, 'a) unbounded \<Rightarrow> string \<Rightarrow> 'c traced" where
  "tracing_unbounded U key = \<lparr>tr_key = key, tr_inner = ub_new U\<rparr>"

section \<open>The sender\<close>

definition traced_poll_ready :: "('c, 'a) unbounded \<Rightarrow> 'c traced \<Rightarrow> (unit + unit) option" where
  "traced_poll_ready U ch = ub_poll_ready U (tr_inner ch)"

definition traced_is_closed :: "('c, 'a) unbounded \<Rightarrow> 'c traced \<Rightarrow> bool" where
  "traced_is_closed U ch = ub_is_closed U (tr_inner ch)"

definition traced_close_channel :: "('c, 'a) unbounded \<Rightarrow> 'c traced \<Rightarrow> 'c traced" where
  "traced_close_channel U ch = ch\<lparr>tr_inner := ub_close_channel U (tr_inner ch)\<rparr>"

definition traced_disconnect :: "('c, 'a) unbounded \<Rightarrow> 'c traced \<Rightarrow> 'c traced" where
  "traced_disconnect U ch = ch\<lparr>tr_inner := ub_disconnect U (tr_inner ch)\<rparr>"

definition traced_start_send :: "('c, 'a) unbounded \<Rightarrow> 'a \<Rightarrow> 'c traced \<Rightarrow> 'c traced \<times> (unit + unit)" where
  "traced_start_send U msg ch =
     (let (c, r) = ub_start_send U msg (tr_inner ch) in (ch\<lparr>tr_inner := c\<rparr>, r))"

definition traced_unbounded_send :: "('c, 'a) unbounded \<Rightarrow> 'a \<Rightarrow> 'c traced \<Rightarrow> 'c traced \<times> ('a + unit)" where
  "traced_unbounded_send U msg ch =
     (let (c, r) = ub_unbounded_send U msg (tr_inner ch) in (ch\<lparr>tr_inner := c\<rparr>, r))"

text \<open>The sink of a sender, and the one of a reference to a sender.\<close>

definition sink_start_send :: "('c, 'a) unbounded \<Rightarrow> 'a \<Rightarrow> 'c traced \<Rightarrow> 'c traced \<times> (unit + unit)" where
  "sink_start_send U msg ch = traced_start_send U msg ch"

definition sink_poll_flush :: "'c traced \<Rightarrow> (unit + unit) option" where
  "sink_poll_flush ch = Some (Inr ())"

definition sink_poll_close :: "('c, 'a) unbounded \<Rightarrow> 'c traced \<Rightarrow> 'c traced \<times> (unit + unit) option" where
  "sink_poll_close U ch = (traced_disconnect U ch, Some (Inr ()))"

definition ref_sink_start_send :: "('c, 'a) unbounded \<Rightarrow> 'a \<Rightarrow> 'c traced \<Rightarrow> 'c traced \<times> (unit + unit)" where
  "ref_sink_start_send U msg ch =
     (let (ch', r) = traced_unbounded_send U msg ch in (ch', map_errR (\<lambda>_. ()) r))"

definition ref_sink_poll_close :: "('c, 'a) unbounded \<Rightarrow> 'c traced \<Rightarrow> 'c traced \<times> (unit + unit) option" where
  "ref_sink_poll_close U ch = (traced_close_channel U ch, Some (Inr ()))"

section \<open>The receiver\<close>

definition traced_try_next :: "('c, 'a) unbounded \<Rightarrow> 'c traced \<Rightarrow> 'c traced \<times> (unit + 'a option)" where
  "traced_try_next U ch =
     (let (c, r) = ub_try_next U (tr_inner ch) in (ch\<lparr>tr_inner := c\<rparr>, r))"

definition traced_is_terminated :: "('c, 'a) unbounded \<Rightarrow> 'c traced \<Rightarrow> bool" where
  "traced_is_terminated U ch = ub_is_terminated U (tr_inner ch)"

definition traced_poll_next :: "('c, 'a) unbounded \<Rightarrow> 'c traced \<Rightarrow> 'c traced \<times> 'a option option" where
  "traced_poll_next U ch =
     (let (c, r) = ub_poll_next U (tr_inner ch) in (ch\<lparr>tr_inner := c\<rparr>, r))"

text \<open>The loop runs until there is nothing to take. Its counter, an \<open>i32\<close> that nothing reads, must
  not overflow. A loop that does not end is \<open>None\<close>.\<close>

partial_function (option) traced_consume ::
    "('c, 'a) unbounded \<Rightarrow> nat \<Rightarrow> 'c traced \<Rightarrow> (unit, 'c traced) res option" where
  "traced_consume U k ch =
     (if ub_is_terminated U (tr_inner ch) then Some (Inr ch)
      else case traced_try_next U ch of
             (ch', Inr (Some _)) \<Rightarrow>
               if k + 1 < 2 ^ 31 then traced_consume U (k + 1) ch'
               else Some (Inl (Panic ''attempt to add with overflow''))
           | (ch', _) \<Rightarrow> Some (Inr ch'))"

definition traced_close :: "('c, 'a) unbounded \<Rightarrow> 'c traced \<Rightarrow> (unit, 'c traced) res option" where
  "traced_close U ch =
     map_option (\<lambda>r. bindR r (\<lambda>ch'. Inr (ch'\<lparr>tr_inner := ub_close U (tr_inner ch')\<rparr>))) (traced_consume U 0 ch)"

definition traced_drop :: "('c, 'a) unbounded \<Rightarrow> 'c traced \<Rightarrow> (unit, 'c traced) res option" where
  "traced_drop U ch = traced_consume U 0 ch"

section \<open>What a channel of \<open>futures\<close> promises\<close>

locale unbounded_channel =
  fixes U :: "('c, 'a) unbounded" and queue :: "'c \<Rightarrow> 'a list"
  assumes try_next_some: "queue c = x # xs \<Longrightarrow> \<exists>c'. ub_try_next U c = (c', Inr (Some x)) \<and> queue c' = xs"
    and try_next_none: "queue c = [] \<Longrightarrow> \<exists>c' r. ub_try_next U c = (c', r) \<and> queue c' = [] \<and> (\<forall>x. r \<noteq> Inr (Some x))"
    and terminated: "ub_is_terminated U c \<Longrightarrow> queue c = []"
    and close_keeps: "queue (ub_close U c) = queue c"
    and send_appends: "\<exists>c' r. ub_unbounded_send U x c = (c', r) \<and>
      queue c' = (case r of Inr _ \<Rightarrow> queue c @ [x] | Inl _ \<Rightarrow> queue c)"
begin

text \<open>The loop ends: with an empty channel, or, from \<open>2 ^ 31\<close> messages on, with a panic.\<close>

lemma consume_all:
  assumes "k < 2 ^ 31"
  shows "if k + length (queue (tr_inner ch)) < 2 ^ 31
    then \<exists>ch'. traced_consume U k ch = Some (Inr ch') \<and> queue (tr_inner ch') = [] \<and> tr_key ch' = tr_key ch
    else traced_consume U k ch = Some (Inl (Panic ''attempt to add with overflow''))"
  using assms
proof (induction "queue (tr_inner ch)" arbitrary: k ch)
  case Nil
  obtain c' r where r: "ub_try_next U (tr_inner ch) = (c', r)" "queue c' = []" "\<forall>x. r \<noteq> Inr (Some x)"
    using try_next_none [OF Nil(1) [symmetric]] by blast
  then have "\<exists>ch'. traced_consume U k ch = Some (Inr ch') \<and> queue (tr_inner ch') = [] \<and> tr_key ch' = tr_key ch"
    using Nil(1)
    by (subst traced_consume.simps) (auto simp: traced_try_next_def split: sum.splits option.splits)
  with Nil show ?case by simp
next
  case (Cons x xs)
  obtain c' where c: "ub_try_next U (tr_inner ch) = (c', Inr (Some x))" "queue c' = xs"
    using try_next_some [OF Cons(2) [symmetric]] by blast
  have "\<not> ub_is_terminated U (tr_inner ch)" using terminated Cons(2) by force
  then have step: "traced_consume U k ch = (if k + 1 < 2 ^ 31 then traced_consume U (k + 1) (ch\<lparr>tr_inner := c'\<rparr>)
      else Some (Inl (Panic ''attempt to add with overflow'')))"
    using c(1) by (subst traced_consume.simps) (simp add: traced_try_next_def)
  show ?case
  proof (cases "k + 1 < (2 :: nat) ^ 31")
    case True
    with Cons(1) [of "ch\<lparr>tr_inner := c'\<rparr>" "Suc k"] c(2) Cons(2) [symmetric] step show ?thesis by (auto split: if_splits)
  next
    case False
    with Cons(2) [symmetric] step show ?thesis by simp
  qed
qed

lemma close_drains:
  assumes "length (queue (tr_inner ch)) < 2 ^ 31"
  shows "\<exists>ch'. traced_close U ch = Some (Inr ch') \<and> queue (tr_inner ch') = []"
  using consume_all [of 0 ch] assms by (auto simp: traced_close_def close_keeps)

text \<open>A message that was accepted is taken out after all that were sent before it.\<close>

lemma sent_is_received:
  assumes "traced_unbounded_send U x ch = (ch', Inr ())"
  shows "queue (tr_inner ch') = queue (tr_inner ch) @ [x]"
    and "queue (tr_inner ch) = [] \<Longrightarrow> \<exists>ch''. traced_try_next U ch' = (ch'', Inr (Some x))"
proof -
  show q: "queue (tr_inner ch') = queue (tr_inner ch) @ [x]"
    using assms send_appends [of x "tr_inner ch"] by (auto simp: traced_unbounded_send_def)
  show "\<exists>ch''. traced_try_next U ch' = (ch'', Inr (Some x))" if "queue (tr_inner ch) = []"
    using that q try_next_some [of "tr_inner ch'" x "[]"] by (auto simp: traced_try_next_def)
qed

end

section \<open>A channel as a list\<close>

record 'a list_channel =
  lc_queue :: "'a list"
  lc_open :: bool

definition list_unbounded :: "('a list_channel, 'a) unbounded" where
  "list_unbounded =
     \<lparr>ub_new = \<lparr>lc_queue = [], lc_open = True\<rparr>,
      ub_poll_ready = (\<lambda>c. Some (if lc_open c then Inr () else Inl ())),
      ub_is_closed = (\<lambda>c. \<not> lc_open c),
      ub_close_channel = (\<lambda>c. c\<lparr>lc_open := False\<rparr>),
      ub_disconnect = (\<lambda>c. c\<lparr>lc_open := False\<rparr>),
      ub_start_send = (\<lambda>x c. if lc_open c then (c\<lparr>lc_queue := lc_queue c @ [x]\<rparr>, Inr ()) else (c, Inl ())),
      ub_unbounded_send = (\<lambda>x c. if lc_open c then (c\<lparr>lc_queue := lc_queue c @ [x]\<rparr>, Inr ()) else (c, Inl x)),
      ub_try_next = (\<lambda>c. case lc_queue c of
          x # xs \<Rightarrow> (c\<lparr>lc_queue := xs\<rparr>, Inr (Some x))
        | [] \<Rightarrow> (c, if lc_open c then Inl () else Inr None)),
      ub_is_terminated = (\<lambda>c. lc_queue c = [] \<and> \<not> lc_open c),
      ub_close = (\<lambda>c. c\<lparr>lc_open := False\<rparr>),
      ub_poll_next = (\<lambda>c. case lc_queue c of
          x # xs \<Rightarrow> (c\<lparr>lc_queue := xs\<rparr>, Some (Some x))
        | [] \<Rightarrow> (c, if lc_open c then None else Some None))\<rparr>"

interpretation list_chan: unbounded_channel list_unbounded lc_queue
  by unfold_locales (auto simp: list_unbounded_def)

end
