(* ===== verification/Rounds.thy ===== *)
theory Rounds
  imports Parties
begin

text \<open>
  The agents of one session together: every party runs an agent, and the network delivers what
  the agents send, one message at a time and in any order. What an agent has sent is a function
  of what was delivered to it, so the deliveries are the state of the system. The locale treats
  protocols of two rounds, as key generation and signing are: an agent sends its first
  messages at once and its second ones when it has the first ones of all other parties.
\<close>

section \<open>Messages between agents\<close>

type_synonym sent = "(u16 option \<times> bytes) list"

definition wire_out :: "protocol_response list \<Rightarrow> sent" where
  "wire_out out = map (\<lambda>m. (om_to m, om_body m)) out"

text \<open>What party \<open>u\<close> receives of the messages that party \<open>v\<close> sends: the broadcasts and the direct
  messages for it, stamped with the sender (\<open>forward_group\<close> and \<open>forward_direct_message\<close> of
  \<open>Execution\<close>).\<close>

definition deliver_to :: "u16 \<Rightarrow> u16 \<Rightarrow> sent \<Rightarrow> protocol_request list" where
  "deliver_to v u ws =
     map (\<lambda>(to, body). \<lparr>pr_from = v, pr_to = to, pr_payload = body\<rparr>)
       (filter (\<lambda>(to, _). to = None \<or> to = Some u) ws)"

text \<open>What an agent has sent when it has returned or waits for more.\<close>

fun agent_sent :: "('e, 'a) agent_res \<Rightarrow> sent" where
  "agent_sent (Inl (Waiting io)) = wire_out (io_outgoing io)"
| "agent_sent (Inl (Failed e)) = []"
| "agent_sent (Inl (Panicked s)) = []"
| "agent_sent (Inr (_, io)) = wire_out (io_outgoing io)"

text \<open>Agents \<open>exec\<close>, each a function of the messages delivered to it.\<close>

definition sends :: "(u16 \<Rightarrow> protocol_request list \<Rightarrow> ('e, 'a) agent_res) \<Rightarrow> u16 \<Rightarrow> protocol_request list \<Rightarrow> sent" where
  "sends exec u ms = agent_sent (exec u ms)"

text \<open>An agent that is not in error: it waits, or it has returned \<open>x\<close>.\<close>

definition on_track :: "'a \<Rightarrow> ('e, 'a) agent_res \<Rightarrow> bool" where
  "on_track x r \<longleftrightarrow> (case r of Inl (Waiting _) \<Rightarrow> True | Inl _ \<Rightarrow> False | Inr (y, _) \<Rightarrow> y = x)"

text \<open>A new agent on an open channel.\<close>

definition open_io :: "agent_io \<Rightarrow> bool" where
  "open_io io \<longleftrightarrow> \<not> io_closed io \<and> io_outgoing io = [] \<and> (\<forall>k. io_send_ok io k)"

lemma io_commute: "io\<lparr>io_incoming := x, io_outgoing := y\<rparr> = io\<lparr>io_outgoing := y, io_incoming := x\<rparr>"
  by (cases io) simp

lemma deliver_to_append [simp]: "deliver_to v u (xs @ ys) = deliver_to v u xs @ deliver_to v u ys"
  by (simp add: deliver_to_def)

lemma deliver_to_Nil [simp]: "deliver_to v u [] = []"
  by (simp add: deliver_to_def)

lemma deliver_to_Cons [simp]:
  "deliver_to v u ((to, body) # ws) =
   (if to = None \<or> to = Some u then \<lparr>pr_from = v, pr_to = to, pr_payload = body\<rparr> # deliver_to v u ws
    else deliver_to v u ws)"
  by (simp add: deliver_to_def)

lemma deliver_to_from: "m \<in> set (deliver_to v u ws) \<Longrightarrow> pr_from m = v"
  by (auto simp: deliver_to_def)

lemma deliver_to_mset: "mset xs = mset ys \<Longrightarrow> mset (deliver_to v u xs) = mset (deliver_to v u ys)"
  by (simp add: deliver_to_def)

section \<open>Deliveries\<close>

type_synonym deliveries = "u16 \<Rightarrow> protocol_request list"

inductive net_step ::
    "(u16 \<Rightarrow> protocol_request list \<Rightarrow> sent) \<Rightarrow> u16 list \<Rightarrow> deliveries \<Rightarrow> deliveries \<Rightarrow> bool"
  for node ps where
  deliver: "u \<in> set ps \<Longrightarrow> v \<in> set ps \<Longrightarrow> v \<noteq> u \<Longrightarrow>
     count (mset (D u)) m < count (mset (deliver_to v u (node v (D v)))) m \<Longrightarrow>
     net_step node ps D (D(u := D u @ [m]))"

inductive_cases net_stepE: "net_step node ps D D'"

text \<open>Everything that was sent has been delivered.\<close>

definition quiescent :: "(u16 \<Rightarrow> protocol_request list \<Rightarrow> sent) \<Rightarrow> u16 list \<Rightarrow> deliveries \<Rightarrow> bool" where
  "quiescent node ps D \<longleftrightarrow> (\<forall>u \<in> set ps. \<forall>v \<in> set ps. v \<noteq> u \<longrightarrow>
     mset (deliver_to v u (node v (D v))) \<subseteq># mset (D u))"

lemma step_or_quiescent: "quiescent node ps D \<longleftrightarrow> (\<nexists>D'. net_step node ps D D')"
proof
  assume "quiescent node ps D"
  then show "\<nexists>D'. net_step node ps D D'"
    by (auto simp: quiescent_def subseteq_mset_def elim!: net_stepE dest: leD)
next
  assume no: "\<nexists>D'. net_step node ps D D'"
  show "quiescent node ps D"
    unfolding quiescent_def subseteq_mset_def
  proof (intro ballI impI allI leI notI)
    fix u v m assume "u \<in> set ps" "v \<in> set ps" "v \<noteq> u"
      and "count (mset (D u)) m < count (mset (deliver_to v u (node v (D v)))) m"
    then have "net_step node ps D (D(u := D u @ [m]))" by (rule net_step.deliver)
    with no show False by blast
  qed
qed

text \<open>The deliveries to a party that consist of messages \<open>msgs\<close>, and those that have all of them.\<close>

definition honest_for :: "(u16 \<Rightarrow> sent) \<Rightarrow> u16 list \<Rightarrow> u16 \<Rightarrow> protocol_request list \<Rightarrow> bool" where
  "honest_for msgs ps u ms \<longleftrightarrow> (\<forall>m. count (mset ms) m \<le>
     (if pr_from m \<in> set ps \<and> pr_from m \<noteq> u
      then count (mset (deliver_to (pr_from m) u (msgs (pr_from m)))) m else 0))"

definition heard_all :: "(u16 \<Rightarrow> sent) \<Rightarrow> u16 list \<Rightarrow> u16 \<Rightarrow> protocol_request list \<Rightarrow> bool" where
  "heard_all msgs ps u ms \<longleftrightarrow>
     (\<forall>v \<in> set ps. v \<noteq> u \<longrightarrow> mset (deliver_to v u (msgs v)) \<subseteq># mset ms)"

lemma honest_from:
  assumes "honest_for msgs ps u ms" and "m \<in> set ms"
  shows "pr_from m \<in> set ps" and "pr_from m \<noteq> u" and "m \<in> set (deliver_to (pr_from m) u (msgs (pr_from m)))"
proof -
  let ?c = "pr_from m \<in> set ps \<and> pr_from m \<noteq> u"
  have h: "count (mset ms) m \<le>
      (if ?c then count (mset (deliver_to (pr_from m) u (msgs (pr_from m)))) m else 0)"
    using assms(1) unfolding honest_for_def by (rule spec)
  have c: ?c
  proof (rule ccontr)
    assume "\<not> ?c"
    with h have "count (mset ms) m = 0" by simp
    with assms(2) show False by simp
  qed
  then show "pr_from m \<in> set ps" "pr_from m \<noteq> u" by simp_all
  show "m \<in> set (deliver_to (pr_from m) u (msgs (pr_from m)))"
  proof (rule ccontr)
    assume "m \<notin> set (deliver_to (pr_from m) u (msgs (pr_from m)))"
    then have "count (mset (deliver_to (pr_from m) u (msgs (pr_from m)))) m = 0" by simp
    with h c have "count (mset ms) m = 0" by simp
    with assms(2) show False by simp
  qed
qed

lemma honest_snoc:
  assumes "honest_for msgs ps u ms" and "pr_from m \<in> set ps" and "pr_from m \<noteq> u"
    and "count (mset ms) m < count (mset (deliver_to (pr_from m) u (msgs (pr_from m)))) m"
  shows "honest_for msgs ps u (ms @ [m])"
  unfolding honest_for_def
proof
  fix m'
  from assms(1) [unfolded honest_for_def, THEN spec, of m'] assms(2-4)
  show "count (mset (ms @ [m])) m' \<le> (if pr_from m' \<in> set ps \<and> pr_from m' \<noteq> u
      then count (mset (deliver_to (pr_from m') u (msgs (pr_from m')))) m' else 0)"
    by (cases "m' = m") simp_all
qed

lemma honest_subset:
  assumes "honest_for msgs ps u ms"
  shows "mset ms \<subseteq># (\<Sum>v \<in> set ps - {u}. mset (deliver_to v u (msgs v)))"
proof (rule mset_subset_eqI)
  fix m
  let ?c = "\<lambda>v. count (mset (deliver_to v u (msgs v))) m"
  have "count (mset ms) m \<le> (if pr_from m \<in> set ps - {u} then ?c (pr_from m) else 0)"
    using assms by (simp add: honest_for_def)
  also have "\<dots> \<le> (\<Sum>v \<in> set ps - {u}. ?c v)"
    by (auto intro: member_le_sum)
  finally show "count (mset ms) m \<le> count (\<Sum>v \<in> set ps - {u}. mset (deliver_to v u (msgs v))) m"
    by (simp add: count_sum)
qed

lemma honest_length:
  assumes "honest_for msgs ps u ms"
  shows "length ms \<le> (\<Sum>v \<in> set ps - {u}. length (deliver_to v u (msgs v)))"
  using size_mset_mono [OF honest_subset [OF assms]] by simp

text \<open>A delivery that is honest and complete is the messages of the others in some order.\<close>

lemma complete_delivery:
  assumes "honest_for msgs ps u ms" and "heard_all msgs ps u ms" and "v \<in> set ps" and "v \<noteq> u"
  shows "filter_mset (\<lambda>m. pr_from m = v) (mset ms) = mset (deliver_to v u (msgs v))"
proof (rule multiset_eqI)
  fix m
  have "count (mset (deliver_to v u (msgs v))) m \<le> count (mset ms) m"
    using assms(2-4) by (simp add: heard_all_def mset_subset_eq_count)
  moreover have "pr_from m = v \<Longrightarrow> count (mset ms) m \<le> count (mset (deliver_to v u (msgs v))) m"
    using assms(1) [unfolded honest_for_def, rule_format, of m] assms(3,4) by simp
  moreover have "count (mset (deliver_to v u (msgs v))) m = 0" if "pr_from m \<noteq> v"
    using that deliver_to_from by (auto simp: count_mset_0_iff)
  ultimately show "count (filter_mset (\<lambda>m. pr_from m = v) (mset ms)) m =
      count (mset (deliver_to v u (msgs v))) m"
    by (cases "pr_from m = v") simp_all
qed

text \<open>When no party sends a message twice, none is delivered twice.\<close>

lemma honest_distinct:
  assumes "honest_for msgs ps u ms"
    and "\<And>v. v \<in> set ps \<Longrightarrow> v \<noteq> u \<Longrightarrow> distinct (deliver_to v u (msgs v))"
  shows "distinct ms"
proof -
  have "count (mset ms) m \<le> 1" for m
  proof -
    let ?c = "pr_from m \<in> set ps \<and> pr_from m \<noteq> u"
    have "count (mset ms) m \<le> (if ?c then count (mset (deliver_to (pr_from m) u (msgs (pr_from m)))) m else 0)"
      using assms(1) unfolding honest_for_def by (rule spec)
    also have "\<dots> \<le> 1" using assms(2) [of "pr_from m"] distinct_count_atmost_1 [of "deliver_to (pr_from m) u (msgs (pr_from m))"]
      by (cases ?c) (auto simp: count_mset)
    finally show ?thesis .
  qed
  then show ?thesis by (simp add: distinct_count_atmost_1 count_mset_0_iff le_Suc_eq)
qed

lemma heard_all_append:
  assumes "heard_all (\<lambda>v. f v @ g v) ps u ms"
  shows "heard_all f ps u ms" and "heard_all g ps u ms"
  using assms unfolding heard_all_def deliver_to_append mset_append
  by (meson mset_subset_eq_add_left mset_subset_eq_add_right subset_mset.order_trans)+

text \<open>The messages of one kind, of which every party sends one.\<close>

lemma one_each:
  assumes "distinct ms"
    and "\<And>m. m \<in> set ms \<Longrightarrow> P m \<Longrightarrow> pr_from m \<in> set os \<and> m = b (pr_from m)"
  shows "distinct (map pr_from (filter P ms))" and "set (map pr_from (filter P ms)) \<subseteq> set os"
proof -
  have "x = y" if "x \<in> set (filter P ms)" "y \<in> set (filter P ms)" "pr_from x = pr_from y" for x y
    using that assms(2) [of x] assms(2) [of y] by simp
  then have "inj_on pr_from (set (filter P ms))" by (intro inj_onI)
  then show "distinct (map pr_from (filter P ms))" using assms(1) by (simp add: distinct_map)
  show "set (map pr_from (filter P ms)) \<subseteq> set os" using assms(2) by auto
qed

lemma heard_one_each:
  assumes "distinct ms" and "\<And>m. m \<in> set ms \<Longrightarrow> P m \<Longrightarrow> pr_from m \<in> set os \<and> m = b (pr_from m)"
    and "distinct os" and "set os = set ps - {u}"
    and "\<And>v. v \<in> set os \<Longrightarrow> deliver_to v u (msgs v) = [b v] \<and> P (b v)"
  shows "heard_all msgs ps u ms \<longleftrightarrow> mset (map pr_from (filter P ms)) = mset os"
proof -
  note o = one_each [where P = P and b = b and os = os, OF assms(1,2)]
  have fr: "pr_from (b v) = v" if "v \<in> set os" for v
    using assms(5) [OF that] deliver_to_from [of "b v" v u "msgs v"] by simp
  have "heard_all msgs ps u ms \<longleftrightarrow> (\<forall>v \<in> set os. b v \<in> set ms)"
    using assms(5) unfolding heard_all_def by (auto simp: assms(4))
  also have "\<dots> \<longleftrightarrow> set os \<subseteq> set (map pr_from (filter P ms))"
  proof -
    have "b v \<in> set ms \<longleftrightarrow> v \<in> set (map pr_from (filter P ms))" if "v \<in> set os" for v
      using that fr [OF that] assms(5) [OF that] assms(2) by (auto simp: image_iff)
    then show ?thesis by (auto simp: subset_iff)
  qed
  also have "\<dots> \<longleftrightarrow> set (map pr_from (filter P ms)) = set os" using o(2) by blast
  also have "\<dots> \<longleftrightarrow> mset (map pr_from (filter P ms)) = mset os"
    by (rule set_eq_iff_mset_eq_distinct [OF o(1) assms(3)])
  finally show ?thesis .
qed

lemma identifies_others: "identifier_laws f \<Longrightarrow> set xs \<subseteq> set (other_parties n u) \<Longrightarrow> identifies f xs"
  by (rule laws_identify) (auto simp: set_other_parties)

section \<open>Protocols of two rounds\<close>

locale two_rounds =
  fixes node :: "u16 \<Rightarrow> protocol_request list \<Rightarrow> sent"
    and ps :: "u16 list"
    and fst_msgs :: "u16 \<Rightarrow> sent"
    and snd_msgs :: "u16 \<Rightarrow> sent"
  assumes waits: "u \<in> set ps \<Longrightarrow> honest_for (\<lambda>v. fst_msgs v @ snd_msgs v) ps u ms \<Longrightarrow>
      \<not> heard_all fst_msgs ps u ms \<Longrightarrow> w \<in> set ps \<Longrightarrow>
      mset (deliver_to u w (node u ms)) = mset (deliver_to u w (fst_msgs u))"
    and goes_on: "u \<in> set ps \<Longrightarrow> honest_for (\<lambda>v. fst_msgs v @ snd_msgs v) ps u ms \<Longrightarrow>
      heard_all fst_msgs ps u ms \<Longrightarrow> w \<in> set ps \<Longrightarrow>
      mset (deliver_to u w (node u ms)) = mset (deliver_to u w (fst_msgs u @ snd_msgs u))"
begin

abbreviation msgs :: "u16 \<Rightarrow> sent" where
  "msgs v \<equiv> fst_msgs v @ snd_msgs v"

lemma sent_bounds:
  assumes "u \<in> set ps" and "honest_for msgs ps u ms" and "w \<in> set ps"
  shows "mset (deliver_to u w (node u ms)) \<subseteq># mset (deliver_to u w (msgs u))"
    and "mset (deliver_to u w (fst_msgs u)) \<subseteq># mset (deliver_to u w (node u ms))"
  using waits [OF assms(1,2) _ assms(3)] goes_on [OF assms(1,2) _ assms(3)]
  by (cases "heard_all fst_msgs ps u ms"; simp)+

lemma step_honest:
  assumes "net_step node ps D D'" and "\<forall>u \<in> set ps. honest_for msgs ps u (D u)"
  shows "\<forall>u \<in> set ps. honest_for msgs ps u (D' u)"
  using assms(1)
proof (cases rule: net_step.cases)
  case (deliver u v m)
  note 1 = deliver
  let ?c = "count (mset (deliver_to v u (msgs v)))"
  have "count (mset (deliver_to v u (node v (D v)))) m \<le> ?c m"
    using sent_bounds(1) [of v "D v" u] 1 assms(2) by (intro mset_subset_eq_count) simp
  with 1 have m: "count (mset (D u)) m < ?c m" by simp
  then have "m \<in> set (deliver_to v u (msgs v))" by (metis count_mset_0_iff not_less_zero)
  then have "pr_from m = v" by (rule deliver_to_from)
  with m 1 assms(2) have "honest_for msgs ps u (D u @ [m])" by (intro honest_snoc) simp_all
  with 1 assms(2) show ?thesis by simp
qed

lemma steps_honest:
  assumes "(net_step node ps ^^ k) (\<lambda>_. []) D"
  shows "\<forall>u \<in> set ps. honest_for msgs ps u (D u)"
  using assms
proof (induction k arbitrary: D)
  case 0
  then show ?case by (auto simp: honest_for_def)
next
  case (Suc k)
  then obtain D0 where "(net_step node ps ^^ k) (\<lambda>_. []) D0" "net_step node ps D0 D" by auto
  with Suc.IH step_honest show ?case by blast
qed

text \<open>When nothing is left to deliver, every party has all messages of the others.\<close>

lemma quiescent_complete:
  assumes "(net_step node ps ^^ k) (\<lambda>_. []) D" and "quiescent node ps D" and "u \<in> set ps"
  shows "honest_for msgs ps u (D u) \<and> heard_all msgs ps u (D u)"
proof -
  note h = steps_honest [OF assms(1)]
  have first: "heard_all fst_msgs ps w (D w)" if w: "w \<in> set ps" for w
    unfolding heard_all_def
  proof (intro ballI impI)
    fix v assume v: "v \<in> set ps" "v \<noteq> w"
    have "mset (deliver_to v w (fst_msgs v)) \<subseteq># mset (deliver_to v w (node v (D v)))"
      using sent_bounds(2) v(1) h w by blast
    also have "\<dots> \<subseteq># mset (D w)" using assms(2) v w by (simp add: quiescent_def)
    finally show "mset (deliver_to v w (fst_msgs v)) \<subseteq># mset (D w)" .
  qed
  have "mset (deliver_to v u (msgs v)) \<subseteq># mset (D u)" if v: "v \<in> set ps" "v \<noteq> u" for v
  proof -
    have "mset (deliver_to v u (msgs v)) = mset (deliver_to v u (node v (D v)))"
      using goes_on [OF v(1) _ first [OF v(1)] assms(3)] h v(1) by simp
    with assms(2,3) v show ?thesis by (simp add: quiescent_def)
  qed
  with h assms(3) show ?thesis by (simp add: heard_all_def)
qed

text \<open>Every delivery is a step, so there are no more steps than messages.\<close>

lemma steps_count:
  assumes "(net_step node ps ^^ k) (\<lambda>_. []) D"
  shows "k = (\<Sum>u \<in> set ps. length (D u))"
  using assms
proof (induction k arbitrary: D)
  case 0
  then have "D = (\<lambda>_. [])" by simp
  then show ?case by simp
next
  case (Suc k)
  then obtain D0 where s: "(net_step node ps ^^ k) (\<lambda>_. []) D0" "net_step node ps D0 D" by auto
  from s(2) show ?case
  proof (cases rule: net_step.cases)
    case (deliver u v m)
    note 1 = deliver
    have "(\<Sum>w \<in> set ps. length (D w)) = (\<Sum>w \<in> set ps. length (D0 w) + (if w = u then 1 else 0))"
      using 1 by (intro sum.cong) auto
    also have "\<dots> = k + 1" using 1 Suc.IH [OF s(1)] by (simp add: sum.distrib)
    finally show ?thesis by simp
  qed
qed

lemma steps_bounded:
  assumes "(net_step node ps ^^ k) (\<lambda>_. []) D"
  shows "k \<le> (\<Sum>u \<in> set ps. \<Sum>v \<in> set ps - {u}. length (deliver_to v u (msgs v)))"
  unfolding steps_count [OF assms] using steps_honest [OF assms] by (intro sum_mono honest_length) simp

end

text \<open>Agents of such a protocol: each waits for the first messages of the others, then for the
  second ones, and returns.\<close>

locale two_round_agents =
  fixes exec :: "u16 \<Rightarrow> protocol_request list \<Rightarrow> ('e, 'a) agent_res"
    and ps :: "u16 list"
    and fst_msgs :: "u16 \<Rightarrow> sent"
    and snd_msgs :: "u16 \<Rightarrow> sent"
    and result :: "u16 \<Rightarrow> 'a"
  assumes agent: "u \<in> set ps \<Longrightarrow> honest_for (\<lambda>v. fst_msgs v @ snd_msgs v) ps u ms \<Longrightarrow>
      \<exists>io'. mset (wire_out (io_outgoing io')) =
          mset (if heard_all fst_msgs ps u ms then fst_msgs u @ snd_msgs u else fst_msgs u) \<and>
        exec u ms = (if heard_all fst_msgs ps u ms \<and> heard_all snd_msgs ps u ms then Inr (result u, io')
          else Inl (Waiting io'))"
begin

lemma sends_messages:
  assumes "u \<in> set ps" and "honest_for (\<lambda>v. fst_msgs v @ snd_msgs v) ps u ms"
  shows "mset (deliver_to u w (sends exec u ms)) =
    mset (deliver_to u w (if heard_all fst_msgs ps u ms then fst_msgs u @ snd_msgs u else fst_msgs u))"
  using agent [OF assms] by (intro deliver_to_mset) (auto simp: sends_def split: if_splits)

end

sublocale two_round_agents \<subseteq> two_rounds "sends exec"
  by unfold_locales (simp_all add: sends_messages)

context two_round_agents
begin

lemma agents_on_track:
  assumes "(net_step (sends exec) ps ^^ k) (\<lambda>_. []) D" and "u \<in> set ps"
  shows "on_track (result u) (exec u (D u))"
  using agent [OF assms(2), of "D u"] steps_honest [OF assms(1)] assms(2) by (auto simp: on_track_def)

lemma agents_return:
  assumes "(net_step (sends exec) ps ^^ k) (\<lambda>_. []) D" and "\<nexists>D'. net_step (sends exec) ps D D'" and "u \<in> set ps"
  shows "\<exists>io'. exec u (D u) = Inr (result u, io')"
proof -
  have q: "honest_for msgs ps u (D u)" "heard_all msgs ps u (D u)"
    using quiescent_complete [OF assms(1) _ assms(3)] assms(2) step_or_quiescent by blast+
  from agent [OF assms(3) q(1)] heard_all_append [OF q(2)] show ?thesis by auto
qed

text \<open>With one message of each kind from every party to every other.\<close>

lemma agreement:
  assumes "(net_step (sends exec) ps ^^ k) (\<lambda>_. []) D" and "distinct ps"
    and "\<And>u v. u \<in> set ps \<Longrightarrow> v \<in> set ps \<Longrightarrow> v \<noteq> u \<Longrightarrow> length (deliver_to v u (msgs v)) = 2"
  shows "k \<le> length ps * (2 * (length ps - 1)) \<and> (\<forall>u \<in> set ps. on_track (result u) (exec u (D u))) \<and>
    ((\<exists>D'. net_step (sends exec) ps D D') \<or> (\<forall>u \<in> set ps. \<exists>io'. exec u (D u) = Inr (result u, io')))"
proof -
  have "(\<Sum>u \<in> set ps. \<Sum>v \<in> set ps - {u}. length (deliver_to v u (msgs v))) = (\<Sum>u \<in> set ps. \<Sum>v \<in> set ps - {u}. 2)"
    using assms(3) by (intro sum.cong refl) simp
  also have "\<dots> = length ps * (2 * (length ps - 1))" by (simp add: distinct_card [OF assms(2)])
  finally have "k \<le> length ps * (2 * (length ps - 1))" using steps_bounded [OF assms(1)] by simp
  with agents_on_track [OF assms(1)] agents_return [OF assms(1)] show ?thesis by blast
qed

end

end
