(* ===== verification/Keygen_System.thy ===== *)
theory Keygen_System
  imports Keygen Rounds
begin

text \<open>
  Key generation by all its parties at once: \<open>n\<close> agents of \<open>tss/src/keygen.rs\<close> with a network
  that delivers their messages in any order. FROST's own correctness is a hypothesis: when its
  three steps are run by all parties on each other's packages, they succeed and give all of
  them the same public key package.
\<close>

section \<open>An honest run of FROST\<close>

text \<open>The values of one run: what party \<open>u\<close> computes in each step, and the bytes it sends; the
  second package is the one of party \<open>u\<close> for party \<open>w\<close>.\<close>

record ('s1, 'p1, 's2, 'p2, 'kp, 'pkp) dkg_values =
  hv_secret1 :: "u16 \<Rightarrow> 's1"
  hv_package1 :: "u16 \<Rightarrow> 'p1"
  hv_body1 :: "u16 \<Rightarrow> bytes"
  hv_secret2 :: "u16 \<Rightarrow> 's2"
  hv_package2 :: "u16 \<Rightarrow> u16 \<Rightarrow> 'p2"
  hv_body2 :: "u16 \<Rightarrow> u16 \<Rightarrow> bytes"
  hv_key :: "u16 \<Rightarrow> 'kp"
  hv_public :: 'pkp

text \<open>\<open>sent_as\<close>: a package serialises, and its bytes are read back to it.\<close>

definition sent_as ::
    "bytes serde \<Rightarrow> ('a \<Rightarrow> bytes option) \<Rightarrow> (bytes \<Rightarrow> 'a option) \<Rightarrow> 'a \<Rightarrow> bytes \<Rightarrow> bool" where
  "sent_as cbor ser de x body \<longleftrightarrow> (\<exists>b. ser x = Some b \<and> to_vec cbor b = Some body \<and>
     from_slice cbor body = Some b \<and> de b = Some x)"

definition frost_run ::
    "('id :: linorder, 's1, 'p1, 's2, 'p2, 'kp, 'pkp) dkg_suite \<Rightarrow> u16 \<Rightarrow> u16 \<Rightarrow>
     ('s1, 'p1, 's2, 'p2, 'kp, 'pkp) dkg_values \<Rightarrow> u16 \<Rightarrow> bool" where
  "frost_run S t n H u \<longleftrightarrow>
     (let i = the (dk_identifier S u);
          round1 = id_map (dk_identifier S) (hv_package1 H) (other_parties n u);
          round2 = id_map (dk_identifier S) (\<lambda>v. hv_package2 H v u) (other_parties n u)
      in dk_part1 S i n t = Some (hv_secret1 H u, hv_package1 H u) \<and>
         dk_part2 S (hv_secret1 H u) round1 =
           Some (hv_secret2 H u, id_map (dk_identifier S) (hv_package2 H u) (other_parties n u)) \<and>
         dk_part3 S (hv_secret2 H u) round1 round2 = Some (hv_key H u, hv_public H))"

definition honest_dkg ::
    "('id :: linorder, 's1, 'p1, 's2, 'p2, 'kp, 'pkp) dkg_suite \<Rightarrow> bytes serde \<Rightarrow> u16 \<Rightarrow> u16 \<Rightarrow>
     ('s1, 'p1, 's2, 'p2, 'kp, 'pkp) dkg_values \<Rightarrow> bool" where
  "honest_dkg S cbor t n H \<longleftrightarrow> identifier_laws (dk_identifier S) \<and> 2 \<le> t \<and> t \<le> n \<and>
     (\<forall>u \<in> set (u16_range n). frost_run S t n H u \<and>
        sent_as cbor (dk_ser1 S) (dk_de1 S) (hv_package1 H u) (hv_body1 H u) \<and>
        (\<forall>w \<in> set (other_parties n u).
           sent_as cbor (dk_ser2 S) (dk_de2 S) (hv_package2 H u w) (hv_body2 H u w)))"

section \<open>The messages of the run\<close>

definition dkg_first :: "('s1, 'p1, 's2, 'p2, 'kp, 'pkp) dkg_values \<Rightarrow> u16 \<Rightarrow> sent" where
  "dkg_first H v = [(None, hv_body1 H v)]"

definition dkg_second :: "('s1, 'p1, 's2, 'p2, 'kp, 'pkp) dkg_values \<Rightarrow> u16 \<Rightarrow> u16 \<Rightarrow> sent" where
  "dkg_second H n v = map (\<lambda>w. (Some w, hv_body2 H v w)) (other_parties n v)"

text \<open>The agent of party \<open>u\<close> after the messages \<open>ms\<close>.\<close>

definition dkg_agent ::
    "('id :: linorder, 's1, 'p1, 's2, 'p2, 'kp, 'pkp) dkg_suite \<Rightarrow> bytes serde \<Rightarrow> u16 \<Rightarrow> u16 \<Rightarrow>
     (u16 \<Rightarrow> agent_io) \<Rightarrow> u16 \<Rightarrow> protocol_request list \<Rightarrow> (keygen_error, 'kp \<times> 'pkp) agent_res" where
  "dkg_agent S cbor t n io u ms = run_dkg S cbor u t n ((io u)\<lparr>io_incoming := ms\<rparr>)"

lemma filter_one: "distinct xs \<Longrightarrow> x \<in> set xs \<Longrightarrow> filter (\<lambda>y. y = x) xs = [x]"
  by (induction xs) (auto simp: filter_empty_conv)


lemma deliver_direct:
  assumes "distinct vs" and "u \<in> set vs"
  shows "deliver_to v u (map (\<lambda>w. (Some w, f w)) vs) = [\<lparr>pr_from = v, pr_to = Some u, pr_payload = f u\<rparr>]"
proof -
  have "filter (\<lambda>(to, _). to = None \<or> to = Some u) (map (\<lambda>w. (Some w, f w)) vs) =
      map (\<lambda>w. (Some w, f w)) (filter (\<lambda>w. w = u) vs)"
    by (simp add: filter_map comp_def)
  then show ?thesis by (simp add: deliver_to_def filter_one [OF assms])
qed

abbreviation broadcast_of :: "('s1, 'p1, 's2, 'p2, 'kp, 'pkp) dkg_values \<Rightarrow> u16 \<Rightarrow> protocol_request" where
  "broadcast_of H v \<equiv> \<lparr>pr_from = v, pr_to = None, pr_payload = hv_body1 H v\<rparr>"

abbreviation direct_of :: "('s1, 'p1, 's2, 'p2, 'kp, 'pkp) dkg_values \<Rightarrow> u16 \<Rightarrow> u16 \<Rightarrow> protocol_request" where
  "direct_of H v u \<equiv> \<lparr>pr_from = v, pr_to = Some u, pr_payload = hv_body2 H v u\<rparr>"

lemma deliver_dkg:
  assumes "u \<in> set (u16_range n)" and "v \<noteq> u"
  shows "deliver_to v u (dkg_first H v) = [broadcast_of H v]"
    and "deliver_to v u (dkg_second H n v) = [direct_of H v u]"
  using assms deliver_direct [of "other_parties n v" u v "hv_body2 H v"]
  by (simp_all add: dkg_first_def dkg_second_def distinct_other_parties set_other_parties set_u16_range)

section \<open>What is delivered\<close>

lemma honest_messages:
  assumes "honest_for (\<lambda>v. dkg_first H v @ dkg_second H n v) (u16_range n) u ms" and "u \<in> set (u16_range n)"
  shows "m \<in> set ms \<Longrightarrow> \<exists>v \<in> set (other_parties n u). m = broadcast_of H v \<or> m = direct_of H v u"
    and "distinct ms"
proof -
  show "\<exists>v \<in> set (other_parties n u). m = broadcast_of H v \<or> m = direct_of H v u" if m: "m \<in> set ms" for m
  proof
    note f = honest_from [OF assms(1) m]
    from f(3) deliver_dkg [OF assms(2) f(2), where H = H]
    show "m = broadcast_of H (pr_from m) \<or> m = direct_of H (pr_from m) u" by simp
    show "pr_from m \<in> set (other_parties n u)" using f by (simp add: set_other_parties set_u16_range)
  qed
  show "distinct ms"
    using assms(1) by (rule honest_distinct) (simp add: deliver_dkg [OF assms(2), where H = H])
qed

text \<open>The messages are those that the agent of party \<open>u\<close> expects.\<close>

lemma honest_dkg_messages:
  assumes "honest_dkg S cbor t n H" and "u \<in> set (u16_range n)"
    and "honest_for (\<lambda>v. dkg_first H v @ dkg_second H n v) (u16_range n) u ms"
  shows "dkg_messages S cbor u n (hv_package1 H) (\<lambda>v. hv_package2 H v u) ms"
  unfolding dkg_messages_def list_all_iff
proof
  fix m assume "m \<in> set ms"
  then obtain v where m: "v \<in> set (other_parties n u)" "m = broadcast_of H v \<or> m = direct_of H v u"
    using honest_messages(1) [OF assms(3,2)] by blast
  have "v \<in> set (u16_range n)" "u \<in> set (other_parties n v)"
    using m(1) assms(2) by (auto simp: set_other_parties set_u16_range)
  then have "sent_as cbor (dk_ser1 S) (dk_de1 S) (hv_package1 H v) (hv_body1 H v)"
    "sent_as cbor (dk_ser2 S) (dk_de2 S) (hv_package2 H v u) (hv_body2 H v u)"
    using assms(1) by (auto simp: honest_dkg_def)
  with m show "pr_from m \<in> set (other_parties n u) \<and> (case pr_to m of
         None \<Rightarrow> round1_body S cbor m = Some (hv_package1 H (pr_from m))
       | Some r \<Rightarrow> r = u \<and> round2_body S cbor m = Some (hv_package2 H (pr_from m) u))"
    by (auto simp: sent_as_def round1_body_def round2_body_def)
qed

abbreviation broadcasters :: "protocol_request list \<Rightarrow> u16 list" where
  "broadcasters ms \<equiv> map pr_from (filter (\<lambda>m. pr_to m = None) ms)"

abbreviation direct_senders :: "protocol_request list \<Rightarrow> u16 list" where
  "direct_senders ms \<equiv> map pr_from (filter (\<lambda>m. pr_to m \<noteq> None) ms)"

lemma honest_kinds:
  assumes "honest_for (\<lambda>v. dkg_first H v @ dkg_second H n v) (u16_range n) u ms" and "u \<in> set (u16_range n)"
    and "m \<in> set ms"
  shows "pr_to m = None \<Longrightarrow> pr_from m \<in> set (other_parties n u) \<and> m = broadcast_of H (pr_from m)"
    and "pr_to m \<noteq> None \<Longrightarrow> pr_from m \<in> set (other_parties n u) \<and> m = direct_of H (pr_from m) u"
proof -
  obtain v where v: "v \<in> set (other_parties n u)" "m = broadcast_of H v \<or> m = direct_of H v u"
    using honest_messages(1) [OF assms] by blast
  show "pr_from m \<in> set (other_parties n u) \<and> m = broadcast_of H (pr_from m)" if "pr_to m = None"
    using v(2) that by (elim disjE; hypsubst) (use v(1) in simp_all)
  show "pr_from m \<in> set (other_parties n u) \<and> m = direct_of H (pr_from m) u" if "pr_to m \<noteq> None"
    using v(2) that by (elim disjE; hypsubst) (use v(1) in simp_all)
qed

lemma honest_senders:
  assumes "honest_for (\<lambda>v. dkg_first H v @ dkg_second H n v) (u16_range n) u ms" and "u \<in> set (u16_range n)"
  shows "distinct (broadcasters ms)" and "set (broadcasters ms) \<subseteq> set (other_parties n u)"
    and "distinct (direct_senders ms)" and "set (direct_senders ms) \<subseteq> set (other_parties n u)"
  using one_each [where b = "broadcast_of H", OF honest_messages(2) [OF assms] honest_kinds(1) [OF assms]]
    one_each [where b = "\<lambda>v. direct_of H v u", OF honest_messages(2) [OF assms] honest_kinds(2) [OF assms]]
  by simp_all

lemma heard_rounds:
  assumes "honest_for (\<lambda>v. dkg_first H v @ dkg_second H n v) (u16_range n) u ms" and "u \<in> set (u16_range n)"
  shows "heard_all (dkg_first H) (u16_range n) u ms \<longleftrightarrow> mset (broadcasters ms) = mset (other_parties n u)"
    and "heard_all (dkg_second H n) (u16_range n) u ms \<longleftrightarrow> mset (direct_senders ms) = mset (other_parties n u)"
proof -
  note d = deliver_dkg [OF assms(2), where H = H]
  have others: "set (other_parties n u) = set (u16_range n) - {u}" by (auto simp: set_other_parties set_u16_range)
  show "heard_all (dkg_first H) (u16_range n) u ms \<longleftrightarrow> mset (broadcasters ms) = mset (other_parties n u)"
    by (rule heard_one_each [where b = "broadcast_of H", OF honest_messages(2) [OF assms] honest_kinds(1) [OF assms] distinct_other_parties others])
      (simp_all add: d others)
  show "heard_all (dkg_second H n) (u16_range n) u ms \<longleftrightarrow> mset (direct_senders ms) = mset (other_parties n u)"
    by (rule heard_one_each [where b = "\<lambda>v. direct_of H v u", OF honest_messages(2) [OF assms] honest_kinds(2) [OF assms] distinct_other_parties others])
      (simp_all add: d others)
qed

section \<open>One agent\<close>

lemma honest_start:
  assumes "honest_dkg S cbor t n H" and "u \<in> set (u16_range n)" and "open_io io"
  shows "dkg_start S cbor u t n (io\<lparr>io_incoming := ms\<rparr>) =
    Inr ((the (dk_identifier S u), hv_secret1 H u, hv_package1 H u),
      io\<lparr>io_incoming := ms, io_outgoing := [\<lparr>om_body = hv_body1 H u, om_to = None,
        om_sent_feedback = Some (io_feedback io 0)\<rparr>]\<rparr>)"
proof -
  obtain i where "dk_identifier S u = Some i"
    using assms(1,2) by (cases "dk_identifier S u") (auto simp: honest_dkg_def identifier_laws_def set_u16_range)
  moreover obtain b where "dk_ser1 S (hv_package1 H u) = Some b" "to_vec cbor b = Some (hv_body1 H u)"
    using assms(1,2) by (auto simp: honest_dkg_def sent_as_def)
  moreover have "dk_part1 S (the (dk_identifier S u)) n t = Some (hv_secret1 H u, hv_package1 H u)"
    "\<not> t < 2" "\<not> n < t"
    using assms(1,2) by (auto simp: honest_dkg_def frost_run_def Let_def)
  ultimately show ?thesis
    using assms(3) by (simp add: dkg_start_def check_threshold_def send_def open_io_def del: bindR_eq_Inr)
qed

lemma send_round2_all:
  assumes "\<forall>w \<in> set vs. bt_get (the (dk_identifier S w)) ids = Some w"
    and "\<forall>w \<in> set vs. sent_as cbor (dk_ser2 S) (dk_de2 S) (f w) (body w)"
    and "\<forall>k. io_send_ok io k"
  shows "\<exists>out. dkg_send_round2 S cbor ids (map (\<lambda>w. (the (dk_identifier S w), f w)) vs) io =
      Inr (io\<lparr>io_outgoing := io_outgoing io @ out\<rparr>) \<and> wire_out out = map (\<lambda>w. (Some w, body w)) vs"
  using assms
proof (induction vs arbitrary: io)
  case Nil
  then show ?case by (simp add: wire_out_def)
next
  case (Cons w vs)
  let ?m = "\<lparr>om_body = body w, om_to = Some w, om_sent_feedback = Some (io_feedback io (length (io_outgoing io)))\<rparr>"
  obtain b where b: "dk_ser2 S (f w) = Some b" "to_vec cbor b = Some (body w)"
    using Cons.prems(2) by (auto simp: sent_as_def)
  have step: "dkg_send_round2 S cbor ids (map (\<lambda>w. (the (dk_identifier S w), f w)) (w # vs)) io =
      dkg_send_round2 S cbor ids (map (\<lambda>w. (the (dk_identifier S w), f w)) vs) (io\<lparr>io_outgoing := io_outgoing io @ [?m]\<rparr>)"
    using b Cons.prems(1,3) by (simp add: send_def Let_def del: bindR_eq_Inr)
  have p: "\<forall>w \<in> set vs. bt_get (the (dk_identifier S w)) ids = Some w"
    "\<forall>w \<in> set vs. sent_as cbor (dk_ser2 S) (dk_de2 S) (f w) (body w)"
    "\<forall>k. io_send_ok (io\<lparr>io_outgoing := io_outgoing io @ [?m]\<rparr>) k" using Cons.prems by simp_all
  from Cons.IH [OF p] obtain out where "dkg_send_round2 S cbor ids
      (map (\<lambda>w. (the (dk_identifier S w), f w)) vs) (io\<lparr>io_outgoing := io_outgoing io @ [?m]\<rparr>) =
        Inr (io\<lparr>io_outgoing := io_outgoing io @ ?m # out\<rparr>)"
    "wire_out out = map (\<lambda>w. (Some w, body w)) vs" by auto
  then show ?case unfolding step by (intro exI [of _ "?m # out"]) (simp add: wire_out_def)
qed

text \<open>Before it has the round 1 packages of all others, the agent has sent its own and waits.\<close>

lemma dkg_agent_waits:
  assumes "honest_dkg S cbor t n H" and "u \<in> set (u16_range n)" and "open_io io"
    and "honest_for (\<lambda>v. dkg_first H v @ dkg_second H n v) (u16_range n) u ms"
    and "\<not> heard_all (dkg_first H) (u16_range n) u ms"
  shows "\<exists>io'. run_dkg S cbor u t n (io\<lparr>io_incoming := ms\<rparr>) = Inl (Waiting io') \<and>
    wire_out (io_outgoing io') = dkg_first H u"
proof -
  have laws: "identifier_laws (dk_identifier S)" using assms(1) by (simp add: honest_dkg_def)
  obtain i where i: "dk_identifier S u = Some i"
    using laws assms(2) by (cases "dk_identifier S u") (auto simp: identifier_laws_def set_u16_range)
  let ?s = "\<lparr>r1_all = bt_insert i (hv_package1 H u) [], r1_others = [], r1_deferred = []\<rparr>"
  note hs = honest_senders(1,2) [OF assms(4,2)]
  have e: "list_all (\<lambda>m. round1_ok S cbor (expected_ids S n) m \<and> round1_entry S cbor m =
      (if pr_to m = None then Some (the (dk_identifier S (pr_from m)), hv_package1 H (pr_from m)) else None)) ([] @ ms)"
    using delivery_messages(1) [OF laws honest_dkg_messages [OF assms(1,2,4)]] by simp
  have us: "identifies (dk_identifier S) (broadcasters ([] @ ms))" "distinct (broadcasters ([] @ ms))"
    using hs identifies_others [OF laws hs(2)] by simp_all
  have "the (dk_identifier S w) \<noteq> i" if "w \<in> set (broadcasters ms)" for w
    using that hs(2) sender_identifier(3) [OF laws _ i] by blast
  then have s: "round1_inv i ?s" "bt_wf (r1_all ?s)"
    "\<forall>w \<in> set (broadcasters ([] @ ms)). bt_get (the (dk_identifier S w)) (r1_all ?s) = None"
    by (auto simp: round1_inv_def bt_get_def)
  have "length (broadcasters ms) < length (other_parties n u)"
    using hs heard_rounds(1) [OF assms(4,2)] assms(5) by (intro fewer_parties) (simp_all add: distinct_other_parties)
  moreover have "length (other_parties n u) = unat n - 1"
    using assms(2) by (intro length_other_parties) (simp_all add: set_u16_range)
  ultimately have n: "length (r1_all ?s) + length (filter (\<lambda>m. pr_to m = None) ([] @ ms)) < unat n" by simp
  let ?io = "io\<lparr>io_incoming := ms, io_outgoing := [\<lparr>om_body = hv_body1 H u, om_to = None,
        om_sent_feedback = Some (io_feedback io 0)\<rparr>]\<rparr>"
  have "dkg_round1_loop S cbor n i (hv_package1 H u) ?io = Inl (Waiting (?io\<lparr>io_incoming := []\<rparr>))"
    using r1.collect_too_few [where fin = "\<lambda>s. unat n \<le> length (r1_all s)" and err = ReceiveError
        and io = ?io, OF e us s refl n] assms(3) by (simp add: dkg_round1_loop_def open_io_def)
  with honest_start [OF assms(1-3), of ms] i show ?thesis
    by (simp add: run_dkg_def wire_out_def dkg_first_def)
qed

text \<open>With all round 1 packages it has also sent its round 2 packages, and waits for more or
  has returned.\<close>

lemma dkg_round2_waits:
  assumes laws: "identifier_laws (dk_identifier S)" and u: "u \<in> set (u16_range n)"
    and h: "honest_for (\<lambda>v. dkg_first H v @ dkg_second H n v) (u16_range n) u (us @ vs)"
    and d: "dkg_messages S cbor u n pk q (us @ vs)" and vs: "filter (\<lambda>m. pr_to m = None) vs = []"
    and few: "mset (direct_senders (us @ vs)) \<noteq> mset (other_parties n u)" and io: "\<not> io_closed io"
  shows "dkg_round2_loop S cbor u n (filter (\<lambda>m. pr_to m \<noteq> None) us) (io\<lparr>io_incoming := vs\<rparr>) =
    Inl (Waiting (io\<lparr>io_incoming := []\<rparr>))"
proof -
  let ?ds = "filter (\<lambda>m. pr_to m \<noteq> None) us" and ?s = "\<lparr>r2_packages = [], r2_received = []\<rparr>"
  note hs = honest_senders(3,4) [OF h u]
  have same: "direct_senders (?ds @ vs) = direct_senders (us @ vs)" by simp
  have e: "list_all (\<lambda>m. round2_ok S cbor u m \<and> round2_entry S cbor u m =
      (if pr_to m \<noteq> None then Some (the (dk_identifier S (pr_from m)), q (pr_from m)) else None)) (?ds @ vs)"
    using delivery_messages(2) [OF laws d] by (auto simp: list_all_iff)
  have us: "identifies (dk_identifier S) (direct_senders (?ds @ vs))" "distinct (direct_senders (?ds @ vs))"
    unfolding same by (rule identifies_others [OF laws hs(2)]) (rule hs(1))
  have s: "round2_inv ?s" "bt_wf (r2_packages ?s)"
    "\<forall>w \<in> set (direct_senders (?ds @ vs)). bt_get (the (dk_identifier S w)) (r2_packages ?s) = None"
    by (simp_all add: round2_inv_def bt_get_def)
  have "u \<noteq> 0" "u \<le> n" using u by (simp_all add: set_u16_range)
  then have "length (other_parties n u) = unat (n - 1)" using length_other_parties [of u n] pred_u16 [of n]
    by (cases "n = 0") auto
  moreover have "length (direct_senders (us @ vs)) < length (other_parties n u)"
    using hs few by (intro fewer_parties) (simp_all add: distinct_other_parties)
  ultimately have n: "length (r2_packages ?s) + length (filter (\<lambda>m. pr_to m \<noteq> None) (?ds @ vs)) < unat (n - 1)" by simp
  show ?thesis
    using r2.collect_too_few [where fin = "\<lambda>s. unat (n - 1) \<le> length (r2_packages s)" and err = ReceiveError
        and io = "io\<lparr>io_incoming := vs\<rparr>", OF e us s refl n] io by (simp add: dkg_round2_loop_def)
qed

lemma send_honest_round2:
  assumes "honest_dkg S cbor t n H" and "u \<in> set (u16_range n)" and "\<forall>k. io_send_ok io k"
  shows "\<exists>ws out. mset ws = mset (other_parties n u) \<and>
    dkg_send_round2 S cbor (id_to_u16 S n) (id_map (dk_identifier S) (hv_package2 H u) (other_parties n u)) io =
      Inr (io\<lparr>io_outgoing := io_outgoing io @ out\<rparr>) \<and>
    wire_out out = map (\<lambda>w. (Some w, hv_body2 H u w)) ws"
proof -
  let ?I = "dk_identifier S" and ?o = "other_parties n u"
  have laws: "identifier_laws ?I" using assms(1) by (simp add: honest_dkg_def)
  obtain ws where ws: "mset ws = mset ?o" "id_map ?I (hv_package2 H u) ?o = map (\<lambda>w. (the (?I w), hv_package2 H u w)) ws"
    using id_map_entries [OF identifies_others [OF laws subset_refl] distinct_other_parties] by blast
  note sws = mset_eq_setD [OF ws(1)]
  have "bt_get (the (?I w)) (id_to_u16 S n) = Some w" if "w \<in> set ws" for w
  proof -
    have w: "w \<noteq> 0" "w \<in> set (u16_range n)" using that sws by (simp_all add: set_other_parties set_u16_range)
    then have "?I w = Some (the (?I w))" using laws by (cases "?I w") (auto simp: identifier_laws_def)
    with w(2) show ?thesis by (auto simp: id_to_u16_eq id_map_get [OF laws])
  qed
  then have get: "\<forall>w \<in> set ws. bt_get (the (?I w)) (id_to_u16 S n) = Some w" by blast
  have sent: "\<forall>w \<in> set ws. sent_as cbor (dk_ser2 S) (dk_de2 S) (hv_package2 H u w) (hv_body2 H u w)"
    using assms(1,2) sws by (simp add: honest_dkg_def)
  from send_round2_all [OF get sent assms(3)] ws(1) show ?thesis unfolding ws(2) by blast
qed

lemma dkg_reaches_round2:
  assumes "honest_dkg S cbor t n H" and "u \<in> set (u16_range n)" and "open_io io"
    and "honest_for (\<lambda>v. dkg_first H v @ dkg_second H n v) (u16_range n) u ms"
    and "heard_all (dkg_first H) (u16_range n) u ms"
  shows "\<exists>us vs ws io'. ms = us @ vs \<and> filter (\<lambda>m. pr_to m = None) vs = [] \<and> mset ws = mset (other_parties n u) \<and>
    wire_out (io_outgoing io') = dkg_first H u @ map (\<lambda>w. (Some w, hv_body2 H u w)) ws \<and> \<not> io_closed io' \<and>
    run_dkg S cbor u t n (io\<lparr>io_incoming := ms\<rparr>) =
      bindR (dkg_round2_loop S cbor u n (filter (\<lambda>m. pr_to m \<noteq> None) us) (io'\<lparr>io_incoming := vs\<rparr>)) (\<lambda>(r2, io4).
      bindR (or_fail Part3Error (dk_part3 S (hv_secret2 H u)
          (id_map (dk_identifier S) (hv_package1 H) (other_parties n u)) (r2_packages r2))) (\<lambda>keys.
        Inr (keys, io4)))"
proof -
  let ?I = "dk_identifier S" and ?o = "other_parties n u"
  have laws: "identifier_laws ?I" using assms(1) by (simp add: honest_dkg_def)
  have u: "u \<noteq> 0" "u \<le> n" using assms(2) by (simp_all add: set_u16_range)
  obtain i where i: "?I u = Some i" using laws u(1) by (cases "?I u") (auto simp: identifier_laws_def)
  define m1 where "m1 = \<lparr>om_body = hv_body1 H u, om_to = None, om_sent_feedback = Some (io_feedback io 0)\<rparr>"
  let ?io = "io\<lparr>io_outgoing := [m1]\<rparr>"
  have start: "dkg_start S cbor u t n (io\<lparr>io_incoming := ms\<rparr>) =
      Inr ((i, hv_secret1 H u, hv_package1 H u), ?io\<lparr>io_incoming := ms\<rparr>)"
    using honest_start [OF assms(1-3), of ms] i by (simp add: m1_def)
  have d: "dkg_messages S cbor u n (hv_package1 H) (\<lambda>v. hv_package2 H v u) ms"
    by (rule honest_dkg_messages [OF assms(1,2,4)])
  have b: "mset (broadcasters ms) = mset ?o" using assms(5) heard_rounds(1) [OF assms(4,2)] by simp
  from round1_delivery [OF laws u i d b, of "hv_package1 H u" ?io] obtain us vs r where r:
    "ms = us @ vs" "filter (\<lambda>m. pr_to m = None) vs = []"
    "dkg_round1_loop S cbor n i (hv_package1 H u) (?io\<lparr>io_incoming := ms\<rparr>) = Inr (r, ?io\<lparr>io_incoming := vs\<rparr>)"
    "r1_others r = id_map ?I (hv_package1 H) ?o" "length (r1_all r) = unat n"
    "r1_deferred r = filter (\<lambda>m. pr_to m \<noteq> None) us" by blast
  have f: "dk_part2 S (hv_secret1 H u) (id_map ?I (hv_package1 H) ?o) =
      Some (hv_secret2 H u, id_map ?I (hv_package2 H u) ?o)"
    using assms(1,2) by (auto simp: honest_dkg_def frost_run_def Let_def)
  have ok: "\<forall>k. io_send_ok (?io\<lparr>io_incoming := vs\<rparr>) k" "\<not> io_closed io" using assms(3) by (simp_all add: open_io_def)
  obtain ws out where ws: "mset ws = mset ?o"
    "dkg_send_round2 S cbor (id_to_u16 S n) (id_map ?I (hv_package2 H u) ?o) (?io\<lparr>io_incoming := vs\<rparr>) =
      Inr ((io\<lparr>io_outgoing := m1 # out\<rparr>)\<lparr>io_incoming := vs\<rparr>)"
    "wire_out out = map (\<lambda>w. (Some w, hv_body2 H u w)) ws"
    using send_honest_round2 [OF assms(1,2) ok(1)] by (auto simp: io_commute)
  have run: "run_dkg S cbor u t n (io\<lparr>io_incoming := ms\<rparr>) =
      bindR (dkg_round2_loop S cbor u n (r1_deferred r) ((io\<lparr>io_outgoing := m1 # out\<rparr>)\<lparr>io_incoming := vs\<rparr>)) (\<lambda>(r2, io4).
      bindR (or_fail Part3Error (dk_part3 S (hv_secret2 H u) (id_map ?I (hv_package1 H) ?o) (r2_packages r2)))
        (\<lambda>keys. Inr (keys, io4)))"
    by (simp only: run_dkg_def start r(3,4) round1_checked [OF laws u r(4,5)] f ws(2) bindR_simps or_fail_simps prod.case)
  have "wire_out (m1 # out) = dkg_first H u @ map (\<lambda>w. (Some w, hv_body2 H u w)) ws"
    using ws(3) by (simp add: wire_out_def dkg_first_def m1_def)
  with r(1,2) ws(1) ok(2) run [unfolded r(6)] show ?thesis
    by (intro exI [of _ us] exI [of _ vs] exI [of _ ws] exI [of _ "io\<lparr>io_outgoing := m1 # out\<rparr>"] conjI) simp_all
qed

lemma dkg_agent_goes_on:
  assumes "honest_dkg S cbor t n H" and "u \<in> set (u16_range n)" and "open_io io"
    and "honest_for (\<lambda>v. dkg_first H v @ dkg_second H n v) (u16_range n) u ms"
    and "heard_all (dkg_first H) (u16_range n) u ms"
  shows "\<exists>ws io'. mset ws = mset (other_parties n u) \<and>
    wire_out (io_outgoing io') = dkg_first H u @ map (\<lambda>w. (Some w, hv_body2 H u w)) ws \<and>
    run_dkg S cbor u t n (io\<lparr>io_incoming := ms\<rparr>) =
      (if mset (direct_senders ms) = mset (other_parties n u) then Inr ((hv_key H u, hv_public H), io')
       else Inl (Waiting io'))"
proof -
  let ?o = "other_parties n u"
  have laws: "identifier_laws (dk_identifier S)" using assms(1) by (simp add: honest_dkg_def)
  have u: "u \<noteq> 0" "u \<le> n" using assms(2) by (simp_all add: set_u16_range)
  from dkg_reaches_round2 [OF assms] obtain us vs ws io' where r:
    "ms = us @ vs" "filter (\<lambda>m. pr_to m = None) vs = []" "mset ws = mset ?o"
    "wire_out (io_outgoing io') = dkg_first H u @ map (\<lambda>w. (Some w, hv_body2 H u w)) ws" "\<not> io_closed io'"
    "run_dkg S cbor u t n (io\<lparr>io_incoming := ms\<rparr>) =
      bindR (dkg_round2_loop S cbor u n (filter (\<lambda>m. pr_to m \<noteq> None) us) (io'\<lparr>io_incoming := vs\<rparr>)) (\<lambda>(r2, io4).
      bindR (or_fail Part3Error (dk_part3 S (hv_secret2 H u)
          (id_map (dk_identifier S) (hv_package1 H) ?o) (r2_packages r2))) (\<lambda>keys. Inr (keys, io4)))"
    by blast
  have d: "dkg_messages S cbor u n (hv_package1 H) (\<lambda>v. hv_package2 H v u) (us @ vs)"
    using honest_dkg_messages [OF assms(1,2,4)] r(1) by simp
  have "run_dkg S cbor u t n (io\<lparr>io_incoming := ms\<rparr>) =
      (if mset (direct_senders ms) = mset ?o then Inr ((hv_key H u, hv_public H), io'\<lparr>io_incoming := []\<rparr>)
       else Inl (Waiting (io'\<lparr>io_incoming := []\<rparr>)))"
  proof (cases "mset (direct_senders ms) = mset ?o")
    case all: True
    have "dk_part3 S (hv_secret2 H u) (id_map (dk_identifier S) (hv_package1 H) ?o)
        (id_map (dk_identifier S) (\<lambda>v. hv_package2 H v u) ?o) = Some (hv_key H u, hv_public H)"
      using assms(1,2) by (auto simp: honest_dkg_def frost_run_def Let_def)
    moreover obtain r2 where "dkg_round2_loop S cbor u n (filter (\<lambda>m. pr_to m \<noteq> None) us) (io'\<lparr>io_incoming := vs\<rparr>) =
        Inr (r2, io'\<lparr>io_incoming := []\<rparr>)" "r2_packages r2 = id_map (dk_identifier S) (\<lambda>v. hv_package2 H v u) ?o"
      using round2_delivery [OF laws u d all [unfolded r(1)] r(2), of io'] by blast
    ultimately show ?thesis unfolding r(6) using all by simp
  next
    case False
    from dkg_round2_waits [OF laws assms(2) assms(4) [unfolded r(1)] d r(2) False [unfolded r(1)] r(5)] False
    show ?thesis unfolding r(6) by simp
  qed
  with r(3,4) show ?thesis by (intro exI [of _ ws] exI [of _ "io'\<lparr>io_incoming := []\<rparr>"]) simp
qed

section \<open>All agents\<close>

locale honest_keygen =
  fixes S :: "('id :: linorder, 's1, 'p1, 's2, 'p2, 'kp, 'pkp) dkg_suite"
    and cbor :: "bytes serde" and t n :: u16
    and H :: "('s1, 'p1, 's2, 'p2, 'kp, 'pkp) dkg_values" and io :: "u16 \<Rightarrow> agent_io"
  assumes honest: "honest_dkg S cbor t n H"
    and channels: "u \<in> set (u16_range n) \<Longrightarrow> open_io (io u)"
begin

lemma dkg_agent_rounds:
  assumes u: "u \<in> set (u16_range n)" and h: "honest_for (\<lambda>v. dkg_first H v @ dkg_second H n v) (u16_range n) u ms"
  shows "\<exists>io'. mset (wire_out (io_outgoing io')) =
      mset (if heard_all (dkg_first H) (u16_range n) u ms then dkg_first H u @ dkg_second H n u else dkg_first H u) \<and>
    dkg_agent S cbor t n io u ms =
      (if heard_all (dkg_first H) (u16_range n) u ms \<and> heard_all (dkg_second H n) (u16_range n) u ms
       then Inr ((hv_key H u, hv_public H), io') else Inl (Waiting io'))"
proof (cases "heard_all (dkg_first H) (u16_range n) u ms")
  case True
  from dkg_agent_goes_on [OF honest u channels [OF u] h True] obtain ws io' where "mset ws = mset (other_parties n u)"
    "wire_out (io_outgoing io') = dkg_first H u @ map (\<lambda>w. (Some w, hv_body2 H u w)) ws"
    "dkg_agent S cbor t n io u ms = (if mset (direct_senders ms) = mset (other_parties n u)
      then Inr ((hv_key H u, hv_public H), io') else Inl (Waiting io'))" unfolding dkg_agent_def by blast
  with True heard_rounds(2) [OF h u] show ?thesis by (intro exI [of _ io']) (simp add: dkg_second_def)
next
  case False
  with dkg_agent_waits [OF honest u channels [OF u] h] show ?thesis by (auto simp: dkg_agent_def)
qed

end

sublocale honest_keygen \<subseteq> two_round_agents "dkg_agent S cbor t n io" "u16_range n" "dkg_first H" "dkg_second H n"
    "\<lambda>u. (hv_key H u, hv_public H)"
  by unfold_locales (rule dkg_agent_rounds)

context honest_keygen
begin

lemmas keygen_agreement = agreement [OF _ distinct_u16_range]

end

text \<open>
  C3: key generation succeeds at all parties together. Let \<open>n\<close> agents run on open channels, and
  let the network deliver what they send in any order, one message at a time. Then after
  every sequence of deliveries each agent waits or has returned its key of the run with the
  public key package that is common to all, and none is in error; there are at most two
  messages per pair of parties to deliver; and when nothing is left to deliver, every agent has
  returned.
\<close>

theorem dkg_system_agrees:
  assumes "honest_dkg S cbor t n H" and "\<forall>u \<in> set (u16_range n). open_io (io u)"
    and "(net_step (sends (dkg_agent S cbor t n io)) (u16_range n) ^^ k) (\<lambda>_. []) D"
  shows "k \<le> unat n * (2 * (unat n - 1)) \<and>
    (\<forall>u \<in> set (u16_range n). on_track (hv_key H u, hv_public H) (run_dkg S cbor u t n ((io u)\<lparr>io_incoming := D u\<rparr>))) \<and>
    ((\<exists>D'. net_step (sends (dkg_agent S cbor t n io)) (u16_range n) D D') \<or>
     (\<forall>u \<in> set (u16_range n).
        \<exists>io'. run_dkg S cbor u t n ((io u)\<lparr>io_incoming := D u\<rparr>) = Inr ((hv_key H u, hv_public H), io')))"
proof -
  have run: "honest_keygen S cbor t n H io" using assms(1,2) by unfold_locales simp_all
  have "length (deliver_to v u (dkg_first H v @ dkg_second H n v)) = 2" if "u \<in> set (u16_range n)" "v \<noteq> u" for u v
    using deliver_dkg [OF that, of H] by simp
  from honest_keygen.keygen_agreement [OF run assms(3) this] show ?thesis
    by (simp add: dkg_agent_def length_u16_range)
qed

section \<open>A run of two parties\<close>

definition sum_dkg :: "(u16, u16, bytes, u16, bytes, bytes, bytes) dkg_suite" where
  "sum_dkg = plain_dkg\<lparr>dk_part3 := \<lambda>s r1 r2. Some (concat (map snd r2), [ucast s + sum_list (concat (map snd r1))])\<rparr>"

definition sum_values :: "(u16, bytes, u16, bytes, bytes, bytes) dkg_values" where
  "sum_values = \<lparr>hv_secret1 = \<lambda>u. u, hv_package1 = \<lambda>u. [ucast u], hv_body1 = \<lambda>u. [ucast u], hv_secret2 = \<lambda>u. u,
     hv_package2 = \<lambda>u w. [10 + ucast u], hv_body2 = \<lambda>u w. [10 + ucast u],
     hv_key = \<lambda>u. concat (map (\<lambda>v. [10 + ucast v]) (other_parties 2 u)), hv_public = [3]\<rparr>"

lemmas sum_run = sum_dkg_def plain_dkg_def plain_serde_def sum_values_def

lemma sum_parties: "u16_range 2 = [1, 2]" "other_parties 2 1 = [2]" "other_parties 2 2 = [1]"
  by (simp_all add: other_parties_def u16_range_def upt_rec)

lemma sum_honest: "honest_dkg sum_dkg plain_serde 2 2 sum_values"
  by (auto simp: honest_dkg_def frost_run_def sent_as_def identifier_laws_def sum_run sum_parties id_map_def Let_def)

interpretation sum_keygen: honest_keygen sum_dkg plain_serde 2 2 sum_values "\<lambda>_. sample_io []"
  by unfold_locales (simp_all add: sum_honest open_io_def sample_io_def)

text \<open>Both parties broadcast; once party 1 has the package of party 2, it sends its second one.\<close>

abbreviation sum_node :: "u16 \<Rightarrow> protocol_request list \<Rightarrow> sent" where
  "sum_node \<equiv> sends (dkg_agent sum_dkg plain_serde 2 2 (\<lambda>_. sample_io []))"

lemmas sum_eval = sends_def dkg_agent_def run_dkg_def dkg_start_def check_threshold_def sum_run sample_io_def send_def
  dkg_round1_loop_def dkg_round1_msg_def dkg_check_round1_def dkg_round2_loop_def dkg_round2_msg_def wire_out_def
  expected_ids_def id_to_u16_def sum_parties bt_get_def sample_request_def

lemma sum_sends:
  "sum_node 1 [] = [(None, [1])]" "sum_node 2 [] = [(None, [2])]"
  "sum_node 1 [sample_request 2 None [2]] = [(None, [1]), (Some 2, [11])]"
  "sum_node 2 [sample_request 1 None [1], sample_request 1 (Some 2) [11]] = [(None, [2]), (Some 1, [12])]"
  by (simp_all add: sum_eval del: bindR_eq_Inr)

definition sum_deliveries :: deliveries where
  "sum_deliveries = (\<lambda>_. [])(1 := [sample_request 2 None [2], sample_request 2 (Some 1) [12]],
     2 := [sample_request 1 None [1], sample_request 1 (Some 2) [11]])"

lemma sum_steps: "(net_step sum_node (u16_range 2) ^^ 4) (\<lambda>_. []) sum_deliveries"
proof -
  let ?n = "net_step sum_node (u16_range 2)" and ?b = "\<lambda>u v. sample_request u None [v]"
  let ?D1 = "(\<lambda>_. [])(1 := [?b 2 2]) :: deliveries"
  let ?D2 = "?D1(2 := [?b 1 1])"
  let ?D3 = "?D2(2 := [?b 1 1, sample_request 1 (Some 2) [11]])"
  have "?n (\<lambda>_. []) ?D1"
    using net_step.deliver [of 1 "u16_range 2" 2 "\<lambda>_. []" "?b 2 2" sum_node]
    by (simp add: sum_parties sum_sends sample_request_def)
  moreover have "?n ?D1 ?D2"
    using net_step.deliver [of 2 "u16_range 2" 1 ?D1 "?b 1 1" sum_node]
    by (simp add: sum_parties sum_sends) (simp add: sample_request_def)
  moreover have "?n ?D2 ?D3"
    using net_step.deliver [of 2 "u16_range 2" 1 ?D2 "sample_request 1 (Some 2) [11]" sum_node]
    by (simp add: sum_parties sum_sends) (simp add: sample_request_def)
  moreover have "sum_deliveries = ?D3(1 := ?D3 1 @ [sample_request 2 (Some 1) [12]])"
    by (simp add: sum_deliveries_def fun_eq_iff)
  then have "?n ?D3 sum_deliveries"
    using net_step.deliver [of 1 "u16_range 2" 2 ?D3 "sample_request 2 (Some 1) [12]" sum_node]
    by (simp add: sum_parties sum_sends) (simp add: sample_request_def)
  ultimately show ?thesis by (auto simp: numeral_eq_Suc)
qed

theorem dkg_system_agrees_witness:
  "(\<exists>io'. run_dkg sum_dkg plain_serde 1 2 2 ((sample_io [])\<lparr>io_incoming := sum_deliveries 1\<rparr>) =
      Inr (([12], [3]), io')) \<and>
   (\<exists>io'. run_dkg sum_dkg plain_serde 2 2 2 ((sample_io [])\<lparr>io_incoming := sum_deliveries 2\<rparr>) =
      Inr (([11], [3]), io'))"
proof -
  have io: "\<forall>u \<in> set (u16_range 2). open_io (sample_io [])" by (simp add: open_io_def sample_io_def)
  note run = dkg_system_agrees [OF sum_honest io]
  have "\<not> net_step sum_node (u16_range 2) sum_deliveries D'" for D'
  proof
    assume "net_step sum_node (u16_range 2) sum_deliveries D'"
    with sum_steps have "(net_step sum_node (u16_range 2) ^^ Suc 4) (\<lambda>_. []) D'"
      by (intro relpowp_Suc_I)
    from run [OF this] show False by simp
  qed
  with run [OF sum_steps] show ?thesis by (auto simp: sum_parties sum_values_def)
qed

end
