(* ===== verification/Keysign_System.thy ===== *)
theory Keysign_System
  imports Keysign Rounds
begin

text \<open>
  Signing by all signers of a session at once: the agents of \<open>tss/src/keysign.rs\<close> with a
  network that delivers their messages in any order. As for key generation, FROST's own
  correctness is a hypothesis: when all signers commit and sign on each other's commitments,
  their shares aggregate to a signature that verifies under the group key.
\<close>

section \<open>An honest run of FROST\<close>

text \<open>The values of one run, by the identifiers of key generation, and the bytes that are sent.\<close>

record ('kp, 'nonce, 'com, 'share, 'pkp, 'sig) sign_values =
  gv_key_package :: "u16 \<Rightarrow> 'kp"
  gv_nonces :: "u16 \<Rightarrow> 'nonce"
  gv_com :: "u16 \<Rightarrow> 'com"
  gv_com_body :: "u16 \<Rightarrow> bytes"
  gv_share :: "u16 \<Rightarrow> 'share"
  gv_share_body :: "u16 \<Rightarrow> bytes"
  gv_public :: 'pkp
  gv_signature :: 'sig
  gv_answer :: signature

definition com_sent_as ::
    "('id, 'ss, 'vs, 'vk, 'kp, 'nonce, 'com, 'pkg, 'share, 'pkp, 'sig) sign_suite \<Rightarrow> bytes serde \<Rightarrow> 'com \<Rightarrow>
     bytes \<Rightarrow> bool" where
  "com_sent_as S cbor c body \<longleftrightarrow> (\<exists>b. sg_ser_com S c = Some b \<and> to_vec cbor b = Some body \<and>
     from_slice cbor body = Some b \<and> sg_de_com S b = Some c \<and> sg_de_share S b = None)"

definition share_sent_as ::
    "('id, 'ss, 'vs, 'vk, 'kp, 'nonce, 'com, 'pkg, 'share, 'pkp, 'sig) sign_suite \<Rightarrow> bytes serde \<Rightarrow> 'share \<Rightarrow>
     bytes \<Rightarrow> bool" where
  "share_sent_as S cbor s body \<longleftrightarrow> to_vec cbor (sg_ser_share S s) = Some body \<and>
     from_slice cbor body = Some (sg_ser_share S s) \<and> sg_de_share S (sg_ser_share S s) = Some s \<and>
     sg_de_com S (sg_ser_share S s) = None"

text \<open>Every signer holds a share of the same key, and FROST signs and aggregates.\<close>

definition signs_together ::
    "('id :: linorder, 'ss, 'vs, 'vk, 'kp, 'nonce, 'com, 'pkg, 'share, 'pkp, 'sig) sign_suite \<Rightarrow> u16 list \<Rightarrow> bytes \<Rightarrow>
     (u16 \<Rightarrow> key_share) \<Rightarrow> ('kp, 'nonce, 'com, 'share, 'pkp, 'sig) sign_values \<Rightarrow> u16 \<Rightarrow> bool" where
  "signs_together S participants message ks V u \<longleftrightarrow>
     (let package = sg_signing_package S (id_map (sg_identifier S) (gv_com V) participants) message
      in ks_identifier (ks u) = u \<and> ks_curve (ks u) = sig_curve (gv_answer V) \<and>
         load_key_package S (ks u) = Inr (the (sg_identifier S u), gv_key_package V u) \<and>
         sg_commit S (gv_key_package V u) = (gv_nonces V u, gv_com V u) \<and>
         sg_sign S package (gv_nonces V u) (gv_key_package V u) = Some (gv_share V u) \<and>
         sg_public_package S (ks_public_key_package (ks u)) = Some (gv_public V) \<and>
         the (sg_identifier S u) \<in> set (sg_verifying_ids S (gv_public V)) \<and>
         sg_aggregate S package (id_map (sg_identifier S) (gv_share V) participants) (gv_public V) =
           Some (gv_signature V))"

definition honest_signing ::
    "('id :: linorder, 'ss, 'vs, 'vk, 'kp, 'nonce, 'com, 'pkg, 'share, 'pkp, 'sig) sign_suite \<Rightarrow> bytes serde \<Rightarrow>
     u16 list \<Rightarrow> bytes \<Rightarrow> (u16 \<Rightarrow> key_share) \<Rightarrow> ('kp, 'nonce, 'com, 'share, 'pkp, 'sig) sign_values \<Rightarrow> bool" where
  "honest_signing S cbor participants message ks V \<longleftrightarrow>
     identifier_laws (sg_identifier S) \<and> distinct participants \<and> 0 \<notin> set participants \<and>
     length participants < 2 ^ 16 \<and>
     sg_verify S (sg_verifying_key S (gv_public V)) message (gv_signature V) \<and>
     sg_ser_key S (sg_verifying_key S (gv_public V)) = Some (sig_pub_key (gv_answer V)) \<and>
     sg_ser_sig S (gv_signature V) = Some (sig_signature (gv_answer V)) \<and>
     (\<forall>u \<in> set participants. signs_together S participants message ks V u \<and>
        com_sent_as S cbor (gv_com V u) (gv_com_body V u) \<and>
        share_sent_as S cbor (gv_share V u) (gv_share_body V u))"

section \<open>The messages of the run\<close>

text \<open>Parties are session indices; all messages are broadcasts.\<close>

abbreviation session_parties :: "u16 list \<Rightarrow> u16 list" where
  "session_parties participants \<equiv> u16_range (of_nat (length participants))"

definition sign_first ::
    "u16 list \<Rightarrow> ('kp, 'nonce, 'com, 'share, 'pkp, 'sig) sign_values \<Rightarrow> u16 \<Rightarrow> sent" where
  "sign_first participants V j = [(None, gv_com_body V (signer participants j))]"

definition sign_second ::
    "u16 list \<Rightarrow> ('kp, 'nonce, 'com, 'share, 'pkp, 'sig) sign_values \<Rightarrow> u16 \<Rightarrow> sent" where
  "sign_second participants V j = [(None, gv_share_body V (signer participants j))]"

abbreviation sign_msgs ::
    "u16 list \<Rightarrow> ('kp, 'nonce, 'com, 'share, 'pkp, 'sig) sign_values \<Rightarrow> u16 \<Rightarrow> sent" where
  "sign_msgs participants V j \<equiv> sign_first participants V j @ sign_second participants V j"

text \<open>The agent of the signer with session index \<open>j\<close> after the messages \<open>ms\<close>.\<close>

definition sign_agent ::
    "('id :: linorder, 'ss, 'vs, 'vk, 'kp, 'nonce, 'com, 'pkg, 'share, 'pkp, 'sig) sign_suite \<Rightarrow> bytes serde \<Rightarrow>
     (u16 \<Rightarrow> key_share) \<Rightarrow> u16 list \<Rightarrow> bytes \<Rightarrow> (u16 \<Rightarrow> agent_io) \<Rightarrow> u16 \<Rightarrow> protocol_request list \<Rightarrow>
     (keysign_error, signature) agent_res" where
  "sign_agent S cbor ks participants message io j ms =
     run_signing S cbor (ks (signer participants j)) participants message ((io j)\<lparr>io_incoming := ms\<rparr>)"

abbreviation com_of ::
    "u16 list \<Rightarrow> ('kp, 'nonce, 'com, 'share, 'pkp, 'sig) sign_values \<Rightarrow> u16 \<Rightarrow> protocol_request" where
  "com_of participants V j \<equiv> \<lparr>pr_from = j, pr_to = None, pr_payload = gv_com_body V (signer participants j)\<rparr>"

abbreviation share_of ::
    "u16 list \<Rightarrow> ('kp, 'nonce, 'com, 'share, 'pkp, 'sig) sign_values \<Rightarrow> u16 \<Rightarrow> protocol_request" where
  "share_of participants V j \<equiv> \<lparr>pr_from = j, pr_to = None, pr_payload = gv_share_body V (signer participants j)\<rparr>"

lemma deliver_sign:
  "deliver_to v u (sign_first participants V v) = [com_of participants V v]"
  "deliver_to v u (sign_second participants V v) = [share_of participants V v]"
  by (simp_all add: sign_first_def sign_second_def)

lemma signer_inj:
  assumes "distinct participants" and "length participants < 2 ^ 16"
  shows "inj_on (signer participants) (set (session_parties participants))"
  using map_signer [OF assms(2)] assms(1) by (metis distinct_map)

lemma other_signers_parties:
  assumes "distinct participants" and "length participants < 2 ^ 16" and "j \<in> set (session_parties participants)"
  shows "other_signers participants (signer participants j) = other_parties (of_nat (length participants)) j"
  unfolding other_signers_def other_parties_def
  using assms(3) inj_onD [OF signer_inj [OF assms(1,2)]] by (intro filter_cong) auto

lemma signer_mem:
  assumes "length participants < 2 ^ 16" and "j \<in> set (session_parties participants)"
  shows "signer participants j \<in> set participants"
  using map_signer [OF assms(1)] assms(2) by (metis image_eqI list.set_map)

lemma honest_session:
  assumes "honest_signing S cbor participants message ks V" and "j \<in> set (session_parties participants)"
  shows "session_ok S participants (signer participants j)"
    and "other_signers participants (signer participants j) = other_parties (of_nat (length participants)) j"
    and "signs_together S participants message ks V (signer participants j)"
    and "com_sent_as S cbor (gv_com V (signer participants j)) (gv_com_body V (signer participants j))"
    and "share_sent_as S cbor (gv_share V (signer participants j)) (gv_share_body V (signer participants j))"
  using assms other_signers_parties [OF _ _ assms(2)] signer_mem [OF _ assms(2)]
  by (simp_all add: honest_signing_def session_ok_def)

lemma bodies_of:
  assumes "honest_signing S cbor participants message ks V" and "j \<in> set (session_parties participants)"
  shows "com_body S cbor (com_of participants V j) = Some (gv_com V (signer participants j))"
    and "share_body S cbor (com_of participants V j) = None"
    and "com_body S cbor (share_of participants V j) = None"
    and "share_body S cbor (share_of participants V j) = Some (gv_share V (signer participants j))"
  using honest_session(4,5) [OF assms]
  by (auto simp: com_sent_as_def share_sent_as_def com_body_def share_body_def)

section \<open>What is delivered\<close>

lemma honest_sign_messages:
  assumes "honest_signing S cbor participants message ks V" and "u \<in> set (session_parties participants)"
    and "honest_for (sign_msgs participants V) (session_parties participants) u ms"
  shows "m \<in> set ms \<Longrightarrow> \<exists>v \<in> set (other_parties (of_nat (length participants)) u).
      m = com_of participants V v \<or> m = share_of participants V v"
    and "distinct ms"
proof -
  show "\<exists>v \<in> set (other_parties (of_nat (length participants)) u).
      m = com_of participants V v \<or> m = share_of participants V v" if m: "m \<in> set ms" for m
  proof
    note f = honest_from [OF assms(3) m]
    from f(3) show "m = com_of participants V (pr_from m) \<or> m = share_of participants V (pr_from m)"
      by (simp add: deliver_sign)
    show "pr_from m \<in> set (other_parties (of_nat (length participants)) u)"
      using f by (simp add: set_other_parties set_u16_range)
  qed
  have "distinct (deliver_to v u (sign_msgs participants V v))" if "v \<in> set (session_parties participants)" for v
    using bodies_of(1,3) [OF assms(1) that] by (auto simp: deliver_sign)
  then show "distinct ms" using assms(3) by (auto intro: honest_distinct)
qed

lemma honest_sign_kinds:
  assumes "honest_signing S cbor participants message ks V" and "u \<in> set (session_parties participants)"
    and "honest_for (sign_msgs participants V) (session_parties participants) u ms" and "m \<in> set ms"
  shows "com_body S cbor m \<noteq> None \<Longrightarrow>
      pr_from m \<in> set (other_parties (of_nat (length participants)) u) \<and> m = com_of participants V (pr_from m)"
    and "com_body S cbor m = None \<Longrightarrow>
      pr_from m \<in> set (other_parties (of_nat (length participants)) u) \<and> m = share_of participants V (pr_from m)"
proof -
  obtain v where v: "v \<in> set (other_parties (of_nat (length participants)) u)"
    "m = com_of participants V v \<or> m = share_of participants V v"
    using honest_sign_messages(1) [OF assms] by blast
  then have "v \<in> set (session_parties participants)" by (simp add: set_other_parties set_u16_range)
  note b = bodies_of(1,3) [OF assms(1) this]
  show "pr_from m \<in> set (other_parties (of_nat (length participants)) u) \<and> m = com_of participants V (pr_from m)"
    if "com_body S cbor m \<noteq> None"
    using v(2) that by (elim disjE; hypsubst) (use v(1) b in simp_all)
  show "pr_from m \<in> set (other_parties (of_nat (length participants)) u) \<and> m = share_of participants V (pr_from m)"
    if "com_body S cbor m = None"
    using v(2) that by (elim disjE; hypsubst) (use v(1) b in simp_all)
qed

lemma heard_signing:
  assumes "honest_signing S cbor participants message ks V" and "u \<in> set (session_parties participants)"
    and "honest_for (sign_msgs participants V) (session_parties participants) u ms"
  shows "heard_all (sign_first participants V) (session_parties participants) u ms \<longleftrightarrow>
      mset (com_senders S cbor ms) = mset (other_signers participants (signer participants u))"
    and "heard_all (sign_second participants V) (session_parties participants) u ms \<longleftrightarrow>
      mset (share_senders S cbor ms) = mset (other_signers participants (signer participants u))"
proof -
  let ?n = "of_nat (length participants) :: u16"
  note o = honest_session(2) [OF assms(1,2)]
  have others: "set (other_parties ?n u) = set (u16_range ?n) - {u}" by (auto simp: set_other_parties set_u16_range)
  show "heard_all (sign_first participants V) (session_parties participants) u ms \<longleftrightarrow>
      mset (com_senders S cbor ms) = mset (other_signers participants (signer participants u))"
    unfolding o by (rule heard_one_each [where b = "com_of participants V", OF honest_sign_messages(2) [OF assms]
          honest_sign_kinds(1) [OF assms] distinct_other_parties others])
      (simp_all add: deliver_sign bodies_of [OF assms(1)] others)
  show "heard_all (sign_second participants V) (session_parties participants) u ms \<longleftrightarrow>
      mset (share_senders S cbor ms) = mset (other_signers participants (signer participants u))"
    unfolding o by (rule heard_one_each [where b = "share_of participants V", OF honest_sign_messages(2) [OF assms]
          honest_sign_kinds(2) [OF assms] distinct_other_parties others])
      (simp_all add: deliver_sign bodies_of [OF assms(1)] others)
qed

lemma honest_signing_part:
  assumes "honest_signing S cbor participants message ks V" and "u \<in> set (session_parties participants)"
    and "honest_for (sign_msgs participants V) (session_parties participants) u ms"
  shows "signing_part S cbor participants (signer participants u) (gv_com V) (gv_share V) ms"
  unfolding signing_part_def list_all_iff honest_session(2) [OF assms(1,2)]
proof (intro conjI ballI)
  show "distinct (com_senders S cbor ms)" "distinct (share_senders S cbor ms)"
    using one_each(1) [where b = "com_of participants V", OF honest_sign_messages(2) [OF assms] honest_sign_kinds(1) [OF assms]]
      one_each(1) [where b = "share_of participants V", OF honest_sign_messages(2) [OF assms] honest_sign_kinds(2) [OF assms]]
    by simp_all
  fix m assume m: "m \<in> set ms"
  note k = honest_sign_kinds [OF assms m]
  show f: "pr_from m \<in> set (other_parties (of_nat (length participants)) u)" using k by blast
  then have "pr_from m \<in> set (session_parties participants)" by (simp add: set_other_parties set_u16_range)
  note b = bodies_of [OF assms(1) this]
  show "com_body S cbor m = Some (gv_com V (signer participants (pr_from m))) \<and> share_body S cbor m = None \<or>
    com_body S cbor m = None \<and> share_body S cbor m = Some (gv_share V (signer participants (pr_from m)))"
    using k b by metis
qed

section \<open>One agent\<close>

text \<open>The own entry completes the map over the other signers.\<close>

lemma session_full:
  assumes "session_ok S participants me" and "sg_identifier S me = Some i"
  shows "bt_insert i (f me) (id_map (sg_identifier S) f (filter (\<lambda>u. u \<noteq> me) participants)) =
    id_map (sg_identifier S) f participants"
proof -
  have laws: "identifier_laws (sg_identifier S)" and p: "me \<in> set participants" "0 \<notin> set participants"
    using assms(1) by (simp_all add: session_ok_def)
  have "id_map (sg_identifier S) f participants = id_map (sg_identifier S) f (filter (\<lambda>u. u \<noteq> me) participants @ [me])"
    using p by (intro id_map_perm laws_identify [OF laws]) auto
  then show ?thesis using assms(2) by (simp add: id_map_snoc)
qed

lemma honest_finish:
  assumes "honest_signing S cbor participants message ks V" and "u \<in> set participants"
  shows "finish_signature S (ks u) message
      (sg_signing_package S (id_map (sg_identifier S) (gv_com V) participants) message)
      (id_map (sg_identifier S) (gv_share V) participants) = Inr (gv_answer V)"
proof -
  have laws: "identifier_laws (sg_identifier S)" and p: "distinct participants" "0 \<notin> set participants"
    using assms(1) by (simp_all add: honest_signing_def)
  obtain vs where vs: "mset vs = mset participants" "id_map (sg_identifier S) (gv_share V) participants =
      map (\<lambda>v. (the (sg_identifier S v), gv_share V v)) vs"
    using id_map_entries [OF laws_identify [OF laws p(2)] p(1)] by blast
  have "the (sg_identifier S v) \<in> set (sg_verifying_ids S (gv_public V))" if "v \<in> set vs" for v
    using that assms(1) mset_eq_setD [OF vs(1)] by (auto simp: honest_signing_def signs_together_def Let_def)
  then have "list_all (\<lambda>e. fst e \<in> set (sg_verifying_ids S (gv_public V)))
      (id_map (sg_identifier S) (gv_share V) participants)" by (simp add: vs(2) list_all_iff)
  with assms show ?thesis
    by (simp add: finish_signature_def honest_signing_def signs_together_def Let_def del: bindR_eq_Inr)
qed

text \<open>On a channel that transmits at once, an agent sends its commitment and waits for those of all
  others; then it sends its share and waits for theirs.\<close>

definition prompt_io :: "agent_io \<Rightarrow> bool" where
  "prompt_io io \<longleftrightarrow> open_io io \<and> (\<forall>k. io_feedback_done io k)"

lemma honest_sends:
  assumes "honest_signing S cbor participants message ks V" and "u \<in> set participants" and "prompt_io io"
  defines "m1 \<equiv> \<lparr>om_body = gv_com_body V u, om_to = None, om_sent_feedback = Some (io_feedback io 0)\<rparr>"
    and "m2 \<equiv> \<lparr>om_body = gv_share_body V u, om_to = None, om_sent_feedback = Some (io_feedback io 1)\<rparr>"
  shows "send_commitments S cbor participants (gv_com V u) (io\<lparr>io_incoming := ms\<rparr>) =
      Inr ((io\<lparr>io_outgoing := [m1]\<rparr>)\<lparr>io_incoming := ms\<rparr>)"
    and "send_share S cbor (gv_share V u) ((io\<lparr>io_outgoing := [m1]\<rparr>)\<lparr>io_incoming := vs\<rparr>) =
      Inr ((io\<lparr>io_outgoing := [m1, m2]\<rparr>)\<lparr>io_incoming := vs\<rparr>)"
proof -
  have "participants \<noteq> []" using assms(2) by auto
  moreover obtain b where "sg_ser_com S (gv_com V u) = Some b" "to_vec cbor b = Some (gv_com_body V u)"
    using assms(1,2) by (auto simp: honest_signing_def com_sent_as_def)
  moreover have "to_vec cbor (sg_ser_share S (gv_share V u)) = Some (gv_share_body V u)"
    using assms(1,2) by (simp add: honest_signing_def share_sent_as_def)
  ultimately show "send_commitments S cbor participants (gv_com V u) (io\<lparr>io_incoming := ms\<rparr>) =
      Inr ((io\<lparr>io_outgoing := [m1]\<rparr>)\<lparr>io_incoming := ms\<rparr>)"
    "send_share S cbor (gv_share V u) ((io\<lparr>io_outgoing := [m1]\<rparr>)\<lparr>io_incoming := vs\<rparr>) =
      Inr ((io\<lparr>io_outgoing := [m1, m2]\<rparr>)\<lparr>io_incoming := vs\<rparr>)"
    using assms(3) by (simp_all add: send_commitments_def send_share_def send_def await_feedback_def prompt_io_def
        open_io_def io_commute m1_def m2_def del: bindR_eq_Inr)
qed

text \<open>The start of an agent, up to its first receive loop.\<close>

lemma signing_starts:
  assumes h: "honest_signing S cbor participants message ks V" and u: "u \<in> set (session_parties participants)"
    and io: "prompt_io io"
  defines "w \<equiv> signer participants u"
  shows "\<exists>i m1 m2. sg_identifier S w = Some i \<and>
    load_key_package S (ks w) = Inr (i, gv_key_package V w) \<and>
    (\<forall>ms. send_commitments S cbor participants (gv_com V w) (io\<lparr>io_incoming := ms\<rparr>) =
      Inr ((io\<lparr>io_outgoing := [m1]\<rparr>)\<lparr>io_incoming := ms\<rparr>)) \<and>
    (\<forall>vs. send_share S cbor (gv_share V w) ((io\<lparr>io_outgoing := [m1]\<rparr>)\<lparr>io_incoming := vs\<rparr>) =
      Inr ((io\<lparr>io_outgoing := [m1, m2]\<rparr>)\<lparr>io_incoming := vs\<rparr>)) \<and>
    wire_out [m1] = sign_first participants V u \<and> wire_out [m1, m2] = sign_msgs participants V u"
proof -
  have w: "w \<in> set participants" "sg_identifier S w \<noteq> None"
    using honest_session(1) [OF h u] by (auto simp: session_ok_def identifier_laws_def w_def)
  then obtain i where i: "sg_identifier S w = Some i" by auto
  then have "load_key_package S (ks w) = Inr (i, gv_key_package V w)"
    using honest_session(3) [OF h u] by (simp add: signs_together_def Let_def w_def)
  then show ?thesis
    using i honest_sends [OF h w(1) io]
    by (intro exI [of _ i] exI [of _ "\<lparr>om_body = gv_com_body V w, om_to = None, om_sent_feedback = Some (io_feedback io 0)\<rparr>"]
        exI [of _ "\<lparr>om_body = gv_share_body V w, om_to = None, om_sent_feedback = Some (io_feedback io 1)\<rparr>"])
      (simp add: wire_out_def sign_first_def sign_second_def w_def)
qed

lemma signing_agent_waits:
  assumes h: "honest_signing S cbor participants message ks V" and u: "u \<in> set (session_parties participants)"
    and io: "prompt_io io" and ms: "honest_for (sign_msgs participants V) (session_parties participants) u ms"
    and first: "\<not> heard_all (sign_first participants V) (session_parties participants) u ms"
  shows "\<exists>io'. wire_out (io_outgoing io') = sign_first participants V u \<and>
    run_signing S cbor (ks (signer participants u)) participants message (io\<lparr>io_incoming := ms\<rparr>) = Inl (Waiting io')"
proof -
  let ?w = "signer participants u" and ?ex = "id_map (sg_identifier S) (\<lambda>_. ()) participants"
  note so = honest_session(1) [OF h u]
  have laws: "identifier_laws (sg_identifier S)" and z: "0 \<notin> set participants" using so by (simp_all add: session_ok_def)
  obtain i m1 m2 where s: "sg_identifier S ?w = Some i" "load_key_package S (ks ?w) = Inr (i, gv_key_package V ?w)"
    "\<And>ms. send_commitments S cbor participants (gv_com V ?w) (io\<lparr>io_incoming := ms\<rparr>) =
      Inr ((io\<lparr>io_outgoing := [m1]\<rparr>)\<lparr>io_incoming := ms\<rparr>)" "wire_out [m1] = sign_first participants V u"
    using signing_starts [OF h u io] by blast
  have "\<not> io_closed (io\<lparr>io_outgoing := [m1]\<rparr>)" using io by (simp add: prompt_io_def open_io_def)
  from sign_round1_waits [OF so s(1) honest_signing_part [OF h u ms] _ this, of "gv_com V ?w"] first heard_signing(1) [OF h u ms]
  have "sign_round1_loop S cbor ?ex participants i (gv_com V ?w) ((io\<lparr>io_outgoing := [m1]\<rparr>)\<lparr>io_incoming := ms\<rparr>) =
      Inl (Waiting ((io\<lparr>io_outgoing := [m1]\<rparr>)\<lparr>io_incoming := []\<rparr>))" by simp
  moreover have "sg_commit S (gv_key_package V ?w) = (gv_nonces V ?w, gv_com V ?w)"
    using honest_session(3) [OF h u] by (simp add: signs_together_def Let_def)
  ultimately have "run_signing S cbor (ks ?w) participants message (io\<lparr>io_incoming := ms\<rparr>) =
      Inl (Waiting ((io\<lparr>io_outgoing := [m1]\<rparr>)\<lparr>io_incoming := []\<rparr>))"
    by (simp add: run_signing_def s expected_participants_eq [OF laws z])
  with s(4) show ?thesis by (intro exI [of _ "(io\<lparr>io_outgoing := [m1]\<rparr>)\<lparr>io_incoming := []\<rparr>"]) simp
qed

text \<open>With all commitments the agent sends its share and enters the second loop.\<close>

lemma signing_reaches_round2:
  assumes h: "honest_signing S cbor participants message ks V" and u: "u \<in> set (session_parties participants)"
    and io: "prompt_io io" and ms: "honest_for (sign_msgs participants V) (session_parties participants) u ms"
    and first: "heard_all (sign_first participants V) (session_parties participants) u ms"
  defines "w \<equiv> signer participants u" and "expected \<equiv> id_map (sg_identifier S) (\<lambda>_. ()) participants"
  shows "\<exists>i us vs io'. sg_identifier S w = Some i \<and> ms = us @ vs \<and> filter (\<lambda>m. com_body S cbor m \<noteq> None) vs = [] \<and>
    wire_out (io_outgoing io') = sign_msgs participants V u \<and> \<not> io_closed io' \<and>
    run_signing S cbor (ks w) participants message (io\<lparr>io_incoming := ms\<rparr>) =
      bindR (sign_round2_loop S cbor expected participants (merge_deferred expected
        (id_map (session_ident S participants) (\<lambda>j. gv_share V (signer participants j)) (share_senders S cbor us))
        \<lparr>ss_shares = bt_insert i (gv_share V w) [], ss_received = bt_insert i () []\<rparr>) (io'\<lparr>io_incoming := vs\<rparr>)) (\<lambda>(r2, io4).
      if \<not> same_ids (ss_shares r2) expected then Inl (Failed MissingShares)
      else bindR (finish_signature S (ks w) message
          (sg_signing_package S (id_map (sg_identifier S) (gv_com V) participants) message) (ss_shares r2)) (\<lambda>signature.
        Inr (signature, io4)))"
proof -
  let ?I = "sg_identifier S"
  note so = honest_session(1) [OF h u, folded w_def]
  have laws: "identifier_laws ?I" and z: "0 \<notin> set participants" and n: "length participants < 2 ^ 16"
    using so by (simp_all add: session_ok_def)
  obtain i m1 m2 where s: "?I w = Some i" "load_key_package S (ks w) = Inr (i, gv_key_package V w)"
    "\<And>ms. send_commitments S cbor participants (gv_com V w) (io\<lparr>io_incoming := ms\<rparr>) =
      Inr ((io\<lparr>io_outgoing := [m1]\<rparr>)\<lparr>io_incoming := ms\<rparr>)"
    "\<And>vs. send_share S cbor (gv_share V w) ((io\<lparr>io_outgoing := [m1]\<rparr>)\<lparr>io_incoming := vs\<rparr>) =
      Inr ((io\<lparr>io_outgoing := [m1, m2]\<rparr>)\<lparr>io_incoming := vs\<rparr>)" "wire_out [m1, m2] = sign_msgs participants V u"
    using signing_starts [OF h u io, folded w_def] by blast
  have st: "sg_commit S (gv_key_package V w) = (gv_nonces V w, gv_com V w)"
    "sg_sign S (sg_signing_package S (id_map ?I (gv_com V) participants) message) (gv_nonces V w) (gv_key_package V w) =
      Some (gv_share V w)"
    using honest_session(3) [OF h u] by (simp_all add: signs_together_def Let_def w_def)
  have mm: "mset (com_senders S cbor ms) = mset (other_signers participants w)"
    using first heard_signing(1) [OF h u ms] by (simp add: w_def)
  from sign_round1_delivery [OF so s(1) honest_signing_part [OF h u ms, folded w_def] mm, of "gv_com V w" "io\<lparr>io_outgoing := [m1]\<rparr>"]
  obtain us vs r where v: "ms = us @ vs" "filter (\<lambda>m. com_body S cbor m \<noteq> None) vs = []"
    and l1: "sign_round1_loop S cbor expected participants i (gv_com V w) ((io\<lparr>io_outgoing := [m1]\<rparr>)\<lparr>io_incoming := ms\<rparr>) =
      Inr (r, (io\<lparr>io_outgoing := [m1]\<rparr>)\<lparr>io_incoming := vs\<rparr>)"
    and r: "sr_commitments r = bt_insert i (gv_com V w) (id_map (session_ident S participants)
      (\<lambda>j. gv_com V (signer participants j)) (other_signers participants w))"
    "sr_deferred r = id_map (session_ident S participants) (\<lambda>j. gv_share V (signer participants j))
      (share_senders S cbor us)" unfolding expected_def by blast
  have r1: "sr_commitments r = id_map ?I (gv_com V) participants"
    using r(1) session_full [OF so s(1), of "gv_com V"] by (simp add: session_map [OF n])
  have "same_ids (id_map ?I (gv_com V) participants) expected"
    using session_same_ids [OF so s(1)] session_full [OF so s(1)] unfolding expected_def by metis
  then have "run_signing S cbor (ks w) participants message (io\<lparr>io_incoming := ms\<rparr>) =
      bindR (sign_round2_loop S cbor expected participants (merge_deferred expected (sr_deferred r)
        \<lparr>ss_shares = bt_insert i (gv_share V w) [], ss_received = bt_insert i () []\<rparr>)
        ((io\<lparr>io_outgoing := [m1, m2]\<rparr>)\<lparr>io_incoming := vs\<rparr>)) (\<lambda>(r2, io4).
      if \<not> same_ids (ss_shares r2) expected then Inl (Failed MissingShares)
      else bindR (finish_signature S (ks w) message
          (sg_signing_package S (id_map ?I (gv_com V) participants) message) (ss_shares r2)) (\<lambda>signature.
        Inr (signature, io4)))"
    by (simp add: run_signing_def Let_def s(2-4) st l1 r1 expected_participants_eq [OF laws z, folded expected_def]
        del: bindR_eq_Inr)
  moreover have "\<not> io_closed (io\<lparr>io_outgoing := [m1, m2]\<rparr>)" using io by (simp add: prompt_io_def open_io_def)
  moreover have "wire_out (io_outgoing (io\<lparr>io_outgoing := [m1, m2]\<rparr>)) = sign_msgs participants V u" using s(5) by simp
  ultimately show ?thesis using s(1) v unfolding r(2) by blast
qed

lemma signing_agent_goes_on:
  assumes h: "honest_signing S cbor participants message ks V" and u: "u \<in> set (session_parties participants)"
    and io: "prompt_io io" and ms: "honest_for (sign_msgs participants V) (session_parties participants) u ms"
    and first: "heard_all (sign_first participants V) (session_parties participants) u ms"
  shows "\<exists>io'. wire_out (io_outgoing io') = sign_msgs participants V u \<and>
    run_signing S cbor (ks (signer participants u)) participants message (io\<lparr>io_incoming := ms\<rparr>) =
      (if heard_all (sign_second participants V) (session_parties participants) u ms
       then Inr (gv_answer V, io') else Inl (Waiting io'))"
proof -
  let ?w = "signer participants u" and ?ex = "id_map (sg_identifier S) (\<lambda>_. ()) participants"
  note so = honest_session(1) [OF h u]
  have w: "?w \<in> set participants" using so by (simp add: session_ok_def)
  from signing_reaches_round2 [OF assms] obtain i us vs io' where r: "sg_identifier S ?w = Some i" "ms = us @ vs"
    "filter (\<lambda>m. com_body S cbor m \<noteq> None) vs = []" "wire_out (io_outgoing io') = sign_msgs participants V u"
    "\<not> io_closed io'" "run_signing S cbor (ks ?w) participants message (io\<lparr>io_incoming := ms\<rparr>) =
      bindR (sign_round2_loop S cbor ?ex participants (merge_deferred ?ex
        (id_map (session_ident S participants) (\<lambda>j. gv_share V (signer participants j)) (share_senders S cbor us))
        \<lparr>ss_shares = bt_insert i (gv_share V ?w) [], ss_received = bt_insert i () []\<rparr>) (io'\<lparr>io_incoming := vs\<rparr>)) (\<lambda>(r2, io4).
      if \<not> same_ids (ss_shares r2) ?ex then Inl (Failed MissingShares)
      else bindR (finish_signature S (ks ?w) message
          (sg_signing_package S (id_map (sg_identifier S) (gv_com V) participants) message) (ss_shares r2)) (\<lambda>signature.
        Inr (signature, io4)))" by blast
  have "same_ids (id_map (sg_identifier S) (gv_share V) participants) ?ex"
    using session_same_ids [OF so r(1)] session_full [OF so r(1)] by metis
  with round2_merged [OF so r(1) honest_signing_part [OF h u ms, unfolded r(2)] r(3), of io' "gv_share V ?w"]
    heard_signing(2) [OF h u ms] honest_finish [OF h w] r(2,5)
  have "run_signing S cbor (ks ?w) participants message (io\<lparr>io_incoming := ms\<rparr>) =
      (if heard_all (sign_second participants V) (session_parties participants) u ms
       then Inr (gv_answer V, io'\<lparr>io_incoming := []\<rparr>) else Inl (Waiting (io'\<lparr>io_incoming := []\<rparr>)))"
    unfolding r(6) session_full [OF so r(1)] by (auto split: if_splits simp del: bindR_eq_Inr)
  with r(4) show ?thesis by (intro exI [of _ "io'\<lparr>io_incoming := []\<rparr>"]) simp
qed

section \<open>All agents\<close>

locale honest_signers =
  fixes S :: "('id :: linorder, 'ss, 'vs, 'vk, 'kp, 'nonce, 'com, 'pkg, 'share, 'pkp, 'sig) sign_suite"
    and cbor :: "bytes serde" and ks :: "u16 \<Rightarrow> key_share" and participants :: "u16 list" and message :: bytes
    and V :: "('kp, 'nonce, 'com, 'share, 'pkp, 'sig) sign_values" and io :: "u16 \<Rightarrow> agent_io"
  assumes honest: "honest_signing S cbor participants message ks V"
    and channels: "u \<in> set (session_parties participants) \<Longrightarrow> prompt_io (io u)"
begin

lemma sign_agent_rounds:
  assumes u: "u \<in> set (session_parties participants)"
    and h: "honest_for (sign_msgs participants V) (session_parties participants) u ms"
  shows "\<exists>io'. mset (wire_out (io_outgoing io')) =
      mset (if heard_all (sign_first participants V) (session_parties participants) u ms then sign_msgs participants V u
        else sign_first participants V u) \<and>
    sign_agent S cbor ks participants message io u ms =
      (if heard_all (sign_first participants V) (session_parties participants) u ms \<and>
          heard_all (sign_second participants V) (session_parties participants) u ms
       then Inr (gv_answer V, io') else Inl (Waiting io'))"
proof (cases "heard_all (sign_first participants V) (session_parties participants) u ms")
  case True
  with signing_agent_goes_on [OF honest u channels [OF u] h True] show ?thesis by (auto simp: sign_agent_def)
next
  case False
  with signing_agent_waits [OF honest u channels [OF u] h] show ?thesis by (auto simp: sign_agent_def)
qed

end

sublocale honest_signers \<subseteq> two_round_agents "sign_agent S cbor ks participants message io"
    "session_parties participants" "sign_first participants V" "sign_second participants V" "\<lambda>_. gv_answer V"
  by unfold_locales (rule sign_agent_rounds)

context honest_signers
begin

lemmas signing_agreement = agreement [OF _ distinct_u16_range]

end

text \<open>
  C4: signing succeeds at all signers of a session together. Let the agents of all signers run on
  channels that transmit, and let the network deliver what they send in any order, one message
  at a time. Then after every sequence of deliveries each agent waits or has returned the one
  signature of the run, which verifies under the group key, and none is in error; there are at
  most two messages per pair of signers to deliver; and when nothing is left to deliver, every
  agent has returned the signature.
\<close>

theorem signing_system_agrees:
  assumes "honest_signing S cbor participants message ks V"
    and "\<forall>j \<in> set (session_parties participants). prompt_io (io j)"
    and "(net_step (sends (sign_agent S cbor ks participants message io)) (session_parties participants) ^^ k) (\<lambda>_. []) D"
  shows "k \<le> length participants * (2 * (length participants - 1)) \<and>
    (\<forall>j \<in> set (session_parties participants). on_track (gv_answer V)
      (run_signing S cbor (ks (signer participants j)) participants message ((io j)\<lparr>io_incoming := D j\<rparr>))) \<and>
    ((\<exists>D'. net_step (sends (sign_agent S cbor ks participants message io)) (session_parties participants) D D') \<or>
     (\<forall>j \<in> set (session_parties participants). \<exists>io'.
        run_signing S cbor (ks (signer participants j)) participants message ((io j)\<lparr>io_incoming := D j\<rparr>) =
          Inr (gv_answer V, io')))"
proof -
  have run: "honest_signers S cbor ks participants message V io" using assms(1,2) by unfold_locales simp_all
  have n: "length (session_parties participants) = length participants"
    using assms(1) by (simp add: length_u16_range honest_signing_def unsigned_of_nat take_bit_nat_eq_self)
  have "length (deliver_to v u (sign_msgs participants V v)) = 2" for u v by (simp add: deliver_sign)
  from honest_signers.signing_agreement [OF run assms(3) this] show ?thesis
    by (simp add: sign_agent_def n)
qed

section \<open>A session of two signers\<close>

text \<open>Signers 1 and 3 of a key of three.\<close>

definition pair_values :: "(u16, unit, bytes, bytes, bytes, bytes) sign_values" where
  "pair_values = \<lparr>gv_key_package = \<lambda>u. u, gv_nonces = \<lambda>u. (), gv_com = \<lambda>u. [1, ucast u], gv_com_body = \<lambda>u. [1, ucast u],
     gv_share = \<lambda>u. [2, ucast u], gv_share_body = \<lambda>u. [2, ucast u], gv_public = ks_public_key_package sample_share,
     gv_signature = [2, 1, 2, 3], gv_answer = \<lparr>sig_curve = Ed25519, sig_pub_key = ks_public_key_package sample_share,
     sig_signature = [2, 1, 2, 3]\<rparr>\<rparr>"

definition pair_shares :: "u16 \<Rightarrow> key_share" where
  "pair_shares u = sample_share\<lparr>ks_identifier := u\<rparr>"

lemmas pair_run = plain_sign_def plain_serde_def tagged_def pair_values_def pair_shares_def

lemma pair_parties: "u16_range 2 = [1, 2]" "signer [1, 3] 1 = 1" "signer [1, 3] 2 = 3"
  by (simp_all add: u16_range_def upt_rec signer_def)

lemma pair_honest: "honest_signing plain_sign plain_serde [1, 3] [7] pair_shares pair_values"
  by (simp add: honest_signing_def signs_together_def com_sent_as_def share_sent_as_def identifier_laws_def
      load_key_package_def pair_run sample_share_def id_map_def Let_def del: bindR_eq_Inr)

interpretation pair: honest_signers plain_sign plain_serde pair_shares "[1, 3]" "[7]" pair_values "\<lambda>_. sample_io []"
  by unfold_locales (simp_all add: pair_honest prompt_io_def open_io_def sample_io_def)

abbreviation pair_node :: "u16 \<Rightarrow> protocol_request list \<Rightarrow> sent" where
  "pair_node \<equiv> sends (sign_agent plain_sign plain_serde pair_shares [1, 3] [7] (\<lambda>_. sample_io []))"

lemmas pair_eval = sends_def sign_agent_def run_signing_def load_key_package_def send_commitments_def send_share_def send_def
  await_feedback_def sign_round1_loop_def sign_round1_msg_def sign_round2_loop_def sign_round2_msg_def sender_of_def
  participant_identifier_for_session_index_def same_ids_def bt_or_insert_def bt_get_def finish_signature_def
  pair_run pair_parties sample_share_def sample_io_def sample_request_def wire_out_def Let_def

lemma pair_sends:
  "pair_node 1 [] = [(None, [1, 1])]" "pair_node 2 [] = [(None, [1, 3])]"
  "pair_node 1 [sample_request 2 None [1, 3]] = [(None, [1, 1]), (None, [2, 1])]"
  "pair_node 2 [sample_request 1 None [1, 1], sample_request 1 None [2, 1]] = [(None, [1, 3]), (None, [2, 3])]"
  by (simp_all add: pair_eval del: bindR_eq_Inr)

definition pair_deliveries :: deliveries where
  "pair_deliveries = (\<lambda>_. [])(1 := [sample_request 2 None [1, 3], sample_request 2 None [2, 3]],
     2 := [sample_request 1 None [1, 1], sample_request 1 None [2, 1]])"

lemma pair_steps: "(net_step pair_node (session_parties [1, 3]) ^^ 4) (\<lambda>_. []) pair_deliveries"
proof -
  let ?n = "net_step pair_node (session_parties [1, 3])" and ?b = "\<lambda>u b. sample_request u None b"
  let ?D1 = "(\<lambda>_. [])(1 := [?b 2 [1, 3]]) :: deliveries"
  let ?D2 = "?D1(2 := [?b 1 [1, 1]])"
  let ?D3 = "?D2(2 := [?b 1 [1, 1], ?b 1 [2, 1]])"
  have "?n (\<lambda>_. []) ?D1"
    using net_step.deliver [of 1 "session_parties [1, 3]" 2 "\<lambda>_. []" "?b 2 [1, 3]" pair_node]
    by (simp add: pair_parties pair_sends sample_request_def)
  moreover have "?n ?D1 ?D2"
    using net_step.deliver [of 2 "session_parties [1, 3]" 1 ?D1 "?b 1 [1, 1]" pair_node]
    by (simp add: pair_parties pair_sends) (simp add: sample_request_def)
  moreover have "?n ?D2 ?D3"
    using net_step.deliver [of 2 "session_parties [1, 3]" 1 ?D2 "?b 1 [2, 1]" pair_node]
    by (simp add: pair_parties pair_sends) (simp add: sample_request_def)
  moreover have "pair_deliveries = ?D3(1 := ?D3 1 @ [?b 2 [2, 3]])" by (simp add: pair_deliveries_def fun_eq_iff)
  then have "?n ?D3 pair_deliveries"
    using net_step.deliver [of 1 "session_parties [1, 3]" 2 ?D3 "?b 2 [2, 3]" pair_node]
    by (simp add: pair_parties pair_sends) (simp add: sample_request_def)
  ultimately show ?thesis by (auto simp: numeral_eq_Suc)
qed

theorem signing_system_agrees_witness:
  "(\<exists>io'. run_signing plain_sign plain_serde (pair_shares 1) [1, 3] [7] ((sample_io [])\<lparr>io_incoming := pair_deliveries 1\<rparr>) =
      Inr (\<lparr>sig_curve = Ed25519, sig_pub_key = [4], sig_signature = [2, 1, 2, 3]\<rparr>, io')) \<and>
   (\<exists>io'. run_signing plain_sign plain_serde (pair_shares 3) [1, 3] [7] ((sample_io [])\<lparr>io_incoming := pair_deliveries 2\<rparr>) =
      Inr (\<lparr>sig_curve = Ed25519, sig_pub_key = [4], sig_signature = [2, 1, 2, 3]\<rparr>, io'))"
proof -
  have io: "\<forall>u \<in> set (session_parties [1, 3]). prompt_io (sample_io [])"
    by (simp add: prompt_io_def open_io_def sample_io_def)
  note run = signing_system_agrees [OF pair_honest io]
  have "\<not> net_step pair_node (session_parties [1, 3]) pair_deliveries D'" for D'
  proof
    assume "net_step pair_node (session_parties [1, 3]) pair_deliveries D'"
    with pair_steps have "(net_step pair_node (session_parties [1, 3]) ^^ Suc 4) (\<lambda>_. []) D'" by (intro relpowp_Suc_I)
    from run [OF this] show False by simp
  qed
  with run [OF pair_steps] show ?thesis
    by (auto simp: pair_parties pair_values_def sample_share_def)
qed

end
