(* ===== verification/Spec2Isabelle.thy ===== *)
theory Spec2Isabelle
  imports Room Execution Worker Factory Cli Traced Keygen_System Keysign_System
begin

text \<open>
  A verification of \<open>frost-mpc-tss\<close>: nodes that generate threshold keys (FROST) with each other
  and sign with them, over a libp2p network, driven by JSON-RPC calls.

  \<^bold>\<open>The program and its model.\<close> A JSON-RPC call (\<open>client/rpc\<close>) puts a request on the queue of the
  service worker (\<open>client/service\<close>). The worker owns the rooms; in a room the node either
  proposes a session itself, through a negotiation that finds the parties, or joins the one of
  another node, through two phases. Either way a session gets a peerset and runs a protocol
  agent (\<open>tss\<close>) next to an echo broadcast that checks that all parties saw the same messages.
  Requests between nodes travel through the network worker (\<open>client/network\<close>), whose swarm
  combines a request-response behaviour with one protocol per room, and peer discovery. A node
  (\<open>apps/node\<close>) puts these together from a configuration and a key that \<open>setup\<close> has written.
  The theories, from the bottom up (paths below \<open>src/crates\<close>):

  \<^item> \<open>Prelude\<close>, \<open>Varint\<close>, \<open>Btree\<close>: results that separate a returned error (\<open>Fail\<close>) from a panic
    (\<open>Panic\<close>), \<open>std::io\<close> reading, words of fixed width, timers; the crate \<open>unsigned_varint\<close> as
    a parameter with its laws and LEB128 as an instance; \<open>BTreeMap\<close> as a sorted association list.
  \<^item> \<open>Wire\<close> (\<open>network/request_responses.rs\<close>): message types and the four functions of
    \<open>GenericCodec\<close>. What is written is read back, a truncated request is refused, an accepted
    one is well-formed, and the one way to panic is characterised.
  \<^item> \<open>Peerset\<close>, \<open>Start_Msg\<close>, \<open>Storage\<close> (\<open>service/peerset.rs\<close>, \<open>negotiation.rs\<close>, \<open>storage.rs\<close>,
    \<open>network/room.rs\<close>): the ordered set of parties, its byte format behind a \<open>BufWriter\<close> of 8192
    bytes, the message that starts a session and the caches a later session recovers from.
  \<^item> \<open>Net_Config\<close> (\<open>network/config.rs\<close>): addresses with a peer id, key files, room parameters. A
    node that has obtained a key keeps it.
  \<^item> \<open>Request_Responses\<close> (\<open>network/request_responses.rs\<close>, \<open>types.rs\<close>, \<open>peer_store.rs\<close>): the
    request-response behaviour with its pending requests and responses. The locale
    \<open>linear_channels\<close> states that a step neither loses nor duplicates a response channel;
    \<open>poll_relation\<close> lifts a relation on states from the parts of \<open>poll\<close> to \<open>poll\<close>, and is
    interpreted for the conservation of channels, for the absence of drops and for the timeouts.
    An inbound request waits through any calls until its builder answers.
  \<^item> \<open>Discovery\<close> (\<open>network/discovery.rs\<close>): known addresses, the addresses of a dial, connection
    counting, the random walk and the bookkeeping of DHT queries.
  \<^item> \<open>Network_Service\<close>, \<open>Network\<close> (\<open>network/service.rs\<close>, \<open>behaviour.rs\<close>): the worker's event loop and
    the construction of worker and behaviour; the composition of both with the request-response
    behaviour, in which every caller is answered once.
  \<^item> \<open>Channels\<close>, \<open>Negotiation\<close>, \<open>Coordination\<close>, \<open>Room\<close> (\<open>service/coordination.rs\<close>,
    \<open>network_proxy.rs\<close>, \<open>negotiation.rs\<close>): the filter between a room and its session, both sides
    of finding a session, and the room as a transition system over all of them: it keeps its
    receiver, no request is lost, and proposer and joiner start the same session.
  \<^item> \<open>Echo\<close>, \<open>Execution\<close> (\<open>service/echo.rs\<close>, \<open>execution.rs\<close>): the running session. Broadcasts are
    released in complete rounds and an execution that returns has reported its result once. The
    rounds of a session are the relation \<open>echo_session\<close>; each completed one means agreement on the
    digests, whatever the order in which its group arrived, and the limits of that agreement
    are shown: payloads are hashed without separators, and a failed round reports nothing.
  \<^item> \<open>Worker\<close> (\<open>service/worker.rs\<close>, \<open>service.rs\<close>, \<open>lib.rs\<close>): the loop that owns rooms, sessions and
    queued requests.
  \<^item> \<open>Wallet\<close>, \<open>Agent_Io\<close>, \<open>Key_Share\<close>, \<open>Parties\<close>, \<open>Keygen\<close>, \<open>Keysign\<close>, \<open>Factory\<close> (\<open>tss\<close>): wallet
    names and payloads, share files, and the two agents. For every interleaving of messages an
    agent behaves like the synchronous protocol, stores a share with every field of the
    generated key, and answers only with a verified signature.
  \<^item> \<open>Rounds\<close>, \<open>Keygen_System\<close>, \<open>Keysign_System\<close>: all agents of a session on a network that delivers
    their messages one at a time in any order. The locale \<open>two_rounds\<close> treats what protocols of
    two rounds send, \<open>two_round_agents\<close> adds that agents wait and return; key generation and
    signing are sublocales under the hypothesis that a run of FROST by honest parties succeeds.
    No agent ends in error, the number of deliveries is bounded, and when nothing is left to
    deliver all agents have returned with the same public key package or signature.
  \<^item> \<open>Node\<close>, \<open>Rpc\<close>, \<open>Benchmark\<close>, \<open>Cli\<close> (\<open>tss/config.rs\<close>, \<open>apps/node\<close>, \<open>client/rpc\<close>,
    \<open>client/rpc-api\<close>, \<open>apps/cli\<close>): the configuration that \<open>setup\<close> writes, the assembly of a node with
    its tasks and its server, the calls of the RPC interface, the commands of the command line
    with their exit codes, and the benchmark with its statistics. The wallet that \<open>keygen\<close>
    prints is the wallet that the \<open>sign\<close> command asks its node to sign with.
  \<^item> \<open>Traced\<close> (\<open>service/mpsc.rs\<close>): the wrapped unbounded channels, which no other module uses.
  \<^item> This theory composes key generation and signing: the wallet that a node has generated is
    one it can sign with.

  \<^bold>\<open>Conventions.\<close> A struct is a record, an enum a datatype, a handler one function from a state
  (and the input that woke it) to a state, a list of effects and, where the source can fail, an
  error. Futures are functions of what each channel, timer and oracle yields at one poll; a loop
  that runs until nothing is ready recurses over the list of the inputs that are ready, so no
  fuel is needed: the exhausted list is \<open>Pending\<close>. A sequence of polls or events is a list, and
  the properties hold for all lists. Integers keep their width (\<open>u16\<close>, \<open>u64\<close>); an addition that a
  debug build checks is a panic of the model, and so is every \<open>unwrap\<close>, \<open>expect\<close> and index that
  can fail. A \<open>debug_assert\<close> is not modelled, since a release build has none. Senders and
  receivers of channels are names (natural numbers), dropping one is an effect. Hash maps are
  functions, or association lists where their entries are visited. Texts of error messages are
  kept where they are compared or printed, and shortened elsewhere. A send that waits on a full
  channel is modelled by its outcome, since waiting changes the time of a message only.

  \<^bold>\<open>Parameters.\<close> Code of other crates is an argument of the definitions that use it, with its
  documented laws as hypotheses: varint coding, the byte form of peer ids, FROST, serde, the
  hash functions, ed25519 and hexadecimal coding, the text form of multiaddresses, the ordered
  hash set, IP ranges, JSON, the channels of \<open>futures\<close> in \<open>Traced\<close>. Each property with such a hypothesis has a witness in which the
  parameters are concrete functions. The locales (\<open>byte_codec\<close>, \<open>varint_env\<close>, \<open>wire_env\<close> and the
  ones of the components) state what one part relies on; each is interpreted on the model.

  \<^bold>\<open>Not modelled.\<close> libp2p (transport, swarm, Kademlia, mDNS, ping, identify), jsonrpsee and the
  task scheduler: what they yield is input, calls on them are effects. Methods of the
  behaviours that only delegate to libp2p. Argument parsing (clap), so \<open>apps/cli\<close>'s commands
  start from their parsed arguments; \<open>args.rs\<close> is not a module of its crate. Logging. What a
  failed \<open>setup\<close> leaves on disk. \<open>ProtocolId\<close>, which nothing uses, and the conversions into
  \<open>ProtocolName\<close>.
\<close>

section \<open>From key generation to signing\<close>

text \<open>
  C2: a wallet that was generated can sign. After a key generation that returned on a
  peerset, the same node, asked to sign with that wallet by any session of members of the
  peerset, finds the share, is accepted under the identifier it got at key generation and
  runs the signing protocol with the identifiers of key generation.
\<close>

theorem generated_wallet_signs:
  assumes "serde_laws (ge_share E)" and "peer_id_laws (ge_peers E)" and "wf_peerset kg"
    and "keygen_compute E (key_gen_new base c) i kg payload io d = (d', Inr (answer, io'))"
    and "se_share F = ge_share E" and "se_peers F = ge_peers E"
    and "distinct (peers sg)" and "set (peers sg) \<subseteq> set (peers kg)"
    and "local_peer_id sg = local_peer_id kg" and "local_peer_id sg \<in> set (peers sg)"
    and "decode_keygen_payload (ge_payload E) payload = Inr request"
    and "decode_sign_payload (se_payload F) sign_payload = Inr sign_request"
    and "sg_wallet_id sign_request = kg_wallet_id request"
  shows "\<exists>ks us. read_key_share (se_share F) base (sg_wallet_id sign_request) d' = Inr ks \<and>
    index_of kg (local_peer_id sg) = Some (ks_identifier ks - 1) \<and>
    length us = length (peers sg) \<and>
    list_all (\<lambda>q. \<exists>k u. index_of sg q = Some k \<and> index_of kg q = Some (u - 1) \<and> u \<noteq> 0 \<and>
      participant_identifier_for_session_index (k + 1) us = Inr u) (peers sg) \<and>
    keysign_compute F (key_sign_new base) d' sg sign_payload io2 =
      bindR (run_signing (se_suite F (ks_curve ks)) (se_bytes F) ks us
          (sg_message sign_request) io2) (\<lambda>(signature, io').
      bindR (or_fail EncodeSignature (to_vec (se_signature F) signature)) (\<lambda>signature_bytes.
        Inr (signature_bytes, io')))"
proof -
  from keygen_compute_share [OF assms(1,4)] assms(11) obtain ks where ks:
    "read_key_share (ge_share E) base (kg_wallet_id request) d' = Inr ks"
    "index_of kg (local_peer_id kg) = Some (ks_identifier ks - 1)"
    "ks_max_signers ks = of_nat (length (peers kg))"
    "key_share_participants (ge_peers E) kg = Inr (ks_participants ks)"
    by (auto simp: key_gen_new_def peerset_size_def)
  from generated_share_accepted [OF assms(2,3) ks(4,3) assms(7,8,10)] obtain sg' j where j:
    "apply_key_share_participants (ge_peers E) sg ks = Inr (sg', j)"
    "index_of kg (local_peer_id sg) = Some (j - 1)"
    "length (signing_participants sg') = length (peers sg)"
    "list_all (\<lambda>q. \<exists>k u. index_of sg q = Some k \<and> index_of kg q = Some (u - 1) \<and> u \<noteq> 0 \<and>
      participant_identifier_for_session_index (k + 1) (signing_participants sg') = Inr u) (peers sg)" by blast
  have "j = ks_identifier ks" using j(2) ks(2) assms(9) by simp
  with j(1) ks(1) assms(5,6,12,13) have "keysign_compute F (key_sign_new base) d' sg sign_payload io2 =
      bindR (run_signing (se_suite F (ks_curve ks)) (se_bytes F) ks (signing_participants sg')
          (sg_message sign_request) io2) (\<lambda>(signature, io').
      bindR (or_fail EncodeSignature (to_vec (se_signature F) signature)) (\<lambda>signature_bytes.
        Inr (signature_bytes, io')))"
    by (simp add: keysign_compute_def key_sign_new_def del: bindR_eq_Inr)
  moreover have "read_key_share (se_share F) base (sg_wallet_id sign_request) d' = Inr ks"
    using ks(1) assms(5,13) by simp
  moreover have "index_of kg (local_peer_id sg) = Some (ks_identifier ks - 1)" using ks(2) assms(9) by simp
  ultimately show ?thesis using j(3,4)
    by (intro exI [of _ ks] exI [of _ "signing_participants sg'"] conjI)
qed

text \<open>The sample node signs with the wallet it has just generated, together with peer 30.\<close>

theorem generated_wallet_signs_witness:
  "\<exists>d' ks us. read_key_share (single_serde generated_share [42]) ''data/key.share'' (code_points ''w1'') d' = Inr ks \<and>
     index_of sample_peerset 20 = Some (ks_identifier ks - 1) \<and> participant_identifier_for_session_index 2 us = Inr 3"
proof -
  let ?F = "sample_keysign_env\<lparr>se_share := single_serde generated_share [42]\<rparr>"
  let ?sg = "\<lparr>local_peer_id = 20, peers = [20, 30], parties = [0, 1]\<rparr> :: byte peerset"
  obtain d' io' where c: "keygen_compute sample_keygen_env (key_gen_new ''data/key.share'' Ed25519) sample_save
      sample_peerset [5] (sample_io keygen_deliveries) Map.empty = (d', Inr ([9], io'))"
    using sample_keygen_compute by blast
  have w: "normalize_wallet_id (code_points ''w1'') = code_points ''w1''"
    by (rule normalize_normal) (simp add: normal_id_def code_points_def MAX_WALLET_ID_LEN_def allowed_def
        is_ascii_alphanumeric_def)
  have "decode_keygen_payload (ge_payload sample_keygen_env) [5] =
      Inr \<lparr>kg_wallet_id = code_points ''w1'', kg_threshold = 2\<rparr>"
    "decode_sign_payload (se_payload ?F) [5] = Inr \<lparr>sg_wallet_id = code_points ''w1'', sg_message = [7]\<rparr>"
    by (simp_all add: decode_keygen_payload_def decode_sign_payload_def sample_keygen_env_def sample_keysign_env_def
        single_serde_def w)
  from generated_wallet_signs [OF _ _ sample_peerset_wf c _ _ _ _ _ _ this, of ?sg "sample_io []"]
  obtain ks us k u where r:
    "read_key_share (single_serde generated_share [42]) ''data/key.share'' (code_points ''w1'') d' = Inr ks"
    "index_of sample_peerset 20 = Some (ks_identifier ks - 1)" "index_of ?sg 30 = Some k"
    "index_of sample_peerset 30 = Some (u - 1)" "participant_identifier_for_session_index (k + 1) us = Inr u"
    by (auto simp: sample_keygen_env_def sample_keysign_env_def single_serde_laws byte_peer_laws sample_peerset_eq
        simp del: bindR_eq_Inr)
  have "index_of ?sg 30 = Some 1" "index_of sample_peerset 30 = Some 2"
    by (simp_all add: index_of_def sample_peerset_eq)
  with r(3,4) have "k = 1" "u = 3" by (simp_all add: eq_diff_eq)
  with r(1,2,5) show ?thesis by auto
qed

end
